(* ===== verification/Prelude.thy ===== *)
theory Prelude
  imports Main "HOL-Library.Multiset" "HOL-Library.Word"
begin

text \<open>
  Shared material of the development: the machine integer types, the parts of the C++ standard
  library the scheduler uses (\<^verbatim>\<open>std::sort\<close>, \<^verbatim>\<open>std::multiset::insert\<close>,
  \<^verbatim>\<open>std::lower_bound\<close>, \<^verbatim>\<open>std::unordered_map\<close>, \<^verbatim>\<open>std::vector\<close> printing), and the
  generic lemmas on them. Nothing here is specific to one component.
\<close>

named_theorems slot_simps \<open>arithmetic of slot capacities read as natural numbers\<close>
named_theorems vm_frame \<open>what an operation leaves unchanged in the tables\<close>

type_synonym size_t = "64 word"

section \<open>Strict weak orders and sorting\<close>

text \<open>The requirement the standard puts on the comparator of \<^verbatim>\<open>std::sort\<close> and \<^verbatim>\<open>std::multiset\<close>.\<close>

definition strict_weak :: "('a \<Rightarrow> 'a \<Rightarrow> bool) \<Rightarrow> bool" where
  "strict_weak lt \<longleftrightarrow> (\<forall>x. \<not> lt x x) \<and> (\<forall>x y z. lt x y \<longrightarrow> lt y z \<longrightarrow> lt x z)
     \<and> (\<forall>x y z. \<not> lt x y \<longrightarrow> \<not> lt y z \<longrightarrow> \<not> lt x z)"

lemma strict_weak_irrefl: "strict_weak lt \<Longrightarrow> \<not> lt x x"
  by (simp add: strict_weak_def)

lemma strict_weak_trans: "strict_weak lt \<Longrightarrow> lt x y \<Longrightarrow> lt y z \<Longrightarrow> lt x z"
  unfolding strict_weak_def by blast

lemma strict_weak_neg_trans: "strict_weak lt \<Longrightarrow> \<not> lt x y \<Longrightarrow> \<not> lt y z \<Longrightarrow> \<not> lt x z"
  unfolding strict_weak_def by blast

lemma strict_weak_asym: "strict_weak lt \<Longrightarrow> lt x y \<Longrightarrow> \<not> lt y x"
  using strict_weak_irrefl strict_weak_trans by metis

lemma strict_weak_key [simp, intro]:
  fixes f :: "'a \<Rightarrow> 'k::linorder"
  shows "strict_weak (\<lambda>x y. f x < f y)" and "strict_weak (\<lambda>x y. f y < f x)"
  by (auto simp: strict_weak_def)

text \<open>\<open>ascends lt xs\<close>: no later element is before an earlier one.\<close>

abbreviation ascends :: "('a \<Rightarrow> 'a \<Rightarrow> bool) \<Rightarrow> 'a list \<Rightarrow> bool" where
  "ascends lt xs \<equiv> sorted_wrt (\<lambda>x y. \<not> lt y x) xs"

text \<open>
  The contract of \<^verbatim>\<open>std::sort\<close>: a permutation of its input in ascending order. The order of
  equivalent elements is left open by the standard; clients that only use this contract hold
  for every admissible order.
\<close>

locale sorting =
  fixes srt :: "('a \<Rightarrow> 'a \<Rightarrow> bool) \<Rightarrow> 'a list \<Rightarrow> 'a list"
  assumes mset_srt: "mset (srt lt xs) = mset xs"
    and ascends_srt: "strict_weak lt \<Longrightarrow> ascends lt (srt lt xs)"
begin

lemma set_srt [simp]: "set (srt lt xs) = set xs"
  by (metis mset_srt set_mset_mset)

lemma length_srt [simp]: "length (srt lt xs) = length xs"
  by (metis mset_srt size_mset)

lemma distinct_map_srt [simp]: "distinct (map f (srt lt xs)) = distinct (map f xs)"
  by (metis mset_map mset_srt mset_eq_imp_distinct_iff)

lemma sum_list_srt [simp]:
  fixes f :: "'a \<Rightarrow> 'n::comm_monoid_add"
  shows "sum_list (map f (srt lt xs)) = sum_list (map f xs)"
  by (metis mset_map mset_srt sum_mset_sum_list)

lemma srt_Nil [simp]: "srt lt [] = []"
  by (metis length_srt length_0_conv)

end

text \<open>
  The executable sort of the model: insertion sort, which keeps equivalent elements in their
  order (what \<^verbatim>\<open>libstdc++\<close> does on the short ranges it sorts by insertion).
\<close>

fun insort_lt :: "('a \<Rightarrow> 'a \<Rightarrow> bool) \<Rightarrow> 'a \<Rightarrow> 'a list \<Rightarrow> 'a list" where
  "insort_lt lt x [] = [x]"
| "insort_lt lt x (y # ys) = (if lt y x then y # insort_lt lt x ys else x # y # ys)"

definition std_sort :: "('a \<Rightarrow> 'a \<Rightarrow> bool) \<Rightarrow> 'a list \<Rightarrow> 'a list" where
  "std_sort lt xs = foldr (insort_lt lt) xs []"

lemma mset_insort_lt [simp]: "mset (insort_lt lt x ys) = add_mset x (mset ys)"
  by (induction ys) auto

lemma set_insort_lt [simp]: "set (insort_lt lt x ys) = insert x (set ys)"
  by (induction ys) auto

lemma ascends_insort_lt:
  assumes "strict_weak lt"
  shows "ascends lt ys \<Longrightarrow> ascends lt (insort_lt lt x ys)"
proof (induction ys)
  case Nil
  then show ?case by simp
next
  case (Cons y ys)
  show ?case
  proof (cases "lt y x")
    case True
    then have "\<not> lt x y" by (rule strict_weak_asym [OF assms])
    with True Cons show ?thesis by simp
  next
    case False
    with Cons.prems have "\<forall>z \<in> set ys. \<not> lt z x"
      using strict_weak_neg_trans [OF assms] by auto
    with False Cons.prems show ?thesis by simp
  qed
qed

interpretation std_sort: sorting std_sort
proof
  show "mset (std_sort lt xs) = mset xs" for lt and xs :: "'a list"
    unfolding std_sort_def by (induction xs) auto
  show "strict_weak lt \<Longrightarrow> ascends lt (std_sort lt xs)" for lt and xs :: "'a list"
    unfolding std_sort_def by (induction xs) (auto intro: ascends_insort_lt)
qed

text \<open>
  \<^verbatim>\<open>std::multiset::insert\<close>: the new element goes behind every element equivalent to it.
\<close>

fun multiset_insert :: "('a \<Rightarrow> 'a \<Rightarrow> bool) \<Rightarrow> 'a \<Rightarrow> 'a list \<Rightarrow> 'a list" where
  "multiset_insert lt x [] = [x]"
| "multiset_insert lt x (y # ys) = (if lt x y then x # y # ys else y # multiset_insert lt x ys)"

text \<open>The range constructor inserts the elements one after the other.\<close>

definition multiset_of_range :: "('a \<Rightarrow> 'a \<Rightarrow> bool) \<Rightarrow> 'a list \<Rightarrow> 'a list" where
  "multiset_of_range lt xs = fold (multiset_insert lt) xs []"

lemma mset_multiset_insert [simp]: "mset (multiset_insert lt x ys) = add_mset x (mset ys)"
  by (induction ys) auto

lemma set_multiset_insert [simp]: "set (multiset_insert lt x ys) = insert x (set ys)"
  by (induction ys) auto

lemma ascends_multiset_insert:
  assumes "strict_weak lt"
  shows "ascends lt ys \<Longrightarrow> ascends lt (multiset_insert lt x ys)"
proof (induction ys)
  case Nil
  then show ?case by simp
next
  case (Cons y ys)
  show ?case
  proof (cases "lt x y")
    case True
    then have yx: "\<not> lt y x" by (rule strict_weak_asym [OF assms])
    with Cons.prems have "\<forall>z \<in> set ys. \<not> lt z x"
      using strict_weak_neg_trans [OF assms] by auto
    with yx True Cons.prems show ?thesis by simp
  next
    case False
    with Cons show ?thesis by simp
  qed
qed

lemma mset_multiset_of_range [simp]: "mset (multiset_of_range lt xs) = mset xs"
proof -
  have "mset (fold (multiset_insert lt) xs ys) = mset xs + mset ys" for ys
    by (induction xs arbitrary: ys) auto
  then show ?thesis by (simp add: multiset_of_range_def)
qed

lemma ascends_multiset_of_range: "strict_weak lt \<Longrightarrow> ascends lt (multiset_of_range lt xs)"
proof -
  assume *: "strict_weak lt"
  have "ascends lt ys \<Longrightarrow> ascends lt (fold (multiset_insert lt) xs ys)" for ys
    by (induction xs arbitrary: ys) (auto simp: ascends_multiset_insert [OF *])
  then show ?thesis by (simp add: multiset_of_range_def)
qed

section \<open>Binary search\<close>

text \<open>
  \<^verbatim>\<open>std::lower_bound\<close> as the standard libraries run it: \<open>cmp x\<close> is the comparator applied
  to an element and the searched value. The search halves the range; on a range that is not
  partitioned by \<open>cmp\<close> it still ends, but not at the first element that is not less.
\<close>

fun lower_bound_from :: "('a \<Rightarrow> bool) \<Rightarrow> 'a list \<Rightarrow> nat \<Rightarrow> nat \<Rightarrow> nat" where
  "lower_bound_from cmp xs first len =
     (if len = 0 then first
      else let half = len div 2; mid = first + half
           in if cmp (xs ! mid)
              then lower_bound_from cmp xs (Suc mid) (len - half - 1)
              else lower_bound_from cmp xs first half)"

declare lower_bound_from.simps [simp del]

definition lower_bound :: "('a \<Rightarrow> bool) \<Rightarrow> 'a list \<Rightarrow> nat" where
  "lower_bound cmp xs = lower_bound_from cmp xs 0 (length xs)"

text \<open>What a search of the range \<open>[first, first + len)\<close> finds at \<open>k\<close>.\<close>

definition bound_at :: "('a \<Rightarrow> bool) \<Rightarrow> 'a list \<Rightarrow> nat \<Rightarrow> nat \<Rightarrow> nat \<Rightarrow> bool" where
  "bound_at cmp xs first len k \<longleftrightarrow> first \<le> k \<and> k \<le> first + len \<and>
     (k < first + len \<longrightarrow> \<not> cmp (xs ! k)) \<and> (first < k \<longrightarrow> cmp (xs ! (k - 1)))"

lemma bound_at_right: "cmp (xs ! mid) \<Longrightarrow> first \<le> mid \<Longrightarrow> bound_at cmp xs (Suc mid) len k \<Longrightarrow> bound_at cmp xs first (Suc mid + len - first) k"
  by (cases "k = Suc mid") (auto simp: bound_at_def)

lemma bound_at_left: "\<not> cmp (xs ! (first + half)) \<Longrightarrow> half \<le> len \<Longrightarrow> bound_at cmp xs first half k \<Longrightarrow> bound_at cmp xs first len k"
  by (cases "k = first + half") (auto simp: bound_at_def)

lemma lower_bound_from_spec: "bound_at cmp xs first len (lower_bound_from cmp xs first len)"
proof (induction cmp xs first len rule: lower_bound_from.induct)
  case (1 cmp xs first len)
  define half where "half = len div 2"
  consider (empty) "len = 0" | (right) "len \<noteq> 0" "cmp (xs ! (first + half))" | (left) "len \<noteq> 0" "\<not> cmp (xs ! (first + half))" by blast
  then show ?case
  proof cases
    case empty
    then show ?thesis by (simp add: bound_at_def lower_bound_from.simps)
  next
    case right
    then have len: "Suc (first + half) + (len - half - 1) - first = len" by (simp add: half_def)
    show ?thesis
      using bound_at_right [OF right(2) _ "1.IH"(1) [OF right(1) half_def refl right(2)], of first] right unfolding len
      by (simp add: lower_bound_from.simps [of cmp xs first len] Let_def half_def)
  next
    case left
    show ?thesis
      using bound_at_left [OF left(2) _ "1.IH"(2) [OF left(1) half_def refl left(2)], of len] left
      by (simp add: lower_bound_from.simps [of cmp xs first len] Let_def half_def)
  qed
qed

lemma lower_bound_le: "lower_bound cmp xs \<le> length xs"
  using lower_bound_from_spec [of cmp xs 0 "length xs"] by (simp add: lower_bound_def bound_at_def)

text \<open>Whatever the order of the range, an element the search stops at is not less than the value.\<close>

lemma lower_bound_hit: "lower_bound cmp xs < length xs \<Longrightarrow> \<not> cmp (xs ! lower_bound cmp xs)"
  using lower_bound_from_spec [of cmp xs 0 "length xs"] by (simp add: lower_bound_def bound_at_def)

lemma lower_bound_prev: "0 < lower_bound cmp xs \<Longrightarrow> cmp (xs ! (lower_bound cmp xs - 1))"
  using lower_bound_from_spec [of cmp xs 0 "length xs"] by (simp add: lower_bound_def bound_at_def)

text \<open>On a partitioned range the search finds the first element that is not less.\<close>

lemma lower_bound_partitioned:
  assumes part: "\<And>i j. i < j \<Longrightarrow> j < length xs \<Longrightarrow> cmp (xs ! j) \<Longrightarrow> cmp (xs ! i)"
    and "k < lower_bound cmp xs"
  shows "cmp (xs ! k)"
proof (cases "k = lower_bound cmp xs - 1")
  case True
  with assms(2) show ?thesis using lower_bound_prev [of cmp xs] by auto
next
  case False
  with assms(2) have "k < lower_bound cmp xs - 1" by simp
  moreover have "lower_bound cmp xs - 1 < length xs"
    using assms(2) lower_bound_le [of cmp xs] by linarith
  ultimately show ?thesis
    using part lower_bound_prev [of cmp xs] assms(2) by (metis gr_zeroI not_less_zero)
qed

section \<open>Hash maps\<close>

text \<open>
  \<^verbatim>\<open>std::unordered_map\<close> as an association list in iteration order (which the standard leaves
  open): \<open>emplace\<close> keeps an existing entry, \<open>assign\<close> (\<^verbatim>\<open>m[k] = v\<close>) overwrites it, \<open>merge\<close> moves
  the entries whose key is not there yet.
\<close>

type_synonym ('k, 'v) umap = "('k \<times> 'v) list"

definition umap_emplace :: "'k \<Rightarrow> 'v \<Rightarrow> ('k, 'v) umap \<Rightarrow> ('k, 'v) umap" where
  "umap_emplace k v m = (if k \<in> set (map fst m) then m else m @ [(k, v)])"

fun umap_assign :: "'k \<Rightarrow> 'v \<Rightarrow> ('k, 'v) umap \<Rightarrow> ('k, 'v) umap" where
  "umap_assign k v [] = [(k, v)]"
| "umap_assign k v ((k', v') # m) = (if k' = k then (k, v) # m else (k', v') # umap_assign k v m)"

definition umap_merge :: "('k, 'v) umap \<Rightarrow> ('k, 'v) umap \<Rightarrow> ('k, 'v) umap" where
  "umap_merge m m' = fold (\<lambda>(k, v). umap_emplace k v) m' m"

abbreviation keys :: "('k, 'v) umap \<Rightarrow> 'k set" where
  "keys m \<equiv> set (map fst m)"

lemma map_of_append_new: "k \<notin> fst ` set m \<Longrightarrow> [k \<mapsto> v] ++ map_of m = (map_of m)(k \<mapsto> v)"
  by (rule ext) (simp add: map_add_def map_of_eq_None_iff [THEN iffD2] split: option.splits)

lemma map_of_umap_emplace:
  "map_of (umap_emplace k v m) = (if k \<in> keys m then map_of m else (map_of m)(k \<mapsto> v))"
  by (simp add: umap_emplace_def map_of_append_new)

lemma map_of_umap_assign [simp]: "map_of (umap_assign k v m) = (map_of m)(k \<mapsto> v)"
  by (induction m) auto

lemma keys_map_of: "k \<in> keys m \<Longrightarrow> \<exists>v. map_of m k = Some v"
  by (metis domD dom_map_of_conv_image_fst set_map)

lemma keys_umap_emplace [simp]: "fst ` set (umap_emplace k v m) = insert k (fst ` set m)"
  by (auto simp: umap_emplace_def image_iff)

lemma keys_umap_assign [simp]: "fst ` set (umap_assign k v m) = insert k (fst ` set m)"
  by (metis dom_map_of_conv_image_fst dom_fun_upd map_of_umap_assign option.distinct(1))

lemma distinct_umap_emplace [simp]:
  "distinct (map fst m) \<Longrightarrow> distinct (map fst (umap_emplace k v m))"
  by (auto simp: umap_emplace_def)

lemma distinct_umap_assign [simp]:
  "distinct (map fst m) \<Longrightarrow> distinct (map fst (umap_assign k v m))"
proof (induction m)
  case (Cons p m)
  then show ?case by (cases p) auto
qed simp

lemma umap_assign_new: "k \<notin> fst ` set m \<Longrightarrow> umap_assign k v m = m @ [(k, v)]"
  by (induction m) auto

lemma keys_umap_merge [simp]: "fst ` set (umap_merge m m') = fst ` set m \<union> fst ` set m'"
  unfolding umap_merge_def by (induction m' arbitrary: m) (auto split: prod.splits)

lemma distinct_umap_merge [simp]: "distinct (map fst m) \<Longrightarrow> distinct (map fst (umap_merge m m'))"
  unfolding umap_merge_def by (induction m' arbitrary: m) (auto split: prod.splits)

lemma map_of_umap_merge:
  "map_of (umap_merge m m') k = (case map_of m k of Some v \<Rightarrow> Some v | None \<Rightarrow> map_of m' k)"
  unfolding umap_merge_def
proof (induction m' arbitrary: m)
  case Nil
  then show ?case by (simp split: option.splits)
next
  case (Cons p m')
  obtain k' v' where p: "p = (k', v')" by (cases p)
  have key: "k' \<in> keys m \<longleftrightarrow> map_of m k' \<noteq> None" by (simp add: map_of_eq_None_iff)
  show ?case
    using key by (auto simp: Cons.IH p map_of_umap_emplace split: option.splits)
qed

section \<open>Generic list lemmas\<close>

lemma nth_split_at: "i < length xs \<Longrightarrow> xs = take i xs @ xs ! i # drop (Suc i) xs"
  by (simp add: id_take_nth_drop)

lemma mset_remove_at: "i < length xs \<Longrightarrow> mset (take i xs @ drop (Suc i) xs) = mset xs - {# xs ! i #}"
proof -
  assume i: "i < length xs"
  have "mset xs = mset (take i xs @ xs ! i # drop (Suc i) xs)"
    using i by (metis nth_split_at)
  then show ?thesis by simp
qed

lemma sorted_wrt_remove_at: "sorted_wrt P xs \<Longrightarrow> sorted_wrt P (take i xs @ drop (Suc i) xs)"
proof (induction xs arbitrary: i)
  case (Cons x xs)
  show ?case
  proof (cases i)
    case (Suc k)
    have "set (take k xs @ drop (Suc k) xs) \<subseteq> set xs"
      using set_take_subset [of k xs] set_drop_subset [of "Suc k" xs] by auto
    with Cons Suc show ?thesis by auto
  qed (use Cons in simp)
qed simp

lemma distinct_map_mset: "mset xs = mset ys \<Longrightarrow> distinct (map f xs) = distinct (map f ys)"
  by (metis mset_map mset_eq_imp_distinct_iff)

lemma list_all2_source: "list_all2 P xs ys \<Longrightarrow> y \<in> set ys \<Longrightarrow> \<exists>x \<in> set xs. P x y"
  by (induction xs ys rule: list_all2_induct) auto

section \<open>Decimal printing\<close>

text \<open>What \<^verbatim>\<open>operator<<\<close> prints for an integer.\<close>

fun show_nat :: "nat \<Rightarrow> string" where
  "show_nat n = (if n < 10 then [char_of (48 + n)] else show_nat (n div 10) @ [char_of (48 + n mod 10)])"

declare show_nat.simps [simp del]

definition show_int :: "int \<Rightarrow> string" where
  "show_int i = (if i < 0 then ''-'' @ show_nat (nat (- i)) else show_nat (nat i))"

lemma filter_key:
  assumes "distinct (map f xs)" and "x \<in> set xs"
  shows "filter (\<lambda>y. f y = f x \<and> P y) xs = (if P x then [x] else [])"
  using assms
proof (induction xs)
  case (Cons z xs)
  show ?case
  proof (cases "x = z")
    case True
    then have "filter (\<lambda>y. f y = f x \<and> P y) xs = []" using Cons.prems(1) by (auto simp: filter_empty_conv image_iff)
    with True show ?thesis by simp
  next
    case False
    then have "f z \<noteq> f x" "x \<in> set xs" using Cons.prems by auto
    with Cons show ?thesis by simp
  qed
qed simp

end
