(* ===== verification/Slot.thy ===== *)
theory Slot
  imports Prelude
begin

text \<open>
  Slot capacities (\<^verbatim>\<open>libs/common/include/slot.h\<close>, \<^verbatim>\<open>types.h\<close>): a pair of a CPU count and a
  RAM size, both \<^verbatim>\<open>size_t\<close>, with the lexicographic order of the defaulted \<^verbatim>\<open>operator<=>\<close>, the
  componentwise test \<^verbatim>\<open>fits\<close>, and the arithmetic operators at machine width. The lemmas read
  the operators as natural-number arithmetic on capacities below \<open>2 ^ 31\<close>, the range of the
  \<^verbatim>\<open>integer\<close> columns that hold them.
\<close>

datatype SlotCapacity = SlotCapacity (cpu: size_t) (ram: size_t)

text \<open>\<^verbatim>\<open>auto operator<=>(const SlotCapacity&) const = default\<close>: member by member.\<close>

instantiation SlotCapacity :: linorder
begin

definition less_SlotCapacity :: "SlotCapacity \<Rightarrow> SlotCapacity \<Rightarrow> bool" where
  "less_SlotCapacity a b \<longleftrightarrow> cpu a < cpu b \<or> (cpu a = cpu b \<and> ram a < ram b)"

definition less_eq_SlotCapacity :: "SlotCapacity \<Rightarrow> SlotCapacity \<Rightarrow> bool" where
  "less_eq_SlotCapacity a b \<longleftrightarrow> cpu a < cpu b \<or> (cpu a = cpu b \<and> ram a \<le> ram b)"

instance
proof
  fix x y z :: SlotCapacity
  show "(x < y) = (x \<le> y \<and> \<not> y \<le> x)"
    by (auto simp: less_SlotCapacity_def less_eq_SlotCapacity_def)
  show "x \<le> x"
    by (simp add: less_eq_SlotCapacity_def)
  show "x \<le> y \<Longrightarrow> y \<le> z \<Longrightarrow> x \<le> z"
    by (auto simp: less_eq_SlotCapacity_def)
  show "x \<le> y \<Longrightarrow> y \<le> x \<Longrightarrow> x = y"
    by (cases x; cases y) (auto simp: less_eq_SlotCapacity_def)
  show "x \<le> y \<or> y \<le> x"
    by (auto simp: less_eq_SlotCapacity_def)
qed

end

definition fits :: "SlotCapacity \<Rightarrow> SlotCapacity \<Rightarrow> bool" where
  "fits a b \<longleftrightarrow> cpu a \<le> cpu b \<and> ram a \<le> ram b"

definition slot_plus :: "SlotCapacity \<Rightarrow> SlotCapacity \<Rightarrow> SlotCapacity" where
  "slot_plus a b = SlotCapacity (cpu a + cpu b) (ram a + ram b)"

text \<open>
  One component of \<^verbatim>\<open>operator-=\<close>: \<^verbatim>\<open>std::max(static_cast<int>(a) - static_cast<int>(b), 0)\<close>. The
  casts keep the low 32 bits. Where the difference leaves the range of \<^verbatim>\<open>int\<close>, C++ leaves the
  result undefined and the model takes the two's-complement one; no lemma uses that case.
\<close>

definition static_cast_int :: "size_t \<Rightarrow> 32 word" where
  "static_cast_int x = ucast x"

definition minus_component :: "size_t \<Rightarrow> size_t \<Rightarrow> size_t" where
  "minus_component a b = word_of_int (max (sint (static_cast_int a - static_cast_int b)) 0)"

definition slot_minus :: "SlotCapacity \<Rightarrow> SlotCapacity \<Rightarrow> SlotCapacity" where
  "slot_minus a b = SlotCapacity (minus_component (cpu a) (cpu b)) (minus_component (ram a) (ram b))"

definition slot_times :: "SlotCapacity \<Rightarrow> size_t \<Rightarrow> SlotCapacity" where
  "slot_times a k = SlotCapacity (cpu a * k) (ram a * k)"

text \<open>\<^verbatim>\<open>operator<<\<close> of \<^verbatim>\<open>libs/common/impl/slot.cpp\<close>.\<close>

definition show_slot :: "SlotCapacity \<Rightarrow> string" where
  "show_slot s = ''(cpu: '' @ show_nat (unat (cpu s)) @ '' cores, ram: '' @ show_nat (unat (ram s)) @ '' MB)''"

section \<open>Laws of the order and of fits\<close>

lemma fits_refl [simp, intro]: "fits a a"
  by (simp add: fits_def)

lemma fits_trans: "fits a b \<Longrightarrow> fits b c \<Longrightarrow> fits a c"
  by (auto simp: fits_def)

lemma fits_antisym: "fits a b \<Longrightarrow> fits b a \<Longrightarrow> a = b"
  by (cases a; cases b) (auto simp: fits_def)

text \<open>\<^verbatim>\<open>fits\<close> is a partial order inside the linear one.\<close>

lemma fits_imp_le: "fits a b \<Longrightarrow> a \<le> b"
  by (auto simp: fits_def less_eq_SlotCapacity_def)

lemma not_fits_if_less: "b < a \<Longrightarrow> \<not> fits a b"
  using fits_imp_le by fastforce

section \<open>Arithmetic as natural numbers\<close>

definition cap_ok :: "SlotCapacity \<Rightarrow> bool" where
  "cap_ok s \<longleftrightarrow> unat (cpu s) < 2 ^ 31 \<and> unat (ram s) < 2 ^ 31"

abbreviation ncpu :: "SlotCapacity \<Rightarrow> nat" where "ncpu s \<equiv> unat (cpu s)"
abbreviation nram :: "SlotCapacity \<Rightarrow> nat" where "nram s \<equiv> unat (ram s)"

lemma fits_nat: "fits a b \<longleftrightarrow> ncpu a \<le> ncpu b \<and> nram a \<le> nram b"
  by (simp add: fits_def word_le_nat_alt)

lemma cap_ok_fits: "fits a b \<Longrightarrow> cap_ok b \<Longrightarrow> cap_ok a"
  by (auto simp: cap_ok_def fits_nat)

lemma slot_eq_nat: "a = b \<longleftrightarrow> ncpu a = ncpu b \<and> nram a = nram b"
  by (cases a; cases b) (auto simp: word_unat_eq_iff)

lemma static_cast_int_small: "static_cast_int x = word_of_int (uint x)"
  unfolding static_cast_int_def by simp

lemma uint_less_of_unat: "unat (x :: size_t) < 2 ^ 31 \<Longrightarrow> uint x < 2 ^ 31"
proof -
  assume "unat x < 2 ^ 31"
  then have "int (unat x) < int (2 ^ 31)" by (simp only: of_nat_less_iff)
  then show ?thesis by simp
qed

lemma sint_diff_small:
  fixes a b :: "size_t"
  assumes "unat a < 2 ^ 31" and "unat b < 2 ^ 31"
  shows "sint (static_cast_int a - static_cast_int b) = uint a - uint b"
proof -
  have "uint a < 2 ^ 31" "uint b < 2 ^ 31"
    using assms by (simp_all only: uint_less_of_unat)
  moreover have "0 \<le> uint a" "0 \<le> uint b" by simp_all
  ultimately have range: "- (2 ^ 31) \<le> uint a - uint b" "uint a - uint b < 2 ^ 31" by linarith+
  have "sint (static_cast_int a - static_cast_int b)
      = sint (word_of_int (uint a - uint b) :: 32 word)"
    unfolding static_cast_int_small wi_hom_sub ..
  also have "\<dots> = signed_take_bit (LENGTH(32) - 1) (uint a - uint b)"
    by (rule sint_sbintrunc')
  also have "\<dots> = uint a - uint b"
    using range by (intro signed_take_bit_int_eq_self) simp_all
  finally show ?thesis .
qed

lemma unat_minus_component:
  assumes "unat a < 2 ^ 31" and "unat b < 2 ^ 31"
  shows "unat (minus_component a b) = unat a - unat b"
proof -
  let ?d = "max (uint a - uint b) 0"
  have "uint a < 2 ^ 31" using assms(1) by (rule uint_less_of_unat)
  then have "uint a < 2 ^ 64" by simp
  moreover have "uint a - uint b \<le> uint a" by simp
  ultimately have "uint a - uint b < 2 ^ 64" by (rule le_less_trans [rotated])
  then have r: "0 \<le> ?d" "?d < 2 ^ 64" by simp_all
  have "unat (minus_component a b) = nat (uint (word_of_int ?d :: size_t))"
    unfolding minus_component_def sint_diff_small [OF assms] unat_eq_nat_uint ..
  also have "uint (word_of_int ?d :: size_t) = ?d"
    unfolding uint_word_of_int using r by (simp del: mod_pos_pos_trivial add: mod_pos_pos_trivial)
  also have "nat ?d = unat a - unat b"
    by (simp add: nat_diff_distrib' max_def word_le_nat_alt [symmetric] word_le_def)
  finally show ?thesis .
qed

lemma slot_minus_nat [slot_simps]:
  assumes "cap_ok a" and "cap_ok b"
  shows "ncpu (slot_minus a b) = ncpu a - ncpu b" and "nram (slot_minus a b) = nram a - nram b"
  using assms by (simp_all add: slot_minus_def cap_ok_def unat_minus_component)

lemma cap_ok_slot_minus [simp]: "cap_ok a \<Longrightarrow> cap_ok b \<Longrightarrow> cap_ok (slot_minus a b)"
  by (auto simp: cap_ok_def slot_minus_nat [unfolded cap_ok_def])

lemma fits_slot_minus: "cap_ok a \<Longrightarrow> cap_ok b \<Longrightarrow> fits (slot_minus a b) a"
  by (simp add: fits_nat slot_minus_nat)

lemma slot_plus_nat [slot_simps]:
  assumes "cap_ok a" and "cap_ok b"
  shows "ncpu (slot_plus a b) = ncpu a + ncpu b" and "nram (slot_plus a b) = nram a + nram b"
  using assms by (simp_all add: slot_plus_def cap_ok_def unat_word_ariths)

lemma slot_times_2_nat [slot_simps]:
  assumes "cap_ok a"
  shows "ncpu (slot_times a 2) = 2 * ncpu a" and "nram (slot_times a 2) = 2 * nram a"
  using assms by (simp_all add: slot_times_def cap_ok_def unat_word_ariths)

text \<open>Taking out a part that fits and putting it back gives the same capacity.\<close>

lemma slot_plus_minus_cancel:
  assumes "cap_ok a" and "fits b a"
  shows "slot_plus (slot_minus a b) b = a"
proof -
  have "cap_ok b" using assms cap_ok_fits by blast
  with assms have ok: "cap_ok (slot_minus a b)" by simp
  from assms \<open>cap_ok b\<close> show ?thesis
    by (simp add: slot_eq_nat slot_plus_nat [OF ok \<open>cap_ok b\<close>] slot_minus_nat fits_nat)
qed

lemma slot_minus_eq_iff:
  assumes "cap_ok a" and "fits b a"
  shows "slot_minus a b = a \<longleftrightarrow> ncpu b = 0 \<and> nram b = 0"
  using assms cap_ok_fits [OF assms(2,1)] by (auto simp: slot_eq_nat slot_minus_nat fits_nat)

text \<open>
  C40. Bounds of the arithmetic. On capacities below \<open>2 ^ 31\<close> addition, truncated subtraction and doubling are
  exact on both components, a subtraction stays in range, and what is taken out of a capacity it fits can
  be put back. The bound is sharp: \<^verbatim>\<open>operator-=\<close> goes through \<^verbatim>\<open>int\<close>, so that taking nothing away from
  \<open>2 ^ 31\<close> leaves nothing.
\<close>

theorem slot_arith_bounds:
  assumes "cap_ok a" and "cap_ok b"
  shows "ncpu (slot_plus a b) = ncpu a + ncpu b \<and> nram (slot_plus a b) = nram a + nram b \<and>
     ncpu (slot_minus a b) = ncpu a - ncpu b \<and> nram (slot_minus a b) = nram a - nram b \<and>
     ncpu (slot_times a 2) = 2 * ncpu a \<and> nram (slot_times a 2) = 2 * nram a \<and>
     cap_ok (slot_minus a b) \<and> (fits b a \<longrightarrow> slot_plus (slot_minus a b) b = a) \<and>
     slot_minus (SlotCapacity (2 ^ 31) 0) (SlotCapacity 0 0) = SlotCapacity 0 0"
  using assms slot_plus_minus_cancel [OF assms(1)]
  by (simp add: slot_plus_nat slot_minus_nat slot_times_2_nat)
     (simp add: slot_minus_def minus_component_def static_cast_int_def)

theorem slot_arith_bounds_witness:
  "ncpu (slot_minus (SlotCapacity 8 1024) (SlotCapacity 3 2048)) = 5 \<and>
   nram (slot_minus (SlotCapacity 8 1024) (SlotCapacity 3 2048)) = 0 \<and>
   ncpu (slot_plus (SlotCapacity 8 1024) (SlotCapacity 3 2048)) = 11"
  using slot_arith_bounds [of "SlotCapacity 8 1024" "SlotCapacity 3 2048"] by (simp add: cap_ok_def)

end
