(* ===== verification/Result.thy ===== *)
theory Result
  imports Prelude
begin

text \<open>
  The error layer: the exception classes of the repository (\<^verbatim>\<open>libs/common/include/errors.h\<close>,
  \<^verbatim>\<open>libs/db/impl/errors.h\<close>, \<^verbatim>\<open>libs/state/include/errors.h\<close>, \<^verbatim>\<open>libs/aws/allocator/impl/errors.h\<close>,
  \<^verbatim>\<open>libs/server/impl/errors.h\<close>) and the class \<^verbatim>\<open>Result\<close> of \<^verbatim>\<open>libs/common/include/result.h\<close>:
  a failure is \<open>Inl\<close> of an exception, a success \<open>Inr\<close> of the value. An accessor that throws
  returns the thrown exception on the left.
\<close>

datatype exn =
    RuntimeException string
  | LockUnavailable string
  | PgException string
  | InconsistentPgResultException string
  | SchedulingCancelled string
  | OptimisticLockingFailure string
  | JobNotFoundException string
  | JobCancelledException string
  | AllocationException string
  | InputValidationException string

text \<open>\<^verbatim>\<open>what(ex)\<close>: the stored message.\<close>

fun what :: "exn \<Rightarrow> string" where
  "what (RuntimeException m) = m"
| "what (LockUnavailable m) = m"
| "what (PgException m) = m"
| "what (InconsistentPgResultException m) = m"
| "what (SchedulingCancelled m) = m"
| "what (OptimisticLockingFailure m) = m"
| "what (JobNotFoundException m) = m"
| "what (JobCancelledException m) = m"
| "what (AllocationException m) = m"
| "what (InputValidationException m) = m"

type_synonym 'a result = "exn + 'a"

definition IsFailure :: "'a result \<Rightarrow> bool" where
  "IsFailure r = (case r of Inl _ \<Rightarrow> True | Inr _ \<Rightarrow> False)"

definition IsSuccess :: "'a result \<Rightarrow> bool" where
  "IsSuccess r = (case r of Inl _ \<Rightarrow> False | Inr _ \<Rightarrow> True)"

definition ValueOrThrow :: "'a result \<Rightarrow> exn + 'a" where
  "ValueOrThrow r = (case r of Inl e \<Rightarrow> Inl e | Inr v \<Rightarrow> Inr v)"

definition ErrorOrThrow :: "'a result \<Rightarrow> exn + exn" where
  "ErrorOrThrow r = (case r of Inl e \<Rightarrow> Inr e
     | Inr _ \<Rightarrow> Inl (RuntimeException ''Tried to extract error from Result with value''))"

text \<open>
  \<^verbatim>\<open>holdsErrorType<T>\<close> rethrows the stored exception and asks whether a handler for \<open>T\<close> takes
  it. \<open>is_T\<close> is the test of that handler; every class derives from \<^verbatim>\<open>std::exception\<close>, so the
  second handler takes what the first does not.
\<close>

definition holdsErrorType :: "(exn \<Rightarrow> bool) \<Rightarrow> 'a result \<Rightarrow> bool" where
  "holdsErrorType is_T r = (case r of Inl e \<Rightarrow> is_T e | Inr _ \<Rightarrow> False)"

fun is_JobNotFoundException :: "exn \<Rightarrow> bool" where
  "is_JobNotFoundException (JobNotFoundException _) = True"
| "is_JobNotFoundException _ = False"

fun is_JobCancelledException :: "exn \<Rightarrow> bool" where
  "is_JobCancelledException (JobCancelledException _) = True"
| "is_JobCancelledException _ = False"

lemma IsFailure_simps [simp]: "IsFailure (Inl e)" "\<not> IsFailure (Inr v)"
  by (simp_all add: IsFailure_def)

lemma IsSuccess_simps [simp]: "\<not> IsSuccess (Inl e)" "IsSuccess (Inr v)"
  by (simp_all add: IsSuccess_def)

lemma IsFailure_iff: "IsFailure r \<longleftrightarrow> (\<exists>e. r = Inl e)"
  by (cases r) auto

text \<open>
  Every path of a caller that tests \<^verbatim>\<open>IsFailure\<close> first is safe: the accessor of the side that
  is there returns it.
\<close>

lemma Result_accessors:
  "IsFailure r \<Longrightarrow> \<exists>e. ErrorOrThrow r = Inr e \<and> r = Inl e"
  "\<not> IsFailure r \<Longrightarrow> \<exists>v. ValueOrThrow r = Inr v \<and> r = Inr v"
  by (cases r; simp add: ErrorOrThrow_def ValueOrThrow_def)+

section \<open>Results without a value\<close>

text \<open>
  The specialisation \<^verbatim>\<open>Result<void>\<close> keeps an optional exception instead of a variant. The other theories use
  \<^typ>\<open>unit result\<close> for it; the members agree.
\<close>

type_synonym result_void = "exn option"

definition Success_void :: result_void where
  "Success_void = None"

definition Failure_void :: "exn \<Rightarrow> result_void" where
  "Failure_void error = Some error"

definition IsFailure_void :: "result_void \<Rightarrow> bool" where
  "IsFailure_void r = (r \<noteq> None)"

definition IsSuccess_void :: "result_void \<Rightarrow> bool" where
  "IsSuccess_void r = (\<not> IsFailure_void r)"

definition ErrorOrThrow_void :: "result_void \<Rightarrow> exn + exn" where
  "ErrorOrThrow_void r = (case r of Some e \<Rightarrow> Inr e
     | None \<Rightarrow> Inl (RuntimeException ''Tried to extract error from Result with value''))"

definition holdsErrorType_void :: "(exn \<Rightarrow> bool) \<Rightarrow> result_void \<Rightarrow> bool" where
  "holdsErrorType_void is_T r = (case r of None \<Rightarrow> False | Some e \<Rightarrow> is_T e)"

definition result_of_void :: "result_void \<Rightarrow> unit result" where
  "result_of_void r = (case r of None \<Rightarrow> Inr () | Some e \<Rightarrow> Inl e)"

lemma result_void_agrees:
  "result_of_void Success_void = Inr ()" "result_of_void (Failure_void e) = Inl e"
  "IsFailure (result_of_void r) = IsFailure_void r" "IsSuccess (result_of_void r) = IsSuccess_void r"
  "ErrorOrThrow (result_of_void r) = ErrorOrThrow_void r"
  "holdsErrorType is_T (result_of_void r) = holdsErrorType_void is_T r"
  by (auto simp: Success_void_def Failure_void_def result_of_void_def IsFailure_def IsSuccess_def IsFailure_void_def
      IsSuccess_void_def ErrorOrThrow_def ErrorOrThrow_void_def holdsErrorType_def holdsErrorType_void_def split: option.splits)

lemma result_of_void_bij: "bij result_of_void"
proof (rule o_bij)
  let ?g = "\<lambda>r :: unit result. case r of Inl e \<Rightarrow> Some e | Inr u \<Rightarrow> None"
  show "?g \<circ> result_of_void = id" by (auto simp: fun_eq_iff result_of_void_def split: option.splits)
  show "result_of_void \<circ> ?g = id" by (auto simp: fun_eq_iff result_of_void_def split: sum.splits)
qed

end
