(* ===== verification/SchedState.thy ===== *)
theory SchedState
  imports Slot Result
begin

text \<open>
  The data of \<^verbatim>\<open>libs/state\<close>: job and VM statuses with their string forms, the sets of statuses
  the code tests for, and the structures the components exchange (\<^verbatim>\<open>task.h\<close>, \<^verbatim>\<open>vm.h\<close>,
  \<^verbatim>\<open>state.h\<close>). Identifiers are \<^verbatim>\<open>int64_t\<close> in the code and only ever compared, so they are
  \<open>int\<close> here; a desired-slot number counts list elements from 0 and is a \<open>nat\<close>.
\<close>

type_synonym JobId = int
type_synonym TaskId = int
type_synonym VmId = int
type_synonym CloudVmId = string
type_synonym VmType = string

section \<open>Statuses\<close>

datatype JobStatus = Queued | Scheduled | Running | Completed | Cancelling | Cancelled | Error | InternalError

datatype VmStatus = PendingAllocation | Allocating | Allocated | AgentStarted
  | PendingTermination | Terminating | Terminated

fun toString_JobStatus :: "JobStatus \<Rightarrow> string" where
  "toString_JobStatus Queued = ''queued''"
| "toString_JobStatus Scheduled = ''scheduled''"
| "toString_JobStatus Running = ''running''"
| "toString_JobStatus Completed = ''completed''"
| "toString_JobStatus Cancelling = ''cancelling''"
| "toString_JobStatus Cancelled = ''cancelled''"
| "toString_JobStatus Error = ''error''"
| "toString_JobStatus InternalError = ''internal_error''"

text \<open>\<^verbatim>\<open>map.at(s)\<close> throws \<^verbatim>\<open>std::out_of_range\<close> on an unknown string: \<open>None\<close>.\<close>

definition jobStatusFromString :: "string \<Rightarrow> JobStatus option" where
  "jobStatusFromString s = map_of
     [(''queued'', Queued), (''scheduled'', Scheduled), (''running'', Running),
      (''completed'', Completed), (''cancelling'', Cancelling), (''cancelled'', Cancelled),
      (''error'', Error), (''internal_error'', InternalError)] s"

fun toString_VmStatus :: "VmStatus \<Rightarrow> string" where
  "toString_VmStatus PendingAllocation = ''pending_allocation''"
| "toString_VmStatus Allocating = ''allocating''"
| "toString_VmStatus Allocated = ''allocated''"
| "toString_VmStatus AgentStarted = ''agent_started''"
| "toString_VmStatus PendingTermination = ''pending_termination''"
| "toString_VmStatus Terminating = ''terminating''"
| "toString_VmStatus Terminated = ''terminated''"

definition vmStatusFromString :: "string \<Rightarrow> VmStatus option" where
  "vmStatusFromString s = map_of
     [(''pending_allocation'', PendingAllocation), (''allocating'', Allocating),
      (''allocated'', Allocated), (''agent_started'', AgentStarted),
      (''pending_termination'', PendingTermination), (''terminating'', Terminating),
      (''terminated'', Terminated)] s"

definition getFinalJobStatuses :: "JobStatus set" where
  "getFinalJobStatuses = {Completed, Cancelling, Cancelled, Error, InternalError}"

definition getAssignedJobStatuses :: "JobStatus set" where
  "getAssignedJobStatuses = {Scheduled, Running, Cancelling}"

definition getActiveVmStatuses :: "VmStatus set" where
  "getActiveVmStatuses = {PendingAllocation, Allocating, Allocated, AgentStarted}"

lemmas status_sets = getFinalJobStatuses_def getAssignedJobStatuses_def getActiveVmStatuses_def

lemma jobStatus_roundtrip: "jobStatusFromString (toString_JobStatus s) = Some s"
  by (cases s) (simp_all add: jobStatusFromString_def)

lemma vmStatus_roundtrip: "vmStatusFromString (toString_VmStatus s) = Some s"
  by (cases s) (simp_all add: vmStatusFromString_def)

text \<open>The parser takes nothing but the printed forms.\<close>

lemma jobStatusFromString_Some: "jobStatusFromString t = Some s \<Longrightarrow> t = toString_JobStatus s"
  by (simp add: jobStatusFromString_def split: if_splits)

lemma vmStatusFromString_Some: "vmStatusFromString t = Some s \<Longrightarrow> t = toString_VmStatus s"
  by (simp add: vmStatusFromString_def split: if_splits)

section \<open>Structures\<close>

record QueuedJobInfo =
  qj_id :: JobId
  requiredCapacity :: SlotCapacity

record TaskParameters =
  tp_requiredCapacity :: SlotCapacity
  estimation :: int
  jobCount :: size_t
  settings :: string
  imageVersion :: string
  clientId :: string
  jobOptions :: "string list"

record CreatedJobs =
  cj_taskId :: TaskId
  cj_jobIds :: "JobId list"

record JobState =
  js_status :: JobStatus
  resultUrl :: "string option"

record JobToLaunch =
  jl_id :: JobId
  capacityLimits :: SlotCapacity
  taskSettings :: string
  jl_imageVersion :: string
  jl_jobOptions :: string

record AssignedJob =
  aj_id :: JobId
  aj_status :: JobStatus

record AllocatedVmInfo =
  ai_id :: CloudVmId
  ai_type :: VmType

record AllocationPendingVmInfo =
  ap_id :: VmId
  ap_capacity :: SlotCapacity

record TerminationPendingVmInfo =
  tpv_id :: VmId
  tpv_cloudVmId :: CloudVmId

record ActiveVm =
  avm_id :: VmId
  totalCapacity :: SlotCapacity
  idleCapacity :: SlotCapacity

record DesiredSlot =
  total :: SlotCapacity
  idle :: SlotCapacity

type_synonym DesiredSlotId = nat

text \<open>\<^verbatim>\<open>std::variant<VmId, DesiredSlotId>\<close>.\<close>

datatype VmInfo = ExistingVm VmId | DesiredVm DesiredSlotId

type_synonym DesiredSlotMap = "(DesiredSlotId, DesiredSlot) umap"
type_synonym JobToVm = "(JobId, VmInfo) umap"
type_synonym VmIdToCapacity = "(VmId, SlotCapacity) umap"

record StateChange =
  jobToVm :: JobToVm
  desiredSlotMap :: DesiredSlotMap
  updatedIdleCapacities :: VmIdToCapacity
  vmsToTerminate :: "VmId list"

record State =
  queuedJobs :: "QueuedJobInfo list"
  vms :: "ActiveVm list"

section \<open>Sums of required capacities\<close>

abbreviation req_cpu :: "QueuedJobInfo \<Rightarrow> nat" where "req_cpu j \<equiv> ncpu (requiredCapacity j)"
abbreviation req_ram :: "QueuedJobInfo \<Rightarrow> nat" where "req_ram j \<equiv> nram (requiredCapacity j)"

definition sum_cpu :: "QueuedJobInfo list \<Rightarrow> nat" where
  "sum_cpu js = sum_list (map req_cpu js)"

definition sum_ram :: "QueuedJobInfo list \<Rightarrow> nat" where
  "sum_ram js = sum_list (map req_ram js)"

lemma sum_req_simps [simp]:
  "sum_cpu [] = 0" "sum_ram [] = 0"
  "sum_cpu (j # js) = req_cpu j + sum_cpu js" "sum_ram (j # js) = req_ram j + sum_ram js"
  "sum_cpu (js @ ks) = sum_cpu js + sum_cpu ks" "sum_ram (js @ ks) = sum_ram js + sum_ram ks"
  by (simp_all add: sum_cpu_def sum_ram_def)

end
