(* ===== verification/OrderedJobs.thy ===== *)
theory OrderedJobs
  imports SchedState
begin

text \<open>
  The order in which queued jobs are placed (\<^verbatim>\<open>libs/scheduler/impl/ordered_jobs.cpp\<close>) and the
  configuration enums of \<^verbatim>\<open>complex_vm_assigner_config.h\<close> with their parsers.
\<close>

datatype JobOrdering = Fifo | Ascending | Descending

datatype AllocationStrategy = FirstFitStrategy | NextFitStrategy | WorstFitStrategy | BestFitStrategy

text \<open>\<^verbatim>\<open>map.at\<close> of an unknown name throws \<^verbatim>\<open>std::out_of_range\<close>: \<open>None\<close>.\<close>

definition jobOrderingFromString :: "string \<Rightarrow> JobOrdering option" where
  "jobOrderingFromString s = map_of
     [(''fifo'', Fifo), (''minmin'', Ascending), (''maxmin'', Descending)] s"

definition allocationStrategyFromString :: "string \<Rightarrow> AllocationStrategy option" where
  "allocationStrategyFromString s = map_of
     [(''firstfit'', FirstFitStrategy), (''nextfit'', NextFitStrategy),
      (''bestfit'', BestFitStrategy), (''worstfit'', WorstFitStrategy)] s"

record ComplexVmAssignerConfig =
  jobOrdering :: JobOrdering
  allocationStrategy :: AllocationStrategy

definition FifoOrderedJobs :: "QueuedJobInfo list \<Rightarrow> QueuedJobInfo list" where
  "FifoOrderedJobs jobs = jobs"

definition AscendingOrderedJobs :: "QueuedJobInfo list \<Rightarrow> QueuedJobInfo list" where
  "AscendingOrderedJobs jobs =
     std_sort (\<lambda>lhs rhs. requiredCapacity lhs < requiredCapacity rhs) jobs"

definition DescendingOrderedJobs :: "QueuedJobInfo list \<Rightarrow> QueuedJobInfo list" where
  "DescendingOrderedJobs jobs =
     std_sort (\<lambda>lhs rhs. requiredCapacity rhs < requiredCapacity lhs) jobs"

fun createOrderedJobs :: "JobOrdering \<Rightarrow> QueuedJobInfo list \<Rightarrow> QueuedJobInfo list" where
  "createOrderedJobs Fifo jobs = FifoOrderedJobs jobs"
| "createOrderedJobs Ascending jobs = AscendingOrderedJobs jobs"
| "createOrderedJobs Descending jobs = DescendingOrderedJobs jobs"

lemmas ordered_jobs_defs = FifoOrderedJobs_def AscendingOrderedJobs_def DescendingOrderedJobs_def

lemma mset_createOrderedJobs [simp]: "mset (createOrderedJobs ord jobs) = mset jobs"
  by (cases ord) (simp_all add: ordered_jobs_defs std_sort.mset_srt)

lemma set_createOrderedJobs [simp]: "set (createOrderedJobs ord jobs) = set jobs"
  by (metis mset_createOrderedJobs set_mset_mset)

lemma distinct_createOrderedJobs [simp]:
  "distinct (map f (createOrderedJobs ord jobs)) = distinct (map f jobs)"
  by (cases ord) (simp_all add: ordered_jobs_defs)

lemma AscendingOrderedJobs_sorted: "sorted (map requiredCapacity (AscendingOrderedJobs jobs))"
  using std_sort.ascends_srt [OF strict_weak_key(1) [of requiredCapacity], of jobs]
  by (simp add: AscendingOrderedJobs_def sorted_map not_less)

lemma DescendingOrderedJobs_sorted:
  "sorted_wrt (\<ge>) (map requiredCapacity (DescendingOrderedJobs jobs))"
  using std_sort.ascends_srt [OF strict_weak_key(2) [of requiredCapacity], of jobs]
  by (simp add: DescendingOrderedJobs_def sorted_wrt_map not_less)

end
