(* ===== verification/JobAllocator.thy ===== *)
theory JobAllocator
  imports OrderedJobs
begin

text \<open>
  Placing a job on one of the VMs that exist (\<^verbatim>\<open>libs/scheduler/impl/job_allocator.cpp\<close>): the
  strategies first fit, next fit, worst fit and best fit behind the abstract class
  \<^verbatim>\<open>JobAllocator\<close>. An allocation that runs into undefined behaviour or does not return is
  \<open>None\<close>. The contract all strategies but next fit meet is the locale \<open>job_allocator\<close>, and the
  bookkeeping of the placement loop is proved once inside it.
\<close>

section \<open>State and operations\<close>

record allocator =
  alloc_vms :: "ActiveVm list"
  updatedVmIds :: "VmId set"

definition takeCapacity :: "QueuedJobInfo \<Rightarrow> ActiveVm \<Rightarrow> ActiveVm" where
  "takeCapacity job vm = vm\<lparr>idleCapacity := slot_minus (idleCapacity vm) (requiredCapacity job)\<rparr>"

text \<open>
  The two methods that tell what changed. The four classes repeat the same two loops over their own
  members; the dispatch over the classes is below.
\<close>

definition getVmsWithUpdatedCapacities :: "ActiveVm list \<Rightarrow> VmId set \<Rightarrow> VmIdToCapacity" where
  "getVmsWithUpdatedCapacities vs updated =
     fold (\<lambda>vm m. if avm_id vm \<in> updated then umap_emplace (avm_id vm) (idleCapacity vm) m else m) vs []"

definition getIdleVms :: "ActiveVm list \<Rightarrow> VmId list" where
  "getIdleVms vs = map avm_id (filter (\<lambda>vm. totalCapacity vm = idleCapacity vm) vs)"

subsection \<open>First fit\<close>

fun FirstFit_scan :: "QueuedJobInfo \<Rightarrow> ActiveVm list \<Rightarrow> (VmId \<times> ActiveVm list) option" where
  "FirstFit_scan job [] = None"
| "FirstFit_scan job (vm # vs) =
     (if fits (requiredCapacity job) (idleCapacity vm)
      then Some (avm_id vm, takeCapacity job vm # vs)
      else map_option (\<lambda>(v, vs'). (v, vm # vs')) (FirstFit_scan job vs))"

definition FirstFit_allocate :: "allocator \<Rightarrow> QueuedJobInfo \<Rightarrow> VmId option \<times> allocator" where
  "FirstFit_allocate st job =
     (case FirstFit_scan job (alloc_vms st) of
        Some (v, vs') \<Rightarrow> (Some v, st\<lparr>alloc_vms := vs', updatedVmIds := insert v (updatedVmIds st)\<rparr>)
      | None \<Rightarrow> (None, st))"

subsection \<open>Next fit\<close>

text \<open>
  The constructor initialises \<^verbatim>\<open>iter_\<close> with \<^verbatim>\<open>vms.begin()\<close> of the parameter it has just moved
  from, so the iterator does not point into \<^verbatim>\<open>vms_\<close>: \<open>Dangling\<close>. The moved-from vector holds no
  storage, so the iterator equals the end of \<^verbatim>\<open>vms_\<close> exactly when \<^verbatim>\<open>vms_\<close> holds none either,
  and dereferencing it is undefined behaviour (\<open>None\<close>).
\<close>

datatype iter = Dangling | At nat

record nextfit =
  nf_vms :: "ActiveVm list"
  nf_iter :: iter
  nf_updated :: "VmId set"

fun iter_eq :: "ActiveVm list \<Rightarrow> iter \<Rightarrow> iter \<Rightarrow> bool" where
  "iter_eq vs Dangling Dangling = True"
| "iter_eq vs Dangling (At i) = (vs = [])"
| "iter_eq vs (At i) Dangling = (vs = [])"
| "iter_eq vs (At i) (At j) = (i = j)"

fun deref :: "ActiveVm list \<Rightarrow> iter \<Rightarrow> ActiveVm option" where
  "deref vs Dangling = None"
| "deref vs (At i) = (if i < length vs then Some (vs ! i) else None)"

definition NextFit_init :: "ActiveVm list \<Rightarrow> nextfit" where
  "NextFit_init vs = \<lparr>nf_vms = vs, nf_iter = Dangling, nf_updated = {}\<rparr>"

definition NextFit_place :: "nextfit \<Rightarrow> QueuedJobInfo \<Rightarrow> ActiveVm \<Rightarrow> nextfit" where
  "NextFit_place st job vm =
     st\<lparr>nf_vms := (case nf_iter st of
                     At i \<Rightarrow> (nf_vms st)[i := takeCapacity job vm] | Dangling \<Rightarrow> nf_vms st),
        nf_updated := insert (avm_id vm) (nf_updated st)\<rparr>"

text \<open>
  Each of the two \<^verbatim>\<open>while\<close> loops, up to the iterator \<open>stop\<close>. Their bodies never advance
  \<^verbatim>\<open>iter_\<close>: on a VM the job does not fit, the loop runs forever.
\<close>

partial_function (option) NextFit_loop ::
    "iter \<Rightarrow> QueuedJobInfo \<Rightarrow> nextfit \<Rightarrow> (VmId option \<times> nextfit) option" where
  "NextFit_loop stop job st =
     (if iter_eq (nf_vms st) (nf_iter st) stop then Some (None, st)
      else case deref (nf_vms st) (nf_iter st) of
             None \<Rightarrow> None
           | Some vm \<Rightarrow>
               (if fits (requiredCapacity job) (idleCapacity vm)
                then Some (Some (avm_id vm), NextFit_place st job vm)
                else NextFit_loop stop job st))"

declare NextFit_loop.simps [code]

definition NextFit_allocate :: "nextfit \<Rightarrow> QueuedJobInfo \<Rightarrow> (VmId option \<times> nextfit) option" where
  "NextFit_allocate st job =
     (case NextFit_loop (At (length (nf_vms st))) job st of
        None \<Rightarrow> None
      | Some (Some v, st') \<Rightarrow> Some (Some v, st')
      | Some (None, st') \<Rightarrow> NextFit_loop (nf_iter st) job (st'\<lparr>nf_iter := At 0\<rparr>))"

subsection \<open>Worst fit and best fit\<close>

text \<open>\<^verbatim>\<open>std::multiset<ActiveVm, compareActiveVms>\<close>: the list of its elements in order.\<close>

definition compareActiveVms :: "ActiveVm \<Rightarrow> ActiveVm \<Rightarrow> bool" where
  "compareActiveVms lhs rhs \<longleftrightarrow> idleCapacity lhs < idleCapacity rhs"

definition WorstFit_init :: "ActiveVm list \<Rightarrow> allocator" where
  "WorstFit_init vs =
     \<lparr>alloc_vms = multiset_of_range compareActiveVms
               (std_sort (\<lambda>lhs rhs. idleCapacity rhs < idleCapacity lhs) vs),
      updatedVmIds = {}\<rparr>"

definition BestFit_init :: "ActiveVm list \<Rightarrow> allocator" where
  "BestFit_init vs =
     \<lparr>alloc_vms = multiset_of_range compareActiveVms
               (std_sort (\<lambda>lhs rhs. idleCapacity lhs < idleCapacity rhs) vs),
      updatedVmIds = {}\<rparr>"

text \<open>Erase the element at position \<open>i\<close>, insert it again with the capacity taken.\<close>

definition reinsert :: "allocator \<Rightarrow> nat \<Rightarrow> QueuedJobInfo \<Rightarrow> VmId option \<times> allocator" where
  "reinsert st i job =
     (let updatedActiveVm = takeCapacity job (alloc_vms st ! i)
      in (Some (avm_id updatedActiveVm),
          st\<lparr>alloc_vms := multiset_insert compareActiveVms updatedActiveVm
                        (take i (alloc_vms st) @ drop (Suc i) (alloc_vms st)),
             updatedVmIds := insert (avm_id updatedActiveVm) (updatedVmIds st)\<rparr>))"

definition WorstFit_allocate :: "allocator \<Rightarrow> QueuedJobInfo \<Rightarrow> VmId option \<times> allocator" where
  "WorstFit_allocate st job =
     (if alloc_vms st = [] then (None, st)
      else let i = length (alloc_vms st) - 1
           in if \<not> fits (requiredCapacity job) (idleCapacity (alloc_vms st ! i)) then (None, st)
              else reinsert st i job)"

definition BestFit_allocate :: "allocator \<Rightarrow> QueuedJobInfo \<Rightarrow> VmId option \<times> allocator" where
  "BestFit_allocate st job =
     (let i = lower_bound (\<lambda>vm. \<not> fits (requiredCapacity job) (idleCapacity vm)) (alloc_vms st)
      in if i = length (alloc_vms st) \<or> \<not> fits (requiredCapacity job) (idleCapacity (alloc_vms st ! i))
         then (None, st)
         else reinsert st i job)"

subsection \<open>The abstract class\<close>

datatype JobAllocator = FirstFit allocator | NextFit nextfit | WorstFit allocator | BestFit allocator

fun createJobAllocator :: "AllocationStrategy \<Rightarrow> ActiveVm list \<Rightarrow> JobAllocator" where
  "createJobAllocator FirstFitStrategy vs = FirstFit \<lparr>alloc_vms = vs, updatedVmIds = {}\<rparr>"
| "createJobAllocator NextFitStrategy vs = NextFit (NextFit_init vs)"
| "createJobAllocator WorstFitStrategy vs = WorstFit (WorstFit_init vs)"
| "createJobAllocator BestFitStrategy vs = BestFit (BestFit_init vs)"

fun JobAllocator_allocate :: "JobAllocator \<Rightarrow> QueuedJobInfo \<Rightarrow> (VmId option \<times> JobAllocator) option" where
  "JobAllocator_allocate (FirstFit st) job = Some (map_prod (\<lambda>v. v) FirstFit (FirstFit_allocate st job))"
| "JobAllocator_allocate (NextFit st) job = map_option (map_prod (\<lambda>v. v) NextFit) (NextFit_allocate st job)"
| "JobAllocator_allocate (WorstFit st) job = Some (map_prod (\<lambda>v. v) WorstFit (WorstFit_allocate st job))"
| "JobAllocator_allocate (BestFit st) job = Some (map_prod (\<lambda>v. v) BestFit (BestFit_allocate st job))"

fun JobAllocator_vms :: "JobAllocator \<Rightarrow> ActiveVm list" where
  "JobAllocator_vms (FirstFit st) = alloc_vms st"
| "JobAllocator_vms (NextFit st) = nf_vms st"
| "JobAllocator_vms (WorstFit st) = alloc_vms st"
| "JobAllocator_vms (BestFit st) = alloc_vms st"

fun JobAllocator_updated :: "JobAllocator \<Rightarrow> VmId set" where
  "JobAllocator_updated (FirstFit st) = updatedVmIds st"
| "JobAllocator_updated (NextFit st) = nf_updated st"
| "JobAllocator_updated (WorstFit st) = updatedVmIds st"
| "JobAllocator_updated (BestFit st) = updatedVmIds st"

text \<open>The two methods of each class, and the calls through the base class.\<close>

definition FirstFit_getVmsWithUpdatedCapacities :: "allocator \<Rightarrow> VmIdToCapacity" where
  "FirstFit_getVmsWithUpdatedCapacities st = getVmsWithUpdatedCapacities (alloc_vms st) (updatedVmIds st)"

definition FirstFit_getIdleVms :: "allocator \<Rightarrow> VmId list" where
  "FirstFit_getIdleVms st = getIdleVms (alloc_vms st)"

definition NextFit_getVmsWithUpdatedCapacities :: "nextfit \<Rightarrow> VmIdToCapacity" where
  "NextFit_getVmsWithUpdatedCapacities st = getVmsWithUpdatedCapacities (nf_vms st) (nf_updated st)"

definition NextFit_getIdleVms :: "nextfit \<Rightarrow> VmId list" where
  "NextFit_getIdleVms st = getIdleVms (nf_vms st)"

definition WorstFit_getVmsWithUpdatedCapacities :: "allocator \<Rightarrow> VmIdToCapacity" where
  "WorstFit_getVmsWithUpdatedCapacities st = getVmsWithUpdatedCapacities (alloc_vms st) (updatedVmIds st)"

definition WorstFit_getIdleVms :: "allocator \<Rightarrow> VmId list" where
  "WorstFit_getIdleVms st = getIdleVms (alloc_vms st)"

definition BestFit_getVmsWithUpdatedCapacities :: "allocator \<Rightarrow> VmIdToCapacity" where
  "BestFit_getVmsWithUpdatedCapacities st = getVmsWithUpdatedCapacities (alloc_vms st) (updatedVmIds st)"

definition BestFit_getIdleVms :: "allocator \<Rightarrow> VmId list" where
  "BestFit_getIdleVms st = getIdleVms (alloc_vms st)"

fun JobAllocator_getVmsWithUpdatedCapacities :: "JobAllocator \<Rightarrow> VmIdToCapacity" where
  "JobAllocator_getVmsWithUpdatedCapacities (FirstFit st) = FirstFit_getVmsWithUpdatedCapacities st"
| "JobAllocator_getVmsWithUpdatedCapacities (NextFit st) = NextFit_getVmsWithUpdatedCapacities st"
| "JobAllocator_getVmsWithUpdatedCapacities (WorstFit st) = WorstFit_getVmsWithUpdatedCapacities st"
| "JobAllocator_getVmsWithUpdatedCapacities (BestFit st) = BestFit_getVmsWithUpdatedCapacities st"

fun JobAllocator_getIdleVms :: "JobAllocator \<Rightarrow> VmId list" where
  "JobAllocator_getIdleVms (FirstFit st) = FirstFit_getIdleVms st"
| "JobAllocator_getIdleVms (NextFit st) = NextFit_getIdleVms st"
| "JobAllocator_getIdleVms (WorstFit st) = WorstFit_getIdleVms st"
| "JobAllocator_getIdleVms (BestFit st) = BestFit_getIdleVms st"

text \<open>They all are the two loops over the members.\<close>

lemma JobAllocator_get [simp]:
  "JobAllocator_getVmsWithUpdatedCapacities st = getVmsWithUpdatedCapacities (JobAllocator_vms st) (JobAllocator_updated st)"
  "JobAllocator_getIdleVms st = getIdleVms (JobAllocator_vms st)"
  by (cases st; simp add: FirstFit_getVmsWithUpdatedCapacities_def FirstFit_getIdleVms_def
      NextFit_getVmsWithUpdatedCapacities_def NextFit_getIdleVms_def WorstFit_getVmsWithUpdatedCapacities_def
      WorstFit_getIdleVms_def BestFit_getVmsWithUpdatedCapacities_def BestFit_getIdleVms_def)+

declare JobAllocator_getVmsWithUpdatedCapacities.simps [simp del] JobAllocator_getIdleVms.simps [simp del]

text \<open>
  The placement loop of \<^verbatim>\<open>ComplexVmAssigner::assign\<close>: the jobs in order, the assignments made
  and the jobs left over.
\<close>

fun assign_loop ::
    "('st \<Rightarrow> QueuedJobInfo \<Rightarrow> (VmId option \<times> 'st) option) \<Rightarrow> QueuedJobInfo list \<Rightarrow> 'st \<Rightarrow>
     JobToVm \<Rightarrow> QueuedJobInfo list \<Rightarrow> (JobToVm \<times> QueuedJobInfo list \<times> 'st) option" where
  "assign_loop allocate [] st m unallocated = Some (m, unallocated, st)"
| "assign_loop allocate (job # jobs) st m unallocated =
     (case allocate st job of
        None \<Rightarrow> None
      | Some (Some v, st') \<Rightarrow>
          assign_loop allocate jobs st' (umap_assign (qj_id job) (ExistingVm v) m) unallocated
      | Some (None, st') \<Rightarrow> assign_loop allocate jobs st' m (unallocated @ [job]))"

section \<open>VMs by identifier\<close>

definition vm_map :: "ActiveVm list \<Rightarrow> VmId \<Rightarrow> ActiveVm option" where
  "vm_map vs = map_of (map (\<lambda>vm. (avm_id vm, vm)) vs)"

abbreviation vm_ids :: "ActiveVm list \<Rightarrow> VmId list" where
  "vm_ids vs \<equiv> map avm_id vs"

lemma vm_map_SomeD: "vm_map vs v = Some vm \<Longrightarrow> vm \<in> set vs \<and> avm_id vm = v"
  by (auto simp: vm_map_def dest!: map_of_SomeD)

lemma vm_map_Some_iff: "distinct (vm_ids vs) \<Longrightarrow> vm_map vs v = Some vm \<longleftrightarrow> vm \<in> set vs \<and> avm_id vm = v"
  unfolding vm_map_def by (subst map_of_eq_Some_iff) (auto simp: comp_def)

lemma dom_vm_map: "dom (vm_map vs) = avm_id ` set vs"
  by (simp add: vm_map_def dom_map_of_conv_image_fst image_image)

lemma vm_map_mset: "distinct (vm_ids vs) \<Longrightarrow> mset ws = mset vs \<Longrightarrow> vm_map ws = vm_map vs"
  unfolding vm_map_def
  by (subst map_of_inject_set)
     (auto simp: comp_def distinct_map_mset [of ws vs] dest: mset_eq_setD)

lemma vm_map_replace:
  assumes dist: "distinct (vm_ids vs)" and "vm \<in> set vs" and same: "avm_id vm' = avm_id vm"
    and ws: "mset ws = mset vs - {#vm#} + {#vm'#}"
  shows "distinct (vm_ids ws)" and "vm_map ws = (vm_map vs)(avm_id vm \<mapsto> vm')"
proof -
  obtain as bs where vs: "vs = as @ vm # bs" using \<open>vm \<in> set vs\<close> by (meson split_list)
  have ws': "mset ws = mset (as @ vm' # bs)" using ws vs by simp
  have ids: "vm_ids (as @ vm' # bs) = vm_ids vs" using same vs by simp
  then have d': "distinct (vm_ids (as @ vm' # bs))" using dist by simp
  then show "distinct (vm_ids ws)"
    by (simp only: distinct_map_mset [OF ws'])
  have "vm_map ws = vm_map (as @ vm' # bs)" using d' ws' by (rule vm_map_mset)
  also have "\<dots> = (vm_map vs)(avm_id vm \<mapsto> vm')"
    using dist same vs by (auto simp: vm_map_def fun_eq_iff map_add_def split: option.splits)
       (auto dest!: map_of_SomeD)
  finally show "vm_map ws = (vm_map vs)(avm_id vm \<mapsto> vm')" .
qed

section \<open>The contract of an allocator\<close>

text \<open>
  What a client may rely on: an allocation returns; refusing a job changes nothing; placing it
  takes the job's requirement out of the idle capacity of one VM it fits, and records that VM.
\<close>

locale job_allocator =
  fixes allocate :: "'st \<Rightarrow> QueuedJobInfo \<Rightarrow> (VmId option \<times> 'st) option"
    and avms :: "'st \<Rightarrow> ActiveVm list"
    and updated :: "'st \<Rightarrow> VmId set"
    and invar :: "'st \<Rightarrow> bool"
  assumes returns: "invar st \<Longrightarrow> allocate st job \<noteq> None"
    and invar_allocate: "invar st \<Longrightarrow> allocate st job = Some (r, st') \<Longrightarrow> invar st'"
    and refuse: "invar st \<Longrightarrow> allocate st job = Some (None, st') \<Longrightarrow>
      avms st' = avms st \<and> updated st' = updated st"
    and place: "invar st \<Longrightarrow> allocate st job = Some (Some v, st') \<Longrightarrow>
      \<exists>vm \<in> set (avms st). avm_id vm = v \<and> fits (requiredCapacity job) (idleCapacity vm) \<and>
        mset (avms st') = mset (avms st) - {#vm#} + {#takeCapacity job vm#} \<and>
        updated st' = insert v (updated st)"

text \<open>
  \<open>placements\<close> lists which job went to which VM; \<open>conserves vs P vs'\<close> says that from \<open>vs\<close> to
  \<open>vs'\<close> every VM kept its identity and its total, and gave up exactly the requirements of the
  jobs \<open>P\<close> puts on it.
\<close>

type_synonym placements = "(QueuedJobInfo \<times> VmId) list"

definition jobs_on :: "VmId \<Rightarrow> placements \<Rightarrow> QueuedJobInfo list" where
  "jobs_on v P = map fst (filter (\<lambda>p. snd p = v) P)"

definition assignments_of :: "placements \<Rightarrow> JobToVm" where
  "assignments_of P = map (\<lambda>(j, v). (qj_id j, ExistingVm v)) P"

definition conserves :: "ActiveVm list \<Rightarrow> placements \<Rightarrow> ActiveVm list \<Rightarrow> bool" where
  "conserves vs P vs' \<longleftrightarrow> dom (vm_map vs') = dom (vm_map vs) \<and>
     (\<forall>v vm vm'. vm_map vs v = Some vm \<longrightarrow> vm_map vs' v = Some vm' \<longrightarrow>
        totalCapacity vm' = totalCapacity vm \<and>
        ncpu (idleCapacity vm) = ncpu (idleCapacity vm') + sum_cpu (jobs_on v P) \<and>
        nram (idleCapacity vm) = nram (idleCapacity vm') + sum_ram (jobs_on v P))"

lemma jobs_on_simps [simp]:
  "jobs_on v [] = []"
  "jobs_on v ((j, w) # P) = (if w = v then j # jobs_on v P else jobs_on v P)"
  by (simp_all add: jobs_on_def)

lemma conserves_Nil [simp]: "conserves vs [] vs"
  by (simp add: conserves_def)

lemma conserves_step:
  assumes upd: "vm_map vs1 = (vm_map vs)(v \<mapsto> takeCapacity job vm)" and vm: "vm_map vs v = Some vm"
    and fit: "fits (requiredCapacity job) (idleCapacity vm)" and ok: "cap_ok (idleCapacity vm)"
    and rest: "conserves vs1 P vs'"
  shows "conserves vs ((job, v) # P) vs'"
proof -
  have "cap_ok (requiredCapacity job)" using fit ok by (rule cap_ok_fits)
  then have take:
      "ncpu (idleCapacity vm) = ncpu (idleCapacity (takeCapacity job vm)) + req_cpu job"
      "nram (idleCapacity vm) = nram (idleCapacity (takeCapacity job vm)) + req_ram job"
    using fit ok by (simp_all add: takeCapacity_def slot_minus_nat fits_nat)
  have tot: "totalCapacity (takeCapacity job vm) = totalCapacity vm"
    by (simp add: takeCapacity_def)
  have dom: "dom (vm_map vs1) = dom (vm_map vs)" using upd vm by auto
  show ?thesis
    unfolding conserves_def
  proof (intro conjI allI impI)
    show "dom (vm_map vs') = dom (vm_map vs)" using rest dom by (simp add: conserves_def)
  next
    fix w a a'
    assume a: "vm_map vs w = Some a" and a': "vm_map vs' w = Some a'"
    obtain b where b: "vm_map vs1 w = Some b" and
      ab: "b = (if w = v then takeCapacity job vm else a)" using upd a by auto
    note r = rest [unfolded conserves_def, THEN conjunct2, rule_format, OF b a']
    from r ab a vm tot show "totalCapacity a' = totalCapacity a" by (auto split: if_splits)
    from r ab a vm take show "ncpu (idleCapacity a) = ncpu (idleCapacity a') + sum_cpu (jobs_on w ((job, v) # P))"
      by (auto split: if_splits)
    from r ab a vm take show "nram (idleCapacity a) = nram (idleCapacity a') + sum_ram (jobs_on w ((job, v) # P))"
      by (auto split: if_splits)
  qed
qed

context job_allocator
begin

text \<open>A placed job, seen from the loop.\<close>

lemma place_step:
  assumes inv: "invar st" and dist: "distinct (vm_ids (avms st))" and ok: "\<forall>vm \<in> set (avms st). cap_ok (idleCapacity vm)"
    and al: "allocate st job = Some (Some v, st1)"
  shows "distinct (vm_ids (avms st1))" and "avm_id ` set (avms st1) = avm_id ` set (avms st)" and "v \<in> avm_id ` set (avms st)"
    and "\<forall>vm \<in> set (avms st1). cap_ok (idleCapacity vm)" and "updated st1 = insert v (updated st)"
    and "conserves (avms st1) P vs \<Longrightarrow> conserves (avms st) ((job, v) # P) vs"
proof -
  obtain vm where vm: "vm \<in> set (avms st)" "avm_id vm = v"
    and fit: "fits (requiredCapacity job) (idleCapacity vm)"
    and ms: "mset (avms st1) = mset (avms st) - {#vm#} + {#takeCapacity job vm#}"
    and upd: "updated st1 = insert v (updated st)"
    using place inv al by blast
  have id: "avm_id (takeCapacity job vm) = avm_id vm" by (simp add: takeCapacity_def)
  note repl = vm_map_replace [OF dist vm(1) id ms]
  have cap: "cap_ok (idleCapacity vm)" using ok vm(1) by blast
  then have "cap_ok (idleCapacity (takeCapacity job vm))" using cap_ok_fits [OF fit cap] by (simp add: takeCapacity_def)
  then show "\<forall>vm \<in> set (avms st1). cap_ok (idleCapacity vm)"
    using ok ms by (metis add_mset_add_single in_diffD insertE set_mset_add_mset_insert set_mset_mset)
  show "avm_id ` set (avms st1) = avm_id ` set (avms st)"
    using repl(2) vm by (metis dom_vm_map dom_fun_upd image_eqI insert_absorb option.distinct(1))
  have "vm_map (avms st) v = Some vm" using vm vm_map_Some_iff [OF dist] by blast
  then show "conserves (avms st1) P vs \<Longrightarrow> conserves (avms st) ((job, v) # P) vs"
    using conserves_step [OF _ _ fit cap] repl(2) vm(2) by blast
  show "distinct (vm_ids (avms st1))" "v \<in> avm_id ` set (avms st)" "updated st1 = insert v (updated st)"
    using repl(1) vm upd by auto
qed

text \<open>
  The bookkeeping of the placement loop, for any strategy that meets the contract: it returns,
  every job is either placed or left over, and no VM gives away more than it has idle.
\<close>

lemma assign_loop_conserves:
  assumes "invar st" and "distinct (vm_ids (avms st))" and "distinct (map qj_id jobs)"
    and "qj_id ` set jobs \<inter> fst ` set m = {}"
    and "\<forall>vm \<in> set (avms st). cap_ok (idleCapacity vm)"
  shows "\<exists>P rest st'. assign_loop allocate jobs st m u = Some (m @ assignments_of P, u @ rest, st') \<and>
     mset jobs = mset (map fst P) + mset rest \<and> conserves (avms st) P (avms st') \<and>
     distinct (vm_ids (avms st')) \<and> invar st' \<and> updated st' = updated st \<union> snd ` set P \<and>
     snd ` set P \<subseteq> avm_id ` set (avms st)"
  using assms
proof (induction jobs arbitrary: st m u)
  case Nil
  show ?case
    by (rule exI [of _ "[]"], rule exI [of _ "[]"], rule exI [of _ st])
       (use Nil in \<open>simp add: assignments_of_def\<close>)
next
  case (Cons job jobs)
  obtain r st1 where al: "allocate st job = Some (r, st1)"
    using returns [OF Cons.prems(1), of job] by auto
  have inv1: "invar st1" using invar_allocate Cons.prems(1) al .
  show ?case
  proof (cases r)
    case None
    then have st1: "avms st1 = avms st" "updated st1 = updated st"
      using refuse [OF Cons.prems(1)] al by auto
    obtain P rest st' where IH: "assign_loop allocate jobs st1 m (u @ [job]) =
        Some (m @ assignments_of P, (u @ [job]) @ rest, st')"
      and "mset jobs = mset (map fst P) + mset rest" "conserves (avms st) P (avms st')"
      "distinct (vm_ids (avms st'))" "invar st'" "updated st' = updated st \<union> snd ` set P"
      "snd ` set P \<subseteq> avm_id ` set (avms st)"
      using Cons.IH [OF inv1, of m "u @ [job]"] Cons.prems st1 by auto
    then show ?thesis
      using al None st1 by (intro exI [of _ P] exI [of _ "job # rest"] exI [of _ st']) auto
  next
    case (Some v)
    note step = place_step [OF Cons.prems(1,2,5) al [unfolded Some]]
    let ?m = "umap_assign (qj_id job) (ExistingVm v) m"
    have m': "?m = m @ [(qj_id job, ExistingVm v)]"
      using Cons.prems(4) by (intro umap_assign_new) auto
    obtain P rest st' where IH: "assign_loop allocate jobs st1 ?m u =
        Some (?m @ assignments_of P, u @ rest, st')"
      and rest: "mset jobs = mset (map fst P) + mset rest" "conserves (avms st1) P (avms st')"
      "distinct (vm_ids (avms st'))" "invar st'" "updated st' = updated st1 \<union> snd ` set P"
      "snd ` set P \<subseteq> avm_id ` set (avms st1)"
      using Cons.IH [OF inv1 step(1), of ?m u] Cons.prems step(4) m' by auto
    then show ?thesis
      using al Some step(2,3,5) step(6) [OF rest(2)] m'
      by (intro exI [of _ "(job, v) # P"] exI [of _ rest] exI [of _ st'])
         (auto simp: assignments_of_def)
  qed
qed

end

section \<open>The strategies meet the contract\<close>

lemma FirstFit_scan_place:
  "FirstFit_scan job vs = Some (v, vs') \<Longrightarrow>
   \<exists>vm \<in> set vs. avm_id vm = v \<and> fits (requiredCapacity job) (idleCapacity vm) \<and>
     mset vs' = mset vs - {#vm#} + {#takeCapacity job vm#}"
proof (induction vs arbitrary: vs')
  case (Cons w ws)
  show ?case
  proof (cases "fits (requiredCapacity job) (idleCapacity w)")
    case True
    with Cons.prems show ?thesis by auto
  next
    case False
    with Cons.prems obtain ws' where sc: "FirstFit_scan job ws = Some (v, ws')" and vs': "vs' = w # ws'"
      by auto
    from Cons.IH [OF sc] obtain vm where vm: "vm \<in> set ws" "avm_id vm = v"
      "fits (requiredCapacity job) (idleCapacity vm)"
      "mset ws' = mset ws - {#vm#} + {#takeCapacity job vm#}" by blast
    then have "mset vs' = mset (w # ws) - {#vm#} + {#takeCapacity job vm#}"
      using vs' by simp
    with vm show ?thesis by auto
  qed
qed simp

lemma FirstFit_scan_None: "FirstFit_scan job vs = None \<longleftrightarrow>
    (\<forall>vm \<in> set vs. \<not> fits (requiredCapacity job) (idleCapacity vm))"
  by (induction vs) auto

lemma reinsert_place:
  assumes "i < length (alloc_vms st)" and "fits (requiredCapacity job) (idleCapacity (alloc_vms st ! i))"
    and "reinsert st i job = (r, st')"
  shows "\<exists>vm \<in> set (alloc_vms st). r = Some (avm_id vm) \<and> fits (requiredCapacity job) (idleCapacity vm) \<and>
     mset (alloc_vms st') = mset (alloc_vms st) - {#vm#} + {#takeCapacity job vm#} \<and>
     updatedVmIds st' = insert (avm_id vm) (updatedVmIds st)"
proof (rule bexI [of _ "alloc_vms st ! i"])
  show "r = Some (avm_id (alloc_vms st ! i)) \<and>
      fits (requiredCapacity job) (idleCapacity (alloc_vms st ! i)) \<and>
      mset (alloc_vms st') = mset (alloc_vms st) - {#alloc_vms st ! i#} + {#takeCapacity job (alloc_vms st ! i)#} \<and>
      updatedVmIds st' = insert (avm_id (alloc_vms st ! i)) (updatedVmIds st)"
    using assms mset_remove_at [OF assms(1)]
    by (auto simp: reinsert_def Let_def takeCapacity_def)
qed (use assms(1) in simp)

lemma reinsert_Some: "reinsert st i job \<noteq> (None, st')"
  by (simp add: reinsert_def Let_def)

lemma compareActiveVms_strict_weak [simp]: "strict_weak compareActiveVms"
proof -
  have "compareActiveVms = (\<lambda>x y. idleCapacity x < idleCapacity y)"
    by (simp add: fun_eq_iff compareActiveVms_def)
  then show ?thesis by (metis strict_weak_key(1))
qed

lemma ascends_reinsert:
  "ascends compareActiveVms (alloc_vms st) \<Longrightarrow> reinsert st i job = (r, st') \<Longrightarrow>
   ascends compareActiveVms (alloc_vms st')"
  by (auto simp add: reinsert_def Let_def ascends_multiset_insert sorted_wrt_remove_at)

interpretation first_fit: job_allocator
  "\<lambda>st job. Some (FirstFit_allocate st job)" alloc_vms updatedVmIds "\<lambda>_. True"
proof
  fix st st' :: allocator and job v
  show "Some (FirstFit_allocate st job) = Some (None, st') \<Longrightarrow>
      alloc_vms st' = alloc_vms st \<and> updatedVmIds st' = updatedVmIds st"
    by (auto simp: FirstFit_allocate_def split: option.splits)
  show "Some (FirstFit_allocate st job) = Some (Some v, st') \<Longrightarrow>
      \<exists>vm\<in>set (alloc_vms st). avm_id vm = v \<and> fits (requiredCapacity job) (idleCapacity vm) \<and>
        mset (alloc_vms st') = mset (alloc_vms st) - {#vm#} + {#takeCapacity job vm#} \<and>
        updatedVmIds st' = insert v (updatedVmIds st)"
    using FirstFit_scan_place by (auto simp: FirstFit_allocate_def split: option.splits)
qed auto

interpretation worst_fit: job_allocator
  "\<lambda>st job. Some (WorstFit_allocate st job)" alloc_vms updatedVmIds "\<lambda>st. ascends compareActiveVms (alloc_vms st)"
proof
  fix st st' :: allocator and job r v
  assume inv: "ascends compareActiveVms (alloc_vms st)"
  show "Some (WorstFit_allocate st job) = Some (r, st') \<Longrightarrow> ascends compareActiveVms (alloc_vms st')"
    using inv by (auto simp: WorstFit_allocate_def Let_def split: if_splits intro: ascends_reinsert)
  show "Some (WorstFit_allocate st job) = Some (None, st') \<Longrightarrow>
      alloc_vms st' = alloc_vms st \<and> updatedVmIds st' = updatedVmIds st"
    by (auto simp: WorstFit_allocate_def Let_def reinsert_Some split: if_splits)
  show "Some (WorstFit_allocate st job) = Some (Some v, st') \<Longrightarrow>
      \<exists>vm\<in>set (alloc_vms st). avm_id vm = v \<and> fits (requiredCapacity job) (idleCapacity vm) \<and>
        mset (alloc_vms st') = mset (alloc_vms st) - {#vm#} + {#takeCapacity job vm#} \<and>
        updatedVmIds st' = insert v (updatedVmIds st)"
    using reinsert_place [of "length (alloc_vms st) - 1" st job "Some v" st']
    by (auto simp: WorstFit_allocate_def Let_def split: if_splits)
qed auto

interpretation best_fit: job_allocator
  "\<lambda>st job. Some (BestFit_allocate st job)" alloc_vms updatedVmIds "\<lambda>st. ascends compareActiveVms (alloc_vms st)"
proof
  fix st st' :: allocator and job r v
  assume inv: "ascends compareActiveVms (alloc_vms st)"
  show "Some (BestFit_allocate st job) = Some (r, st') \<Longrightarrow> ascends compareActiveVms (alloc_vms st')"
    using inv by (auto simp: BestFit_allocate_def Let_def split: if_splits intro: ascends_reinsert)
  show "Some (BestFit_allocate st job) = Some (None, st') \<Longrightarrow>
      alloc_vms st' = alloc_vms st \<and> updatedVmIds st' = updatedVmIds st"
    by (auto simp: BestFit_allocate_def Let_def reinsert_Some split: if_splits)
  show "Some (BestFit_allocate st job) = Some (Some v, st') \<Longrightarrow>
      \<exists>vm\<in>set (alloc_vms st). avm_id vm = v \<and> fits (requiredCapacity job) (idleCapacity vm) \<and>
        mset (alloc_vms st') = mset (alloc_vms st) - {#vm#} + {#takeCapacity job vm#} \<and>
        updatedVmIds st' = insert v (updatedVmIds st)"
    using lower_bound_le [of "\<lambda>vm. \<not> fits (requiredCapacity job) (idleCapacity vm)" "alloc_vms st"]
      reinsert_place [of "lower_bound (\<lambda>vm. \<not> fits (requiredCapacity job) (idleCapacity vm)) (alloc_vms st)"
        st job "Some v" st']
    by (auto simp: BestFit_allocate_def Let_def split: if_splits)
qed auto

text \<open>The class behind the interface: all strategies but a next fit that has VMs to look at.\<close>

fun JobAllocator_invar :: "JobAllocator \<Rightarrow> bool" where
  "JobAllocator_invar (FirstFit st) = True"
| "JobAllocator_invar (NextFit st) = (nf_vms st = [] \<and> (nf_iter st = Dangling \<or> nf_iter st = At 0))"
| "JobAllocator_invar (WorstFit st) = ascends compareActiveVms (alloc_vms st)"
| "JobAllocator_invar (BestFit st) = ascends compareActiveVms (alloc_vms st)"

lemma NextFit_allocate_empty:
  assumes "nf_vms st = []" and "nf_iter st = Dangling \<or> nf_iter st = At 0"
  shows "NextFit_allocate st job = Some (None, st\<lparr>nf_iter := At 0\<rparr>)"
  using assms by (auto simp: NextFit_allocate_def NextFit_loop.simps)

text \<open>An allocation of the class is one of the strategy behind it.\<close>

lemma JobAllocator_allocate_cases:
  assumes "JobAllocator_invar st" and "JobAllocator_allocate st job = Some (r, st')"
  obtains (first) a a' where "st = FirstFit a" "st' = FirstFit a'" "FirstFit_allocate a job = (r, a')"
  | (next_empty) n n' where "st = NextFit n" "st' = NextFit n'" "r = None" "nf_vms n = []"
      "n' = n\<lparr>nf_iter := At 0\<rparr>"
  | (worst) a a' where "st = WorstFit a" "st' = WorstFit a'" "WorstFit_allocate a job = (r, a')"
      "ascends compareActiveVms (alloc_vms a)"
  | (best) a a' where "st = BestFit a" "st' = BestFit a'" "BestFit_allocate a job = (r, a')"
      "ascends compareActiveVms (alloc_vms a)"
proof (cases st)
  case (FirstFit a)
  with assms that(1) show thesis by (cases "FirstFit_allocate a job") auto
next
  case (NextFit n)
  with assms that(2) show thesis by (auto simp: NextFit_allocate_empty)
next
  case (WorstFit a)
  with assms that(3) show thesis by (cases "WorstFit_allocate a job") auto
next
  case (BestFit a)
  with assms that(4) show thesis by (cases "BestFit_allocate a job") auto
qed

interpretation strategy: job_allocator
  JobAllocator_allocate JobAllocator_vms JobAllocator_updated JobAllocator_invar
proof
  fix st st' :: JobAllocator and job r v
  assume inv: "JobAllocator_invar st"
  show "JobAllocator_allocate st job \<noteq> None"
    using inv by (cases st) (auto simp: NextFit_allocate_empty)
  show "JobAllocator_invar st'" if "JobAllocator_allocate st job = Some (r, st')"
    using inv that
  proof (cases rule: JobAllocator_allocate_cases)
    case (worst a a')
    with worst_fit.invar_allocate [of a job r a'] show ?thesis by simp
  next
    case (best a a')
    with best_fit.invar_allocate [of a job r a'] show ?thesis by simp
  qed simp_all
  show "JobAllocator_vms st' = JobAllocator_vms st \<and> JobAllocator_updated st' = JobAllocator_updated st"
    if "JobAllocator_allocate st job = Some (None, st')"
    using inv that
  proof (cases rule: JobAllocator_allocate_cases)
    case (first a a')
    with first_fit.refuse [of a job a'] show ?thesis by simp
  next
    case (worst a a')
    with worst_fit.refuse [of a job a'] show ?thesis by simp
  next
    case (best a a')
    with best_fit.refuse [of a job a'] show ?thesis by simp
  qed simp
  show "\<exists>vm\<in>set (JobAllocator_vms st). avm_id vm = v \<and> fits (requiredCapacity job) (idleCapacity vm) \<and>
        mset (JobAllocator_vms st') = mset (JobAllocator_vms st) - {#vm#} + {#takeCapacity job vm#} \<and>
        JobAllocator_updated st' = insert v (JobAllocator_updated st)"
    if "JobAllocator_allocate st job = Some (Some v, st')"
    using inv that
  proof (cases rule: JobAllocator_allocate_cases)
    case (first a a')
    with first_fit.place [of a job v a'] show ?thesis by simp
  next
    case (worst a a')
    with worst_fit.place [of a job v a'] show ?thesis by simp
  next
    case (best a a')
    with best_fit.place [of a job v a'] show ?thesis by simp
  qed simp
qed

section \<open>Reading the allocator after the loop\<close>

lemma map_of_updated:
  assumes "distinct (vm_ids vs)"
  shows "map_of (getVmsWithUpdatedCapacities vs upd) v =
     (if v \<in> upd then map_option idleCapacity (vm_map vs v) else None)"
proof -
  define f where "f = (\<lambda>(vm :: ActiveVm) m. if avm_id vm \<in> upd then umap_emplace (avm_id vm) (idleCapacity vm) m else m)"
  have "distinct (vm_ids vs) \<Longrightarrow> avm_id ` set vs \<inter> fst ` set m = {} \<Longrightarrow>
      map_of (fold f vs m) v = (case map_of m v of Some c \<Rightarrow> Some c
        | None \<Rightarrow> if v \<in> upd then map_option idleCapacity (vm_map vs v) else None)" for m
  proof (induction vs arbitrary: m)
    case Nil
    then show ?case by (simp add: vm_map_def split: option.splits)
  next
    case (Cons w ws)
    have ws: "avm_id ` set ws \<inter> fst ` set (f w m) = {}"
      using Cons.prems by (auto simp: f_def)
    have w: "map_of m (avm_id w) = None" using Cons.prems(2) by (auto simp: map_of_eq_None_iff)
    have "map_of (f w m) = (if avm_id w \<in> upd then (map_of m)(avm_id w \<mapsto> idleCapacity w) else map_of m)"
      using Cons.prems(2) by (auto simp: f_def map_of_umap_emplace)
    moreover have "vm_map (w # ws) = (vm_map ws)(avm_id w \<mapsto> w)"
      by (simp add: vm_map_def)
    moreover have "vm_map ws (avm_id w) = None"
      using Cons.prems(1) dom_vm_map [of ws] by auto
    ultimately show ?case
      using Cons.IH [OF _ ws] Cons.prems(1) w by (auto split: option.splits)
  qed
  from this [OF assms, of "[]"] show ?thesis
    by (simp add: getVmsWithUpdatedCapacities_def f_def)
qed

lemma set_getIdleVms: "set (getIdleVms vs) = avm_id ` {vm \<in> set vs. totalCapacity vm = idleCapacity vm}"
  by (auto simp: getIdleVms_def)

section \<open>What each strategy chooses\<close>

text \<open>
  C22. First fit places a job on the first VM, in the order of the list, whose idle capacity it
  fits, and refuses it exactly when it fits none.
\<close>

theorem FirstFit_first:
  "FirstFit_allocate st job =
     (case find (\<lambda>vm. fits (requiredCapacity job) (idleCapacity vm)) (alloc_vms st) of
        None \<Rightarrow> (None, st)
      | Some vm \<Rightarrow>
          (Some (avm_id vm),
           st\<lparr>alloc_vms := takeWhile (\<lambda>w. \<not> fits (requiredCapacity job) (idleCapacity w)) (alloc_vms st)
                @ takeCapacity job vm
                # tl (dropWhile (\<lambda>w. \<not> fits (requiredCapacity job) (idleCapacity w)) (alloc_vms st)),
              updatedVmIds := insert (avm_id vm) (updatedVmIds st)\<rparr>))"
proof -
  have "FirstFit_scan job vs =
      (case find (\<lambda>vm. fits (requiredCapacity job) (idleCapacity vm)) vs of
         None \<Rightarrow> None
       | Some vm \<Rightarrow> Some (avm_id vm,
           takeWhile (\<lambda>w. \<not> fits (requiredCapacity job) (idleCapacity w)) vs @ takeCapacity job vm
             # tl (dropWhile (\<lambda>w. \<not> fits (requiredCapacity job) (idleCapacity w)) vs)))" for vs
    by (induction vs) (auto split: option.splits)
  then show ?thesis by (auto simp: FirstFit_allocate_def split: option.splits)
qed

lemma ascends_last:
  assumes "ascends compareActiveVms vs" and "vm \<in> set vs"
  shows "idleCapacity vm \<le> idleCapacity (last vs)"
proof -
  have ne: "vs \<noteq> []" using assms(2) by auto
  then have split: "vs = butlast vs @ [last vs]" by simp
  then have "vm \<in> set (butlast vs) \<or> vm = last vs"
    using assms(2) by (metis UnE empty_iff empty_set list.set_intros(1) set_ConsD set_append)
  moreover have "ascends compareActiveVms (butlast vs @ [last vs])" using assms(1) ne by simp
  ultimately show ?thesis
    by (auto simp: sorted_wrt_append compareActiveVms_def not_less)
qed

text \<open>
  Worst fit looks at one VM only, one whose idle capacity is the largest of all in the
  lexicographic order: it places the job there, or refuses it when it does not fit there.
\<close>

lemma WorstFit_largest:
  assumes "ascends compareActiveVms (alloc_vms st)" and "alloc_vms st \<noteq> []"
  shows "(\<forall>vm \<in> set (alloc_vms st). idleCapacity vm \<le> idleCapacity (last (alloc_vms st))) \<and>
     fst (WorstFit_allocate st job) =
       (if fits (requiredCapacity job) (idleCapacity (last (alloc_vms st)))
        then Some (avm_id (last (alloc_vms st))) else None)"
  using assms ascends_last [OF assms(1)]
  by (simp add: WorstFit_allocate_def reinsert_def Let_def last_conv_nth takeCapacity_def)

text \<open>Worst fit can therefore refuse a job that another VM has room for.\<close>

definition mk_job :: "JobId \<Rightarrow> nat \<Rightarrow> nat \<Rightarrow> QueuedJobInfo" where
  "mk_job i c r = \<lparr>qj_id = i, requiredCapacity = SlotCapacity (of_nat c) (of_nat r)\<rparr>"

definition mk_vm :: "VmId \<Rightarrow> nat \<Rightarrow> nat \<Rightarrow> ActiveVm" where
  "mk_vm i c r = \<lparr>avm_id = i, totalCapacity = SlotCapacity (of_nat c) (of_nat r),
                  idleCapacity = SlotCapacity (of_nat c) (of_nat r)\<rparr>"

lemmas mk_defs = mk_job_def mk_vm_def

lemma chain_partitioned:
  assumes asc: "ascends compareActiveVms vs"
    and chain: "\<forall>a \<in> set vs. \<forall>b \<in> set vs. fits (idleCapacity a) (idleCapacity b) \<or> fits (idleCapacity b) (idleCapacity a)"
    and "i < j" "j < length vs"
  shows "fits (idleCapacity (vs ! i)) (idleCapacity (vs ! j))"
proof -
  have le: "idleCapacity (vs ! i) \<le> idleCapacity (vs ! j)"
    using asc assms(3,4) by (auto simp: sorted_wrt_iff_nth_less compareActiveVms_def not_less)
  have "vs ! i \<in> set vs" "vs ! j \<in> set vs" using assms(3,4) by auto
  with chain have "fits (idleCapacity (vs ! i)) (idleCapacity (vs ! j)) \<or>
      fits (idleCapacity (vs ! j)) (idleCapacity (vs ! i))" by blast
  with le show ?thesis using fits_imp_le by (metis fits_refl order_antisym)
qed

lemma BestFit_allocate_alt:
  "BestFit_allocate st job =
     (let i = lower_bound (\<lambda>vm. \<not> fits (requiredCapacity job) (idleCapacity vm)) (alloc_vms st)
      in if i = length (alloc_vms st) then (None, st) else reinsert st i job)"
  using lower_bound_hit [of "\<lambda>vm. \<not> fits (requiredCapacity job) (idleCapacity vm)" "alloc_vms st"]
    lower_bound_le [of "\<lambda>vm. \<not> fits (requiredCapacity job) (idleCapacity vm)" "alloc_vms st"]
  by (auto simp: BestFit_allocate_def Let_def)

text \<open>
  C13. When the idle capacities of the VMs are comparable by \<^verbatim>\<open>fits\<close>, best fit takes the smallest
  one that the job fits, and refuses the job exactly when it fits none.
\<close>

theorem BestFit_smallest:
  assumes asc: "ascends compareActiveVms (alloc_vms st)"
    and chain: "\<forall>a \<in> set (alloc_vms st). \<forall>b \<in> set (alloc_vms st).
       fits (idleCapacity a) (idleCapacity b) \<or> fits (idleCapacity b) (idleCapacity a)"
  shows "case fst (BestFit_allocate st job) of
     None \<Rightarrow> \<forall>vm \<in> set (alloc_vms st). \<not> fits (requiredCapacity job) (idleCapacity vm)
   | Some v \<Rightarrow> \<exists>vm \<in> set (alloc_vms st). avm_id vm = v \<and> fits (requiredCapacity job) (idleCapacity vm) \<and>
       (\<forall>w \<in> set (alloc_vms st). fits (requiredCapacity job) (idleCapacity w) \<longrightarrow> idleCapacity vm \<le> idleCapacity w)"
proof -
  let ?vs = "alloc_vms st" and ?p = "\<lambda>vm. \<not> fits (requiredCapacity job) (idleCapacity vm)"
  let ?i = "lower_bound ?p ?vs"
  have below: "?p (?vs ! k)" if "k < ?i" for k
  proof (rule lower_bound_partitioned [OF _ that])
    show "?p (?vs ! a)" if "a < b" "b < length ?vs" "?p (?vs ! b)" for a b
      using chain_partitioned [OF asc chain that(1,2)] that(3) fits_trans by blast
  qed
  show ?thesis
  proof (cases "?i = length ?vs")
    case True
    then have "\<forall>vm \<in> set ?vs. ?p vm" using below by (metis in_set_conv_nth)
    with True show ?thesis by (simp add: BestFit_allocate_alt)
  next
    case False
    then have i: "?i < length ?vs" using lower_bound_le [of ?p ?vs] by linarith
    have "idleCapacity (?vs ! ?i) \<le> idleCapacity w"
      if w: "w \<in> set ?vs" "fits (requiredCapacity job) (idleCapacity w)" for w
    proof -
      obtain k where k: "k < length ?vs" "w = ?vs ! k" using w(1) by (metis in_set_conv_nth)
      with below w(2) have "?i \<le> k" using not_less by blast
      with k chain_partitioned [OF asc chain, of ?i k] show ?thesis
        by (cases "?i = k") (auto intro: fits_imp_le)
    qed
    with i False lower_bound_hit [OF i] show ?thesis
      by (auto simp: BestFit_allocate_alt Let_def reinsert_def takeCapacity_def)
  qed
qed

definition ex_best :: allocator where
  "ex_best = BestFit_init [mk_vm 3 4 8, mk_vm 1 1 2, mk_vm 2 2 4]"

theorem BestFit_smallest_witness:
  "fst (BestFit_allocate ex_best (mk_job 7 2 2)) = Some 2 \<and>
   (\<exists>vm \<in> set (alloc_vms ex_best). avm_id vm = 2 \<and> fits (SlotCapacity 2 2) (idleCapacity vm))"
proof -
  have vs: "alloc_vms ex_best = [mk_vm 1 1 2, mk_vm 2 2 4, mk_vm 3 4 8]"
    and hit: "fst (BestFit_allocate ex_best (mk_job 7 2 2)) = Some 2" by code_simp+
  have "ascends compareActiveVms (alloc_vms ex_best)" unfolding vs by code_simp
  moreover have "\<forall>a \<in> set (alloc_vms ex_best). \<forall>b \<in> set (alloc_vms ex_best).
       fits (idleCapacity a) (idleCapacity b) \<or> fits (idleCapacity b) (idleCapacity a)"
    unfolding vs by code_simp
  ultimately show ?thesis using BestFit_smallest [of ex_best "mk_job 7 2 2"] hit by (auto simp: mk_job_def)
qed

lemma NextFit_loop_diverges:
  assumes "\<not> iter_eq (nf_vms st) (nf_iter st) stop" and "deref (nf_vms st) (nf_iter st) = Some vm"
    and "\<not> fits (requiredCapacity job) (idleCapacity vm)"
  shows "NextFit_loop stop job st = None"
proof (rule ccontr)
  assume "NextFit_loop stop job st \<noteq> None"
  then obtain r where r: "NextFit_loop stop job st = Some r" by blast
  have "\<not> (\<not> iter_eq (nf_vms st) (nf_iter st) stop \<and> deref (nf_vms st) (nf_iter st) = Some vm \<and>
      \<not> fits (requiredCapacity job) (idleCapacity vm))"
    by (rule NextFit_loop.raw_induct [OF _ r, of "\<lambda>stop job st r. \<not> (\<not> iter_eq (nf_vms st) (nf_iter st) stop \<and>
          deref (nf_vms st) (nf_iter st) = Some vm \<and> \<not> fits (requiredCapacity job) (idleCapacity vm))"])
       (auto split: if_splits; blast)
  with assms show False by blast
qed

text \<open>
  A next fit whose iterator points to a VM only ever looks at that one; one that points nowhere is
  dereferenced as soon as there is a VM.
\<close>

lemma NextFit_allocate_at:
  assumes "i < length (nf_vms st)" and "nf_iter st = At i"
  shows "NextFit_allocate st job =
    (if fits (requiredCapacity job) (idleCapacity (nf_vms st ! i))
     then Some (Some (avm_id (nf_vms st ! i)), NextFit_place st job (nf_vms st ! i)) else None)"
proof (cases "fits (requiredCapacity job) (idleCapacity (nf_vms st ! i))")
  case False
  then have "NextFit_loop (At (length (nf_vms st))) job st = None"
    using assms by (intro NextFit_loop_diverges [where vm = "nf_vms st ! i"]) simp_all
  with False show ?thesis by (simp add: NextFit_allocate_def)
qed (use assms in \<open>simp add: NextFit_allocate_def NextFit_loop.simps\<close>)

lemma NextFit_allocate_init: "vs \<noteq> [] \<Longrightarrow> NextFit_allocate (NextFit_init vs) job = None"
  by (simp add: NextFit_allocate_def NextFit_init_def NextFit_loop.simps)

end
