(* ===== verification/SlotSelector.thy ===== *)
theory SlotSelector
  imports JobAllocator
begin

text \<open>
  Choosing the VMs to create for the jobs that no existing VM takes
  (\<^verbatim>\<open>libs/scheduler/impl/vm_slot_selector.cpp\<close>). The \<^verbatim>\<open>std::list\<close> of desired slots is a list of
  numbered nodes and an iterator is the number of its node; the \<^verbatim>\<open>unordered_multimap\<close> from sizes
  to iterators is a list of pairs. Dereferencing an end iterator is \<open>None\<close>. The lemmas show that
  the index always matches the list, that the selection returns, and what it returns.
\<close>

section \<open>State and operations\<close>

type_synonym node = "nat \<times> DesiredSlot \<times> JobId list"

record slots =
  nodes :: "node list"
  index :: "(SlotCapacity \<times> nat) list"
  next_node :: nat

definition empty_slots :: slots where
  "empty_slots = \<lparr>nodes = [], index = [], next_node = 0\<rparr>"

definition getMinFitSlot :: "SlotCapacity list \<Rightarrow> SlotCapacity \<Rightarrow> SlotCapacity option" where
  "getMinFitSlot possibleSlots slot =
     (let i = lower_bound (\<lambda>lhs. \<not> fits slot lhs) possibleSlots
      in if possibleSlots = [] then None
         else if i = length possibleSlots then Some (last possibleSlots)
         else Some (possibleSlots ! i))"

text \<open>The scan for the fitting slot with the smallest idle capacity; the first one on a tie.\<close>

fun best_slot :: "SlotCapacity \<Rightarrow> node list \<Rightarrow> (nat \<times> DesiredSlot) option \<Rightarrow> (nat \<times> DesiredSlot) option" where
  "best_slot req [] best = best"
| "best_slot req ((n, s, js) # ns) best =
     best_slot req ns
       (if fits req (idle s) \<and> (case best of None \<Rightarrow> True | Some (_, b) \<Rightarrow> idle s < idle b)
        then Some (n, s) else best)"

text \<open>Append a slot to the list and enter it into the index.\<close>

definition insert_slot :: "DesiredSlot \<Rightarrow> JobId list \<Rightarrow> SlotCapacity \<Rightarrow> slots \<Rightarrow> slots" where
  "insert_slot s js key st =
     st\<lparr>nodes := nodes st @ [(next_node st, s, js)], index := index st @ [(key, next_node st)],
        next_node := Suc (next_node st)\<rparr>"

text \<open>Find an entry of the index, take its slot out of the list and the entry out of the index.\<close>

definition extract_slot :: "SlotCapacity \<Rightarrow> slots \<Rightarrow> ((DesiredSlot \<times> JobId list) \<times> slots) option" where
  "extract_slot key st =
     (case map_of (index st) key of
        None \<Rightarrow> None
      | Some n \<Rightarrow>
          (case map_of (nodes st) n of
             None \<Rightarrow> None
           | Some p \<Rightarrow> Some (p, st\<lparr>nodes := filter (\<lambda>e. fst e \<noteq> n) (nodes st),
                                   index := remove1 (key, n) (index st)\<rparr>)))"

definition index_count :: "SlotCapacity \<Rightarrow> slots \<Rightarrow> nat" where
  "index_count key st = length (filter (\<lambda>e. fst e = key) (index st))"

text \<open>One round of \<^verbatim>\<open>merge_\<close>: two slots of size \<open>startSlot\<close> become one of twice the size.\<close>

definition merge_step :: "SlotCapacity \<Rightarrow> slots \<Rightarrow> slots option" where
  "merge_step startSlot st =
     (case extract_slot startSlot st of
        None \<Rightarrow> None
      | Some ((s1, js1), st1) \<Rightarrow>
          (case extract_slot startSlot st1 of
             None \<Rightarrow> None
           | Some ((s2, js2), st2) \<Rightarrow>
               Some (insert_slot
                 \<lparr>total = slot_times (total s1) 2, idle = slot_plus (idle s1) (idle s2)\<rparr>
                 (js1 @ js2) (slot_times startSlot 2) st2)))"

lemma extract_slotE:
  assumes "extract_slot key st = Some (p, st')"
  obtains n where "(key, n) \<in> set (index st)" "map_of (nodes st) n = Some p"
    "st' = st\<lparr>nodes := filter (\<lambda>e. fst e \<noteq> n) (nodes st), index := remove1 (key, n) (index st)\<rparr>"
  using assms by (auto simp: extract_slot_def split: option.splits dest: map_of_SomeD)

lemma extract_slot_length:
  assumes "extract_slot key st = Some (p, st')"
  shows "length (index st) = Suc (length (index st'))"
  using assms by (rule extract_slotE) (auto simp: length_remove1 dest: length_pos_if_in_set)

lemma merge_stepE:
  assumes "merge_step startSlot st = Some st'"
  obtains s1 js1 st1 s2 js2 st2 where
    "extract_slot startSlot st = Some ((s1, js1), st1)" "extract_slot startSlot st1 = Some ((s2, js2), st2)"
    "st' = insert_slot \<lparr>total = slot_times (total s1) 2, idle = slot_plus (idle s1) (idle s2)\<rparr>
             (js1 @ js2) (slot_times startSlot 2) st2"
  using assms by (auto simp: merge_step_def split: option.splits prod.splits)

lemma merge_step_length:
  assumes "merge_step startSlot st = Some st'"
  shows "length (index st') < length (index st)"
  using assms
proof (rule merge_stepE)
  fix s1 js1 st1 s2 js2 st2
  assume "extract_slot startSlot st = Some ((s1, js1), st1)" "extract_slot startSlot st1 = Some ((s2, js2), st2)"
    "st' = insert_slot \<lparr>total = slot_times (total s1) 2, idle = slot_plus (idle s1) (idle s2)\<rparr>
             (js1 @ js2) (slot_times startSlot 2) st2"
  then show ?thesis
    using extract_slot_length [of startSlot st "(s1, js1)" st1] extract_slot_length [of startSlot st1 "(s2, js2)" st2]
    by (simp add: insert_slot_def)
qed

function merge_slots :: "SlotCapacity list \<Rightarrow> SlotCapacity \<Rightarrow> slots \<Rightarrow> slots option" where
  "merge_slots possibleSlots startSlot st =
     (if index_count startSlot st = 1 then Some st
      else if slot_times startSlot 2 \<notin> set possibleSlots then Some st
      else case merge_step startSlot st of
             None \<Rightarrow> None
           | Some st' \<Rightarrow> merge_slots possibleSlots (slot_times startSlot 2) st')"
  by pat_completeness auto
termination
  by (relation "measure (\<lambda>(_, _, st). length (index st))") (auto simp: merge_step_length)

declare merge_slots.simps [simp del]

text \<open>One job of the loop of \<^verbatim>\<open>select\<close>.\<close>

definition select_job :: "SlotCapacity list \<Rightarrow> QueuedJobInfo \<Rightarrow> slots \<Rightarrow> slots option" where
  "select_job possibleSlots job st =
     (case best_slot (requiredCapacity job) (nodes st) None of
        Some (n, _) \<Rightarrow>
          Some (st\<lparr>nodes := map (\<lambda>(m, s, js). if m = n
                     then (m, s\<lparr>idle := slot_minus (idle s) (requiredCapacity job)\<rparr>, js @ [qj_id job])
                     else (m, s, js)) (nodes st)\<rparr>)
      | None \<Rightarrow>
          (case getMinFitSlot possibleSlots (requiredCapacity job) of
             None \<Rightarrow> None
           | Some slot \<Rightarrow>
               merge_slots possibleSlots slot
                 (insert_slot \<lparr>total = slot, idle = slot_minus slot (requiredCapacity job)\<rparr> [qj_id job] slot st)))"

fun select_loop :: "SlotCapacity list \<Rightarrow> QueuedJobInfo list \<Rightarrow> slots \<Rightarrow> slots option" where
  "select_loop possibleSlots [] st = Some st"
| "select_loop possibleSlots (job # jobs) st =
     (case select_job possibleSlots job st of
        None \<Rightarrow> None | Some st' \<Rightarrow> select_loop possibleSlots jobs st')"

text \<open>The slots are numbered from 0 in list order.\<close>

fun number_slots :: "nat \<Rightarrow> (DesiredSlot \<times> JobId list) list \<Rightarrow> JobToVm \<Rightarrow> DesiredSlotMap \<Rightarrow> JobToVm \<times> DesiredSlotMap" where
  "number_slots next [] assignments slotMap = (assignments, slotMap)"
| "number_slots next ((s, js) # ns) assignments slotMap =
     number_slots (Suc next) ns
       (fold (\<lambda>j. umap_assign j (DesiredVm next)) js assignments) (umap_emplace next s slotMap)"

definition select :: "SlotCapacity list \<Rightarrow> QueuedJobInfo list \<Rightarrow> (JobToVm \<times> DesiredSlotMap) option" where
  "select possibleSlots jobs =
     (case select_loop possibleSlots
             (std_sort (\<lambda>lhs rhs. requiredCapacity rhs < requiredCapacity lhs) jobs) empty_slots of
        None \<Rightarrow> None
      | Some st \<Rightarrow> Some (number_slots 0 (map snd (nodes st)) [] []))"

section \<open>The index matches the list\<close>

abbreviation contents :: "slots \<Rightarrow> (DesiredSlot \<times> JobId list) multiset" where
  "contents st \<equiv> mset (map snd (nodes st))"

definition slots_wf :: "slots \<Rightarrow> bool" where
  "slots_wf st \<longleftrightarrow> distinct (map fst (nodes st)) \<and> (\<forall>e \<in> set (nodes st). fst e < next_node st) \<and>
     mset (index st) = mset (map (\<lambda>(n, s, js). (total s, n)) (nodes st))"

definition size_count :: "SlotCapacity \<Rightarrow> (DesiredSlot \<times> JobId list) multiset \<Rightarrow> nat" where
  "size_count t M = size (filter_mset (\<lambda>p. total (fst p) = t) M)"

lemma size_count_simps [simp]:
  "size_count t {#} = 0"
  "size_count t (add_mset p M) = (if total (fst p) = t then Suc (size_count t M) else size_count t M)"
  by (simp_all add: size_count_def)

lemma slots_wf_empty [simp]: "slots_wf empty_slots"
  by (simp add: slots_wf_def empty_slots_def)

lemma index_count_contents:
  assumes "slots_wf st"
  shows "index_count t st = size_count t (contents st)"
proof -
  have gen: "size (filter_mset (\<lambda>e. fst e = t) (mset (map (\<lambda>(n, s, js). (total s, n)) ns))) =
      size_count t (mset (map snd ns))" for ns :: "node list"
    by (induction ns) auto
  have "index_count t st = size (filter_mset (\<lambda>e. fst e = t) (mset (index st)))"
    by (simp add: index_count_def flip: mset_filter)
  also have "\<dots> = size (filter_mset (\<lambda>e. fst e = t) (mset (map (\<lambda>(n, s, js). (total s, n)) (nodes st))))"
    using assms by (simp add: slots_wf_def)
  also have "\<dots> = size_count t (contents st)"
    by (rule gen)
  finally show ?thesis .
qed

lemma insert_slot_wf:
  assumes "slots_wf st" and "total s = key"
  shows "slots_wf (insert_slot s js key st)" and "contents (insert_slot s js key st) = add_mset (s, js) (contents st)"
  using assms by (auto simp: slots_wf_def insert_slot_def less_SucI)

lemma extract_slot_wf:
  assumes wf: "slots_wf st" and cnt: "0 < index_count key st"
  obtains s js st' where "extract_slot key st = Some ((s, js), st')" "total s = key" "slots_wf st'"
    "contents st = add_mset (s, js) (contents st')"
proof -
  from cnt have "key \<in> fst ` set (index st)"
    by (auto simp: index_count_def filter_empty_conv image_iff)
  then obtain n where n: "map_of (index st) key = Some n"
    using map_of_eq_None_iff [of "index st" key] by auto
  then have "(key, n) \<in> set (index st)" by (rule map_of_SomeD)
  then have "(key, n) \<in> set (map (\<lambda>(n, s, js). (total s, n)) (nodes st))"
    using wf by (metis set_mset_mset slots_wf_def)
  then obtain s js where mem: "(n, s, js) \<in> set (nodes st)" and tot: "total s = key" by auto
  obtain as bs where nds: "nodes st = as @ (n, s, js) # bs" using mem by (meson split_list)
  have dist: "distinct (map fst (nodes st))" using wf by (simp add: slots_wf_def)
  have "\<forall>e \<in> set as \<union> set bs. fst e \<noteq> n" using dist nds by auto
  then have rest: "filter (\<lambda>e. fst e \<noteq> n) (nodes st) = as @ bs"
    using nds by (simp add: filter_id_conv)
  have look: "map_of (nodes st) n = Some (s, js)" using dist mem by simp
  let ?st = "st\<lparr>nodes := as @ bs, index := remove1 (key, n) (index st)\<rparr>"
  have ext: "extract_slot key st = Some ((s, js), ?st)"
    using n look rest by (simp add: extract_slot_def)
  have "slots_wf ?st" using wf nds tot by (auto simp: slots_wf_def)
  moreover have "contents st = add_mset (s, js) (contents ?st)" using nds by simp
  ultimately show thesis using ext tot that by blast
qed

lemma merge_step_wf:
  assumes "slots_wf st" and "2 \<le> index_count t st"
  obtains s1 js1 s2 js2 M st' where "merge_step t st = Some st'" "slots_wf st'" "total s1 = t" "total s2 = t"
    "contents st = add_mset (s1, js1) (add_mset (s2, js2) M)"
    "contents st' = add_mset (\<lparr>total = slot_times t 2, idle = slot_plus (idle s1) (idle s2)\<rparr>, js1 @ js2) M"
proof -
  obtain s1 js1 st1 where 1: "extract_slot t st = Some ((s1, js1), st1)" "total s1 = t" "slots_wf st1"
    "contents st = add_mset (s1, js1) (contents st1)"
    using extract_slot_wf [OF assms(1), of t] assms(2) by auto
  have "0 < index_count t st1"
    using assms(2) 1 by (simp add: index_count_contents [OF assms(1)] index_count_contents [OF 1(3)])
  then obtain s2 js2 st2 where 2: "extract_slot t st1 = Some ((s2, js2), st2)" "total s2 = t" "slots_wf st2"
    "contents st1 = add_mset (s2, js2) (contents st2)"
    using extract_slot_wf [OF 1(3), of t] by auto
  let ?s = "\<lparr>total = slot_times t 2, idle = slot_plus (idle s1) (idle s2)\<rparr>"
  have "merge_step t st = Some (insert_slot ?s (js1 @ js2) (slot_times t 2) st2)"
    using 1 2 by (simp add: merge_step_def)
  with insert_slot_wf [OF 2(3), of ?s "slot_times t 2" "js1 @ js2"] 1 2 show thesis
    by (intro that) auto
qed

section \<open>Invariants of the selection\<close>

text \<open>
  A property of the contents that merging two slots of one size keeps is kept by \<^verbatim>\<open>merge_\<close>,
  which returns.
\<close>

definition merge_closed :: "SlotCapacity list \<Rightarrow> ((DesiredSlot \<times> JobId list) multiset \<Rightarrow> bool) \<Rightarrow> bool" where
  "merge_closed possible P \<longleftrightarrow> (\<forall>s1 js1 s2 js2 M. total s1 = total s2 \<longrightarrow>
     slot_times (total s1) 2 \<in> set possible \<longrightarrow> P (add_mset (s1, js1) (add_mset (s2, js2) M)) \<longrightarrow>
     P (add_mset (\<lparr>total = slot_times (total s1) 2, idle = slot_plus (idle s1) (idle s2)\<rparr>, js1 @ js2) M))"

lemma merge_slots_invariant:
  assumes "merge_closed possible P" and "slots_wf st" and "1 \<le> index_count t st" and "P (contents st)"
  shows "\<exists>st'. merge_slots possible t st = Some st' \<and> slots_wf st' \<and> P (contents st')"
  using assms
proof (induction possible t st rule: merge_slots.induct)
  case (1 possible t st)
  show ?case
  proof (cases "index_count t st = 1 \<or> slot_times t 2 \<notin> set possible")
    case True
    with "1.prems" show ?thesis by (auto simp: merge_slots.simps [of possible t st])
  next
    case False
    then have "2 \<le> index_count t st" using "1.prems"(3) by simp
    then obtain s1 js1 s2 js2 M st' where st': "merge_step t st = Some st'" "slots_wf st'"
      "total s1 = t" "total s2 = t" "contents st = add_mset (s1, js1) (add_mset (s2, js2) M)"
      "contents st' = add_mset (\<lparr>total = slot_times t 2, idle = slot_plus (idle s1) (idle s2)\<rparr>, js1 @ js2) M"
      using merge_step_wf [OF "1.prems"(2)] by metis
    have "P (contents st')"
      using "1.prems"(1) st' False "1.prems"(4) unfolding merge_closed_def by metis
    moreover have "1 \<le> index_count (slot_times t 2) st'"
      using st' by (simp add: index_count_contents)
    ultimately show ?thesis
      using "1.IH" [OF _ _ st'(1)] "1.prems"(1) st' False by (simp add: merge_slots.simps [of possible t st])
  qed
qed

text \<open>The scan returns a fitting slot with the smallest idle capacity, or nothing fits.\<close>

lemma best_slot_spec:
  assumes "\<forall>n s. best = Some (n, s) \<longrightarrow> fits req (idle s)"
  shows "case best_slot req ns best of
      None \<Rightarrow> best = None \<and> (\<forall>(n, s, js) \<in> set ns. \<not> fits req (idle s))
    | Some (n, s) \<Rightarrow> (best = Some (n, s) \<or> (\<exists>js. (n, s, js) \<in> set ns)) \<and> fits req (idle s) \<and>
        (\<forall>(m, t, js) \<in> set ns. fits req (idle t) \<longrightarrow> idle s \<le> idle t) \<and>
        (\<forall>m t. best = Some (m, t) \<longrightarrow> idle s \<le> idle t)"
  using assms
proof (induction ns arbitrary: best)
  case Nil
  then show ?case by (auto split: option.splits)
next
  case (Cons e ns)
  obtain n s js where e: "e = (n, s, js)" by (cases e)
  define best' where "best' = (if fits req (idle s) \<and> (case best of None \<Rightarrow> True | Some (_, b) \<Rightarrow> idle s < idle b)
        then Some (n, s) else best)"
  have eq: "best_slot req (e # ns) best = best_slot req ns best'" by (simp add: e best'_def)
  have "\<forall>n s. best' = Some (n, s) \<longrightarrow> fits req (idle s)"
    using Cons.prems by (auto simp: best'_def split: if_splits)
  note IH = Cons.IH [OF this]
  show ?case
  proof (cases "best_slot req ns best'")
    case None
    with IH show ?thesis unfolding eq by (auto simp: e best'_def split: if_splits option.splits)
  next
    case (Some p)
    obtain m t where p: "p = (m, t)" by (cases p)
    have "idle t \<le> idle s" if "fits req (idle s)"
      using IH Some p that Cons.prems by (cases best) (auto simp: best'_def split: if_splits)
    moreover have "\<forall>m' t'. best = Some (m', t') \<longrightarrow> idle t \<le> idle t'"
      using IH Some p by (auto simp: best'_def split: if_splits)
    ultimately show ?thesis
      using IH Some p unfolding eq by (auto simp: e best'_def split: if_splits)
  qed
qed

lemma best_slot_Some:
  assumes "best_slot req ns None = Some (n, s)"
  shows "\<exists>js. (n, s, js) \<in> set ns" and "fits req (idle s)"
    and "\<forall>(m, t, js) \<in> set ns. fits req (idle t) \<longrightarrow> idle s \<le> idle t"
  using best_slot_spec [of None req ns] assms by auto

lemma getMinFitSlot_in: "getMinFitSlot possible r = Some s \<Longrightarrow> s \<in> set possible"
  using lower_bound_le [of "\<lambda>lhs. \<not> fits r lhs" possible]
  by (auto simp: getMinFitSlot_def Let_def split: if_splits)

lemma getMinFitSlot_total: "possible \<noteq> [] \<Longrightarrow> getMinFitSlot possible r \<noteq> None"
  by (simp add: getMinFitSlot_def Let_def)

text \<open>
  A property of the jobs done so far and the contents that the three moves of the selection keep
  (put a job into a slot it fits, open a new slot, merge two) holds of what the loop returns.
\<close>

definition select_closed ::
    "SlotCapacity list \<Rightarrow> QueuedJobInfo set \<Rightarrow> (QueuedJobInfo list \<Rightarrow> (DesiredSlot \<times> JobId list) multiset \<Rightarrow> bool) \<Rightarrow> bool" where
  "select_closed possible J P \<longleftrightarrow> (\<forall>jobs. merge_closed possible (P jobs)) \<and>
     (\<forall>jobs job s js M. job \<in> J \<longrightarrow> fits (requiredCapacity job) (idle s) \<longrightarrow> P jobs (add_mset (s, js) M) \<longrightarrow>
        P (jobs @ [job]) (add_mset (s\<lparr>idle := slot_minus (idle s) (requiredCapacity job)\<rparr>, js @ [qj_id job]) M)) \<and>
     (\<forall>jobs job slot M. job \<in> J \<longrightarrow> getMinFitSlot possible (requiredCapacity job) = Some slot \<longrightarrow> P jobs M \<longrightarrow>
        P (jobs @ [job]) (add_mset (\<lparr>total = slot, idle = slot_minus slot (requiredCapacity job)\<rparr>, [qj_id job]) M))"

lemma select_closed_conj:
  assumes "select_closed possible J P" and "select_closed possible J Q"
  shows "select_closed possible J (\<lambda>jobs M. P jobs M \<and> Q jobs M)"
  unfolding select_closed_def
proof (intro conjI)
  show "\<forall>jobs. merge_closed possible (\<lambda>M. P jobs M \<and> Q jobs M)"
    using assms unfolding select_closed_def merge_closed_def by meson
qed (use assms in \<open>simp_all add: select_closed_def\<close>)

lemma select_job_invariant:
  assumes closed: "select_closed possible J P" and job: "job \<in> J" and ne: "possible \<noteq> []"
    and wf: "slots_wf st" and P: "P jobs (contents st)"
  shows "\<exists>st'. select_job possible job st = Some st' \<and> slots_wf st' \<and> P (jobs @ [job]) (contents st')"
proof (cases "best_slot (requiredCapacity job) (nodes st) None")
  case None
  obtain slot where slot: "getMinFitSlot possible (requiredCapacity job) = Some slot"
    using getMinFitSlot_total [OF ne] by blast
  let ?s = "\<lparr>total = slot, idle = slot_minus slot (requiredCapacity job)\<rparr>"
  let ?st = "insert_slot ?s [qj_id job] slot st"
  note ins = insert_slot_wf [OF wf, of ?s slot "[qj_id job]", simplified]
  have "P (jobs @ [job]) (contents ?st)"
    using closed job slot P ins(2) by (simp add: select_closed_def)
  moreover have "1 \<le> index_count slot ?st" using ins by (simp add: index_count_contents)
  moreover have "merge_closed possible (P (jobs @ [job]))" using closed by (simp add: select_closed_def)
  ultimately show ?thesis
    using merge_slots_invariant [of possible "P (jobs @ [job])" ?st slot] ins(1) None slot
    by (simp add: select_job_def)
next
  case (Some p)
  obtain n s where p: "p = (n, s)" by (cases p)
  obtain js where mem: "(n, s, js) \<in> set (nodes st)" and fit: "fits (requiredCapacity job) (idle s)"
    using best_slot_Some [of "requiredCapacity job" "nodes st" n s] Some p by auto
  obtain as bs where nds: "nodes st = as @ (n, s, js) # bs" using mem by (meson split_list)
  let ?s = "s\<lparr>idle := slot_minus (idle s) (requiredCapacity job)\<rparr>"
  let ?upd = "\<lambda>(m, s, js). if m = n then (m, s\<lparr>idle := slot_minus (idle s) (requiredCapacity job)\<rparr>, js @ [qj_id job])
                     else (m, s, js)"
  have other: "(n, t, ks) \<notin> set as" "(n, t, ks) \<notin> set bs" for t ks
    using wf nds by (auto simp: slots_wf_def image_iff)
  have "map ?upd as = as" and "map ?upd bs = bs"
    by (auto simp: other intro!: map_idI split: prod.splits)
  then have nds': "map ?upd (nodes st) = as @ (n, ?s, js @ [qj_id job]) # bs" using nds by simp
  let ?st = "st\<lparr>nodes := as @ (n, ?s, js @ [qj_id job]) # bs\<rparr>"
  have "select_job possible job st = Some ?st"
    using Some p nds' by (simp add: select_job_def)
  moreover have "slots_wf ?st" using wf nds by (auto simp: slots_wf_def)
  moreover have "P (jobs @ [job]) (contents ?st)"
    using closed job fit P nds by (simp add: select_closed_def)
  ultimately show ?thesis by blast
qed

lemma select_loop_invariant:
  assumes closed: "select_closed possible J P" and ne: "possible \<noteq> []"
  shows "set jobs \<subseteq> J \<Longrightarrow> slots_wf st \<Longrightarrow> P done (contents st) \<Longrightarrow>
     \<exists>st'. select_loop possible jobs st = Some st' \<and> slots_wf st' \<and> P (done @ jobs) (contents st')"
proof (induction jobs arbitrary: st "done")
  case (Cons job jobs)
  obtain st1 where st1: "select_job possible job st = Some st1" "slots_wf st1" "P (done @ [job]) (contents st1)"
    using select_job_invariant [OF closed _ ne Cons.prems(2,3)] Cons.prems(1) by auto
  with Cons.IH [of st1 "done @ [job]"] Cons.prems(1) show ?case by simp
qed simp

section \<open>The numbered result\<close>

definition numbered :: "nat \<Rightarrow> (DesiredSlot \<times> JobId list) list \<Rightarrow> (nat \<times> DesiredSlot \<times> JobId list) list" where
  "numbered k ns = zip [k..<k + length ns] ns"

lemma numbered_simps [simp]:
  "numbered k [] = []" "numbered k (p # ns) = (k, p) # numbered (Suc k) ns"
  by (simp_all add: numbered_def upt_rec)

lemma map_fst_numbered [simp]: "map fst (numbered k ns) = [k..<k + length ns]"
  by (simp add: numbered_def)

lemma map_snd_numbered [simp]: "map snd (numbered k ns) = ns"
  by (simp add: numbered_def)

lemma fold_umap_assign_new:
  "distinct js \<Longrightarrow> set js \<inter> fst ` set a = {} \<Longrightarrow>
   fold (\<lambda>j. umap_assign j v) js a = a @ map (\<lambda>j. (j, v)) js"
proof (induction js arbitrary: a)
  case (Cons j js)
  then have "umap_assign j v a = a @ [(j, v)]" by (intro umap_assign_new) auto
  with Cons show ?case by auto
qed simp

lemma number_slots_eq:
  assumes "distinct (concat (map snd ns))" and "set (concat (map snd ns)) \<inter> fst ` set a = {}"
    and "\<forall>i \<in> fst ` set m. i < k"
  shows "number_slots k ns a m =
     (a @ concat (map (\<lambda>(i, s, js). map (\<lambda>j. (j, DesiredVm i)) js) (numbered k ns)),
      m @ map (\<lambda>(i, s, js). (i, s)) (numbered k ns))"
  using assms
proof (induction ns arbitrary: k a m)
  case (Cons p ns)
  obtain s js where p: "p = (s, js)" by (cases p)
  have a: "fold (\<lambda>j. umap_assign j (DesiredVm k)) js a = a @ map (\<lambda>j. (j, DesiredVm k)) js"
    using Cons.prems p by (intro fold_umap_assign_new) auto
  have m: "umap_emplace k s m = m @ [(k, s)]"
    using Cons.prems(3) by (auto simp: umap_emplace_def)
  have "number_slots (Suc k) ns (a @ map (\<lambda>j. (j, DesiredVm k)) js) (m @ [(k, s)]) =
     ((a @ map (\<lambda>j. (j, DesiredVm k)) js) @ concat (map (\<lambda>(i, s, js). map (\<lambda>j. (j, DesiredVm i)) js) (numbered (Suc k) ns)),
      (m @ [(k, s)]) @ map (\<lambda>(i, s, js). (i, s)) (numbered (Suc k) ns))"
  proof (rule Cons.IH)
    have "set js \<inter> set (concat (map snd ns)) = {}" "set (concat (map snd ns)) \<inter> fst ` set a = {}"
      using Cons.prems p by auto
    moreover have "fst ` set (map (\<lambda>j. (j, DesiredVm k)) js) = set js" by force
    ultimately show "set (concat (map snd ns)) \<inter> fst ` set (a @ map (\<lambda>j. (j, DesiredVm k)) js) = {}"
      by (auto simp: image_Un)
  qed (use Cons.prems p in \<open>auto simp: less_SucI\<close>)
  with a m p show ?case by simp
qed simp

definition job_assignments :: "(DesiredSlot \<times> JobId list) list \<Rightarrow> JobToVm" where
  "job_assignments ns = concat (map (\<lambda>(i, s, js). map (\<lambda>j. (j, DesiredVm i)) js) (numbered 0 ns))"

definition slot_map :: "(DesiredSlot \<times> JobId list) list \<Rightarrow> DesiredSlotMap" where
  "slot_map ns = map (\<lambda>(i, s, js). (i, s)) (numbered 0 ns)"

lemma keys_job_assignments: "map fst (job_assignments ns) = concat (map snd ns)"
proof -
  have "map fst (concat (map (\<lambda>(i, s, js). map (\<lambda>j. (j, DesiredVm i)) js) (numbered k ns))) = concat (map snd ns)" for k
    by (induction ns arbitrary: k) (auto simp: comp_def)
  then show ?thesis by (simp add: job_assignments_def)
qed

lemma slot_map_fst: "map fst (slot_map ns) = [0..<length ns]"
proof -
  have "map fst (map (\<lambda>(i, s, js). (i, s)) (numbered k ns)) = map fst (numbered k ns)" for k
    by (induction ns arbitrary: k) (auto simp del: map_fst_numbered)
  then show ?thesis unfolding slot_map_def by simp
qed

lemma slot_map_snd: "map snd (slot_map ns) = map fst ns"
proof -
  have "map snd (map (\<lambda>(i, s, js). (i, s)) (numbered k ns)) = map fst ns" for k
    by (induction ns arbitrary: k) auto
  then show ?thesis unfolding slot_map_def by simp
qed

lemma set_numbered: "(i, s, js) \<in> set (numbered 0 ns) \<longleftrightarrow> i < length ns \<and> ns ! i = (s, js)"
  by (auto simp: numbered_def set_zip intro!: exI [of _ i])

lemma set_slot_map: "(i, s) \<in> set (slot_map ns) \<longleftrightarrow> (\<exists>js. i < length ns \<and> ns ! i = (s, js))"
proof -
  have "(i, s) \<in> set (slot_map ns) \<longleftrightarrow> (\<exists>js. (i, s, js) \<in> set (numbered 0 ns))"
    by (force simp: slot_map_def)
  then show ?thesis by (simp add: set_numbered)
qed

lemma set_job_assignments:
  "(j, v) \<in> set (job_assignments ns) \<longleftrightarrow> (\<exists>i s js. v = DesiredVm i \<and> i < length ns \<and> ns ! i = (s, js) \<and> j \<in> set js)"
  by (force simp: job_assignments_def set_numbered)

lemma map_of_job_assignments:
  assumes "distinct (concat (map snd ns))" and "i < length ns" and "ns ! i = (s, js)"
  shows "map_of (job_assignments ns) j = Some (DesiredVm i) \<longleftrightarrow> j \<in> set js"
proof -
  have "distinct (map fst (job_assignments ns))" using assms(1) by (simp add: keys_job_assignments)
  then have "map_of (job_assignments ns) j = Some (DesiredVm i) \<longleftrightarrow> (j, DesiredVm i) \<in> set (job_assignments ns)"
    by (rule map_of_eq_Some_iff)
  also have "\<dots> \<longleftrightarrow> j \<in> set js" using assms(2,3) by (simp add: set_job_assignments)
  finally show ?thesis .
qed

text \<open>The jobs of the slots are the jobs given, each once.\<close>

definition holds_jobs :: "QueuedJobInfo list \<Rightarrow> (DesiredSlot \<times> JobId list) multiset \<Rightarrow> bool" where
  "holds_jobs jobs M \<longleftrightarrow> sum_mset (image_mset (mset \<circ> snd) M) = mset (map qj_id jobs) \<and> (\<forall>p \<in># M. snd p \<noteq> [])"

lemma holds_jobs_closed: "select_closed possible J holds_jobs"
  by (auto simp: select_closed_def merge_closed_def holds_jobs_def add.assoc)

lemma holds_jobs_concat: "holds_jobs jobs (mset ns) \<Longrightarrow> mset (concat (map snd ns)) = mset (map qj_id jobs)"
proof -
  have "mset (concat (map snd ns)) = sum_mset (image_mset (mset \<circ> snd) (mset ns))" by (induction ns) auto
  then show "holds_jobs jobs (mset ns) \<Longrightarrow> ?thesis" by (simp add: holds_jobs_def)
qed

lemma select_spec:
  assumes closed: "select_closed possible (set jobs) P" and start: "P [] {#}"
    and ne: "possible \<noteq> []" and dist: "distinct (map qj_id jobs)"
  obtains ns sorted st where "select possible jobs = Some (job_assignments ns, slot_map ns)"
    "select_loop possible sorted empty_slots = Some st" "ns = map snd (nodes st)"
    "mset sorted = mset jobs" "P sorted (mset ns)" "holds_jobs sorted (mset ns)"
    "distinct (concat (map snd ns))" "mset (concat (map snd ns)) = mset (map qj_id jobs)"
proof -
  let ?srt = "std_sort (\<lambda>lhs rhs. requiredCapacity rhs < requiredCapacity lhs) jobs"
  define Q where "Q = (\<lambda>js M. P js M \<and> holds_jobs js M)"
  have "select_closed possible (set jobs) Q"
    unfolding Q_def using closed holds_jobs_closed by (rule select_closed_conj)
  then obtain st where st: "select_loop possible ?srt empty_slots = Some st" "Q ?srt (contents st)"
    using select_loop_invariant [of possible "set jobs" Q ?srt empty_slots "[]"] ne start
    by (auto simp: Q_def empty_slots_def holds_jobs_def slots_wf_def)
  let ?ns = "map snd (nodes st)"
  have m: "mset (concat (map snd ?ns)) = mset (map qj_id jobs)"
    using st(2) holds_jobs_concat [of ?srt ?ns] by (simp add: Q_def std_sort.mset_srt)
  then have d: "distinct (concat (map snd ?ns))" using dist by (metis mset_eq_imp_distinct_iff)
  have "select possible jobs = Some (job_assignments ?ns, slot_map ?ns)"
    using st(1) number_slots_eq [OF d, of "[]" "[]" 0]
    by (simp add: select_def job_assignments_def slot_map_def)
  then show thesis
    by (rule that [of _ ?srt]) (use st m d in \<open>simp_all add: Q_def std_sort.mset_srt\<close>)
qed

text \<open>Every slot has a size the provider offers.\<close>

lemma possible_closed: "select_closed possible J (\<lambda>jobs M. \<forall>p \<in># M. total (fst p) \<in> set possible)"
  by (auto simp: select_closed_def merge_closed_def getMinFitSlot_in)

text \<open>The load of a slot: the required capacities of the jobs in it.\<close>

definition load :: "(SlotCapacity \<Rightarrow> nat) \<Rightarrow> (JobId \<Rightarrow> SlotCapacity) \<Rightarrow> JobId list \<Rightarrow> nat" where
  "load f need js = sum_list (map (f \<circ> need) js)"

definition slot_full :: "(JobId \<Rightarrow> SlotCapacity) \<Rightarrow> DesiredSlot \<times> JobId list \<Rightarrow> bool" where
  "slot_full need p \<longleftrightarrow> cap_ok (total (fst p)) \<and> fits (idle (fst p)) (total (fst p)) \<and>
     ncpu (total (fst p)) = ncpu (idle (fst p)) + load ncpu need (snd p) \<and>
     nram (total (fst p)) = nram (idle (fst p)) + load nram need (snd p)"

lemma load_simps [simp]:
  "load f need [] = 0" "load f need (j # js) = f (need j) + load f need js"
  "load f need (js @ ks) = load f need js + load f need ks"
  by (simp_all add: load_def)

lemma slot_full_closed:
  assumes ok: "\<forall>s \<in> set possible. cap_ok s"
    and serve: "\<forall>job \<in> J. \<forall>s. getMinFitSlot possible (requiredCapacity job) = Some s \<longrightarrow> fits (requiredCapacity job) s"
    and need: "\<forall>job \<in> J. need (qj_id job) = requiredCapacity job"
  shows "select_closed possible J (\<lambda>jobs M. \<forall>p \<in># M. slot_full need p)"
  unfolding select_closed_def merge_closed_def
proof (intro conjI allI impI)
  fix jobs :: "QueuedJobInfo list" and s1 js1 s2 js2 M
  assume tot: "total s1 = total s2" and mem: "slot_times (total s1) 2 \<in> set possible"
    and all: "\<forall>p \<in># add_mset (s1, js1) (add_mset (s2, js2) M). slot_full need p"
  have ok1: "cap_ok (total s1)" "cap_ok (idle s1)" "cap_ok (idle s2)"
    using all tot cap_ok_fits by (auto simp: slot_full_def)
  have "cap_ok (slot_times (total s1) 2)" using ok mem by blast
  then have "slot_full need (\<lparr>total = slot_times (total s1) 2, idle = slot_plus (idle s1) (idle s2)\<rparr>, js1 @ js2)"
    using all tot ok1 by (simp add: slot_full_def fits_nat slot_plus_nat slot_times_2_nat)
  with all show "\<forall>p \<in># add_mset (\<lparr>total = slot_times (total s1) 2, idle = slot_plus (idle s1) (idle s2)\<rparr>, js1 @ js2) M.
      slot_full need p" by simp
next
  fix jobs :: "QueuedJobInfo list" and job s js M
  assume job: "job \<in> J" and fit: "fits (requiredCapacity job) (idle s)"
    and all: "\<forall>p \<in># add_mset (s, js) M. slot_full need p"
  have s: "slot_full need (s, js)" using all by simp
  then have "cap_ok (idle s)" using cap_ok_fits by (auto simp: slot_full_def)
  moreover have "cap_ok (requiredCapacity job)" using fit calculation cap_ok_fits by blast
  ultimately have "slot_full need (s\<lparr>idle := slot_minus (idle s) (requiredCapacity job)\<rparr>, js @ [qj_id job])"
    using s fit need job by (auto simp: slot_full_def fits_nat slot_minus_nat)
  with all show "\<forall>p \<in># add_mset (s\<lparr>idle := slot_minus (idle s) (requiredCapacity job)\<rparr>, js @ [qj_id job]) M.
      slot_full need p" by simp
next
  fix jobs :: "QueuedJobInfo list" and job slot M
  assume job: "job \<in> J" and slot: "getMinFitSlot possible (requiredCapacity job) = Some slot"
    and all: "\<forall>p \<in># M. slot_full need p"
  have "cap_ok slot" "fits (requiredCapacity job) slot"
    using ok serve job slot getMinFitSlot_in by blast+
  moreover from this have "cap_ok (requiredCapacity job)" using cap_ok_fits by blast
  ultimately have "slot_full need (\<lparr>total = slot, idle = slot_minus slot (requiredCapacity job)\<rparr>, [qj_id job])"
    using need job by (simp add: slot_full_def fits_slot_minus slot_minus_nat fits_nat)
  with all show "\<forall>p \<in># add_mset (\<lparr>total = slot, idle = slot_minus slot (requiredCapacity job)\<rparr>, [qj_id job]) M.
      slot_full need p" by simp
qed

text \<open>
  Without any assumption on which sizes a job fits, no slot has more idle capacity than its size.
\<close>

lemma slot_fits_closed:
  assumes ok: "\<forall>s \<in> set possible. cap_ok s" and jobs: "\<forall>job \<in> J. cap_ok (requiredCapacity job)"
  shows "select_closed possible J (\<lambda>jobs M. \<forall>p \<in># M. cap_ok (total (fst p)) \<and> fits (idle (fst p)) (total (fst p)))"
  unfolding select_closed_def merge_closed_def
proof (intro conjI allI impI)
  fix js :: "QueuedJobInfo list" and s1 s2 :: DesiredSlot and js1 js2 :: "JobId list" and M
  assume tot: "total s1 = total s2" and mem: "slot_times (total s1) 2 \<in> set possible"
    and all: "\<forall>p \<in># add_mset (s1, js1) (add_mset (s2, js2) M). cap_ok (total (fst p)) \<and> fits (idle (fst p)) (total (fst p))"
  have ok1: "cap_ok (total s1)" "cap_ok (idle s1)" "cap_ok (idle s2)" using all tot cap_ok_fits by auto
  have "cap_ok (slot_times (total s1) 2)" using ok mem by blast
  then show "\<forall>p \<in># add_mset (\<lparr>total = slot_times (total s1) 2, idle = slot_plus (idle s1) (idle s2)\<rparr>, js1 @ js2) M.
      cap_ok (total (fst p)) \<and> fits (idle (fst p)) (total (fst p))"
    using all tot ok1 by (simp add: fits_nat slot_plus_nat slot_times_2_nat)
next
  fix js :: "QueuedJobInfo list" and job and s :: DesiredSlot and ks :: "JobId list" and M
  assume job: "job \<in> J" and all: "\<forall>p \<in># add_mset (s, ks) M. cap_ok (total (fst p)) \<and> fits (idle (fst p)) (total (fst p))"
  then have "cap_ok (idle s)" "cap_ok (requiredCapacity job)" "fits (idle s) (total s)" using jobs cap_ok_fits by auto
  then have "fits (slot_minus (idle s) (requiredCapacity job)) (total s)" using fits_slot_minus fits_trans by blast
  with all show "\<forall>p \<in># add_mset (s\<lparr>idle := slot_minus (idle s) (requiredCapacity job)\<rparr>, ks @ [qj_id job]) M.
      cap_ok (total (fst p)) \<and> fits (idle (fst p)) (total (fst p))" by simp
next
  fix js :: "QueuedJobInfo list" and job slot and M :: "(DesiredSlot \<times> JobId list) multiset"
  assume "job \<in> J" "getMinFitSlot possible (requiredCapacity job) = Some slot"
    "\<forall>p \<in># M. cap_ok (total (fst p)) \<and> fits (idle (fst p)) (total (fst p))"
  then show "\<forall>p \<in># add_mset (\<lparr>total = slot, idle = slot_minus slot (requiredCapacity job)\<rparr>, [qj_id job]) M.
      cap_ok (total (fst p)) \<and> fits (idle (fst p)) (total (fst p))"
    using ok jobs getMinFitSlot_in by (auto intro: fits_slot_minus)
qed

lemma select_slots_fit:
  assumes "possible \<noteq> []" and "distinct (map qj_id jobs)" and "\<forall>s \<in> set possible. cap_ok s"
    and "\<forall>job \<in> set jobs. cap_ok (requiredCapacity job)" and "select possible jobs = Some (a, m)" and "(i, s) \<in> set m"
  shows "cap_ok (total s) \<and> fits (idle s) (total s)"
proof -
  obtain ns srt st where "select possible jobs = Some (job_assignments ns, slot_map ns)"
    and ok: "\<forall>p \<in># mset ns. cap_ok (total (fst p)) \<and> fits (idle (fst p)) (total (fst p))"
    by (rule select_spec [OF slot_fits_closed [OF assms(3,4)] _ assms(1,2)]) auto
  then have "(i, s) \<in> set (slot_map ns)" using assms(5,6) by simp
  then obtain js where "i < length ns" "ns ! i = (s, js)" by (auto simp: set_slot_map)
  then have "(s, js) \<in># mset ns" by (metis nth_mem set_mset_mset)
  with ok show ?thesis by force
qed

text \<open>
  After a merge cascade no two slots could still be merged: the only size that may occur twice
  is the one the cascade starts from.
\<close>

definition merged_but :: "SlotCapacity list \<Rightarrow> SlotCapacity option \<Rightarrow> (DesiredSlot \<times> JobId list) multiset \<Rightarrow> bool" where
  "merged_but possible opt M \<longleftrightarrow>
     (\<forall>t. slot_times t 2 \<in> set possible \<longrightarrow> size_count t M \<le> (if opt = Some t then 2 else 1))"

lemma merge_slots_merged:
  assumes "slots_wf st" and "1 \<le> index_count t st" and "merged_but possible (Some t) (contents st)"
    and "merge_slots possible t st = Some st'"
  shows "slots_wf st' \<and> merged_but possible None (contents st')"
  using assms
proof (induction possible t st rule: merge_slots.induct)
  case (1 possible t st)
  show ?case
  proof (cases "index_count t st = 1 \<or> slot_times t 2 \<notin> set possible")
    case True
    then have "merge_slots possible t st = Some st" by (auto simp: merge_slots.simps)
    moreover have "size_count u (contents st) \<le> 1" if "slot_times u 2 \<in> set possible" for u
      using "1.prems"(3) [unfolded merged_but_def, rule_format, OF that] True "1.prems"(1) that
      by (cases "u = t") (auto simp: index_count_contents)
    ultimately show ?thesis using "1.prems" by (simp add: merged_but_def)
  next
    case False
    with "1.prems" have two: "size_count t (contents st) = 2" "2 \<le> index_count t st"
      by (auto simp: merged_but_def index_count_contents order.antisym)
    obtain s1 js1 s2 js2 M st1 where st1: "merge_step t st = Some st1" "slots_wf st1" "total s1 = t" "total s2 = t"
      "contents st = add_mset (s1, js1) (add_mset (s2, js2) M)"
      "contents st1 = add_mset (\<lparr>total = slot_times t 2, idle = slot_plus (idle s1) (idle s2)\<rparr>, js1 @ js2) M"
      using merge_step_wf [OF "1.prems"(1) two(2)] by metis
    have rest: "size_count u M \<le> 1" if "slot_times u 2 \<in> set possible" for u
    proof (cases "u = t")
      case True
      with two(1) st1(3-5) show ?thesis by simp
    next
      case False
      then have "size_count u (contents st) \<le> 1"
        using "1.prems"(3) [unfolded merged_but_def, rule_format, OF that] by simp
      with st1(3-5) False show ?thesis by simp
    qed
    have none: "size_count t M = 0" using two(1) st1(3-5) by simp
    have m: "merged_but possible (Some (slot_times t 2)) (contents st1)"
      using rest none st1(6) by (auto simp: merged_but_def)
    have i: "1 \<le> index_count (slot_times t 2) st1" using st1 by (simp add: index_count_contents)
    have e: "merge_slots possible (slot_times t 2) st1 = Some st'"
      using "1.prems"(4) False st1(1) by (simp add: merge_slots.simps [of possible t st])
    show ?thesis
      using "1.IH" [OF _ _ st1(1,2) i m e] False by simp
  qed
qed

lemma size_count_put_job:
  "size_count t (mset (map (snd \<circ> (\<lambda>(m, s, js). if m = n then (m, s\<lparr>idle := f s\<rparr>, g js) else (m, s, js))) ns)) =
   size_count t (mset (map snd ns))"
  by (induction ns) (simp_all split: prod.splits if_splits)

lemma select_job_merged:
  assumes "slots_wf st" and ne: "possible \<noteq> []" and "merged_but possible None (contents st)" and "select_job possible job st = Some st'"
  shows "slots_wf st' \<and> merged_but possible None (contents st')"
proof (cases "best_slot (requiredCapacity job) (nodes st) None")
  case None
  then obtain slot where slot: "getMinFitSlot possible (requiredCapacity job) = Some slot"
    using assms(4) by (auto simp: select_job_def split: option.splits)
  let ?s = "\<lparr>total = slot, idle = slot_minus slot (requiredCapacity job)\<rparr>"
  note ins = insert_slot_wf [OF assms(1), of ?s slot "[qj_id job]", simplified]
  have "merged_but possible (Some slot) (contents (insert_slot ?s [qj_id job] slot st))"
    using assms(3) ins(2) by (auto simp: merged_but_def)
  moreover have "1 \<le> index_count slot (insert_slot ?s [qj_id job] slot st)"
    using ins by (simp add: index_count_contents)
  ultimately show ?thesis
    using merge_slots_merged [OF ins(1)] assms(4) None slot by (simp add: select_job_def)
next
  case (Some p)
  with assms(4) have "\<exists>n. nodes st' = map (\<lambda>(m, s, js). if m = n
      then (m, s\<lparr>idle := slot_minus (idle s) (requiredCapacity job)\<rparr>, js @ [qj_id job]) else (m, s, js)) (nodes st)"
    by (auto simp: select_job_def split: prod.splits)
  then obtain n where "nodes st' = map (\<lambda>(m, s, js). if m = n
      then (m, s\<lparr>idle := slot_minus (idle s) (requiredCapacity job)\<rparr>, js @ [qj_id job]) else (m, s, js)) (nodes st)" ..
  then have "size_count t (contents st') = size_count t (contents st)" for t
    using size_count_put_job [of t n "\<lambda>s. slot_minus (idle s) (requiredCapacity job)" "\<lambda>js. js @ [qj_id job]" "nodes st"]
    by simp
  moreover have "select_closed possible {job} (\<lambda>_ _. True)" by (simp add: select_closed_def merge_closed_def)
  then have "slots_wf st'"
    using select_job_invariant [of possible "{job}" "\<lambda>_ _. True" job st "[]"] assms by auto
  ultimately show ?thesis using assms(3) by (simp add: merged_but_def)
qed

lemma select_loop_merged:
  assumes ne: "possible \<noteq> []"
  shows "slots_wf st \<Longrightarrow> merged_but possible None (contents st) \<Longrightarrow> select_loop possible jobs st = Some st' \<Longrightarrow>
   merged_but possible None (contents st')"
proof (induction jobs arbitrary: st)
  case (Cons job jobs)
  from Cons.prems(3) obtain st1 where "select_job possible job st = Some st1" "select_loop possible jobs st1 = Some st'"
    by (auto split: option.splits)
  with select_job_merged [OF Cons.prems(1) ne Cons.prems(2)] Cons.IH show ?case by blast
qed simp

section \<open>What the selection guarantees\<close>

text \<open>
  C12. The selection returns for every non-empty list of offered sizes. Every job gets exactly one
  new slot and no other job gets one; the slots are numbered 0, 1, ... without a gap; every slot
  has an offered size and at least one job.
\<close>

theorem select_places_every_job:
  assumes "possible \<noteq> []" and "distinct (map qj_id jobs)"
  shows "\<exists>assignments slotMap. select possible jobs = Some (assignments, slotMap) \<and>
     mset (map fst assignments) = mset (map qj_id jobs) \<and>
     map fst slotMap = [0..<length slotMap] \<and>
     (\<forall>(i, s) \<in> set slotMap. total s \<in> set possible \<and> (\<exists>j. (j, DesiredVm i) \<in> set assignments)) \<and>
     (\<forall>(j, v) \<in> set assignments. \<exists>i < length slotMap. v = DesiredVm i)"
proof -
  obtain ns sorted st where sel: "select possible jobs = Some (job_assignments ns, slot_map ns)"
    and tot: "\<forall>p \<in># mset ns. total (fst p) \<in> set possible" and hold: "holds_jobs sorted (mset ns)"
    and m: "mset (concat (map snd ns)) = mset (map qj_id jobs)"
    by (rule select_spec [OF possible_closed _ assms]) auto
  have len: "length (slot_map ns) = length ns" by (metis length_map slot_map_snd)
  have "\<forall>(i, s) \<in> set (slot_map ns). total s \<in> set possible \<and> (\<exists>j. (j, DesiredVm i) \<in> set (job_assignments ns))"
  proof (clarify)
    fix i s assume "(i, s) \<in> set (slot_map ns)"
    then obtain js where i: "i < length ns" "ns ! i = (s, js)" by (auto simp: set_slot_map)
    then have mem: "(s, js) \<in># mset ns" by (metis nth_mem set_mset_mset)
    with hold have "js \<noteq> []" by (force simp: holds_jobs_def)
    then have "(hd js, DesiredVm i) \<in> set (job_assignments ns)" using i by (simp add: set_job_assignments)
    with tot mem show "total s \<in> set possible \<and> (\<exists>j. (j, DesiredVm i) \<in> set (job_assignments ns))" by force
  qed
  moreover have "\<forall>(j, v) \<in> set (job_assignments ns). \<exists>i < length (slot_map ns). v = DesiredVm i"
    by (auto simp: set_job_assignments len)
  ultimately show ?thesis
    using sel m len keys_job_assignments [of ns] by (auto simp: slot_map_fst simp flip: mset_map)
qed

definition ex_possible :: "SlotCapacity list" where
  "ex_possible = [SlotCapacity 1 4, SlotCapacity 2 8, SlotCapacity 4 16]"

definition ex_jobs :: "QueuedJobInfo list" where
  "ex_jobs = [mk_job 11 1 3, mk_job 12 1 4, mk_job 13 1 2, mk_job 14 3 9]"

lemma ex_select: "select ex_possible ex_jobs =
    Some ([(14, DesiredVm 0), (12, DesiredVm 0), (11, DesiredVm 1), (13, DesiredVm 1)],
          [(0, \<lparr>total = SlotCapacity 4 16, idle = SlotCapacity 0 3\<rparr>),
           (1, \<lparr>total = SlotCapacity 2 8, idle = SlotCapacity 0 3\<rparr>)])"
  by code_simp

theorem select_places_every_job_witness:
  "ex_possible \<noteq> [] \<and> distinct (map qj_id ex_jobs) \<and>
   (\<exists>assignments slotMap. select ex_possible ex_jobs = Some (assignments, slotMap) \<and>
     mset (map fst assignments) = {#11, 12, 13, 14#} \<and> map fst slotMap = [0..<length slotMap])"
proof -
  have h: "ex_possible \<noteq> []" "distinct (map qj_id ex_jobs)" by code_simp+
  have "mset (map qj_id ex_jobs) = {#11, 12, 13, 14#}" by (simp add: ex_jobs_def mk_job_def)
  with h select_places_every_job [OF h] show ?thesis by metis
qed

text \<open>The jobs the assignments put into a new slot.\<close>

definition jobs_new :: "(JobId \<times> VmInfo) list \<Rightarrow> DesiredSlotId \<Rightarrow> QueuedJobInfo list \<Rightarrow> QueuedJobInfo list" where
  "jobs_new assignments i jobs = filter (\<lambda>job. map_of assignments (qj_id job) = Some (DesiredVm i)) jobs"

text \<open>The size found for a requirement fits it.\<close>

definition servable :: "SlotCapacity list \<Rightarrow> SlotCapacity \<Rightarrow> bool" where
  "servable possible c = (case getMinFitSlot possible c of None \<Rightarrow> True | Some s \<Rightarrow> fits c s)"

lemma load_jobs:
  assumes "distinct (map qj_id jobs)" and "\<forall>job \<in> set jobs. need (qj_id job) = requiredCapacity job"
    and "distinct js" and "set js \<subseteq> qj_id ` set jobs"
  shows "load f need js = sum_list (map (f \<circ> requiredCapacity) (filter (\<lambda>job. qj_id job \<in> set js) jobs))"
proof -
  let ?on = "filter (\<lambda>job. qj_id job \<in> set js) jobs"
  have "set (map qj_id ?on) = set js" using assms(4) by auto
  moreover have "distinct (map qj_id ?on)" using assms(1) by (simp add: distinct_map_filter)
  ultimately have ids: "mset (map qj_id ?on) = mset js"
    using assms(3) by (simp only: set_eq_iff_mset_eq_distinct)
  have "load f need js = sum_mset (image_mset (f \<circ> need) (mset js))"
    by (simp add: load_def sum_mset_sum_list flip: mset_map)
  also have "\<dots> = sum_list (map (f \<circ> need) (map qj_id ?on))"
    by (simp only: sum_mset_sum_list flip: ids mset_map)
  also have "\<dots> = sum_list (map (f \<circ> requiredCapacity) ?on)"
    unfolding map_map by (rule arg_cong [of _ _ sum_list], rule map_cong) (use assms(2) in auto)
  finally show ?thesis .
qed

lemma select_exact:
  assumes "possible \<noteq> []" and "distinct (map qj_id jobs)" and "\<forall>s \<in> set possible. cap_ok s"
    and "\<forall>job \<in> set jobs. servable possible (requiredCapacity job)"
    and res: "select possible jobs = Some (a, m)" and slot: "(i, s) \<in> set m"
  shows "ncpu (total s) = ncpu (idle s) + sum_cpu (jobs_new a i jobs) \<and> nram (total s) = nram (idle s) + sum_ram (jobs_new a i jobs)"
proof -
  define need where "need = (\<lambda>j. the (map_of (map (\<lambda>job. (qj_id job, requiredCapacity job)) jobs) j))"
  have "map_of (map (\<lambda>job. (qj_id job, requiredCapacity job)) jobs) (qj_id job) = Some (requiredCapacity job)"
    if "job \<in> set jobs" for job
    using that assms(2) by (intro map_of_is_SomeI) (auto simp: comp_def)
  then have need: "\<forall>job \<in> set jobs. need (qj_id job) = requiredCapacity job" by (simp add: need_def)
  have serve: "\<forall>job \<in> set jobs. \<forall>s. getMinFitSlot possible (requiredCapacity job) = Some s \<longrightarrow> fits (requiredCapacity job) s"
    using assms(4) by (auto simp: servable_def split: option.splits)
  obtain ns srt st where "select possible jobs = Some (job_assignments ns, slot_map ns)"
    and full: "\<forall>p \<in># mset ns. slot_full need p" and d: "distinct (concat (map snd ns))"
    and ms: "mset (concat (map snd ns)) = mset (map qj_id jobs)"
    by (rule select_spec [OF slot_full_closed [OF assms(3) serve need] _ assms(1,2)]) auto
  then have am: "a = job_assignments ns" "m = slot_map ns" using res by simp_all
  obtain js where i: "i < length ns" "ns ! i = (s, js)" using slot by (auto simp: set_slot_map am)
  then have mem: "(s, js) \<in> set ns" by (metis nth_mem)
  then have "set js \<subseteq> qj_id ` set jobs"
    using ms by (metis UN_upper image_eqI in_set_conv_nth list.set_map mset_eq_setD set_concat snd_conv)
  moreover have "distinct js" using d mem by (auto simp: distinct_concat_iff)
  ultimately have load: "load f need js = sum_list (map (f \<circ> requiredCapacity) (filter (\<lambda>job. qj_id job \<in> set js) jobs))" for f
    by (intro load_jobs [OF assms(2) need])
  have "jobs_new a i jobs = filter (\<lambda>job. qj_id job \<in> set js) jobs"
    by (simp add: jobs_new_def am map_of_job_assignments [OF d i])
  moreover have "slot_full need (s, js)" using full mem by simp
  ultimately show ?thesis by (simp add: slot_full_def load sum_cpu_def sum_ram_def comp_def)
qed

text \<open>
  C11. Where every size is in range and every job fits the size found for it, no new slot is
  overcommitted: its size is exactly its idle capacity plus the requirements of the jobs assigned
  to it, in both dimensions, whatever merging happened.
\<close>

theorem select_capacity:
  assumes "possible \<noteq> []" and "distinct (map qj_id jobs)" and "\<forall>s \<in> set possible. cap_ok s"
    and "\<forall>job \<in> set jobs. servable possible (requiredCapacity job)"
  shows "\<exists>assignments slotMap. select possible jobs = Some (assignments, slotMap) \<and>
     (\<forall>(i, s) \<in> set slotMap. ncpu (total s) = ncpu (idle s) + sum_cpu (jobs_new assignments i jobs) \<and>
        nram (total s) = nram (idle s) + sum_ram (jobs_new assignments i jobs))"
proof -
  obtain ns srt st where "select possible jobs = Some (job_assignments ns, slot_map ns)"
    by (rule select_spec [OF possible_closed _ assms(1,2)]) auto
  with select_exact [OF assms this] show ?thesis by blast
qed

theorem select_capacity_witness:
  "list_all cap_ok ex_possible \<and>
   (\<exists>assignments slotMap. select ex_possible ex_jobs = Some (assignments, slotMap) \<and>
     list_all (\<lambda>(i, s). ncpu (total s) = ncpu (idle s) + sum_cpu (jobs_new assignments i ex_jobs) \<and>
        nram (total s) = nram (idle s) + sum_ram (jobs_new assignments i ex_jobs)) slotMap)"
proof -
  have ok: "\<forall>s \<in> set ex_possible. cap_ok s" by (simp add: ex_possible_def cap_ok_def)
  have h: "ex_possible \<noteq> []" "distinct (map qj_id ex_jobs)" "\<forall>job \<in> set ex_jobs. servable ex_possible (requiredCapacity job)"
    by code_simp+
  from select_capacity [OF h(1,2) ok h(3)] ok show ?thesis unfolding list_all_iff by blast
qed

text \<open>
  C20. The selection leaves nothing to merge: of a size whose double is offered, at most one slot
  is created.
\<close>

theorem select_merged:
  assumes "possible \<noteq> []" and "distinct (map qj_id jobs)" and "slot_times t 2 \<in> set possible"
  shows "\<exists>assignments slotMap. select possible jobs = Some (assignments, slotMap) \<and>
     length (filter (\<lambda>(i, s). total s = t) slotMap) \<le> 1"
proof -
  obtain ns sorted st where sel: "select possible jobs = Some (job_assignments ns, slot_map ns)"
    and st: "select_loop possible sorted empty_slots = Some st" "ns = map snd (nodes st)"
    by (rule select_spec [OF possible_closed _ assms(1,2)]) auto
  have "merged_but possible None (contents st)"
    by (rule select_loop_merged [OF assms(1) slots_wf_empty _ st(1)])
       (simp add: merged_but_def empty_slots_def)
  then have "size_count t (mset ns) \<le> 1" using assms(3) st(2) by (simp add: merged_but_def)
  moreover have "length (filter (\<lambda>(i, s). total s = t) xs) = length (filter (\<lambda>s. total s = t) (map snd xs))"
    for xs :: DesiredSlotMap by (induction xs) auto
  moreover have "length (filter (\<lambda>s. total s = t) (map fst ns)) = size_count t (mset ns)"
    by (induction ns) auto
  ultimately have "length (filter (\<lambda>(i, s). total s = t) (slot_map ns)) \<le> 1"
    by (metis slot_map_snd)
  with sel show ?thesis by blast
qed

theorem select_merged_witness:
  "slot_times (SlotCapacity 2 8) 2 \<in> set ex_possible \<and>
   (\<exists>assignments slotMap. select ex_possible ex_jobs = Some (assignments, slotMap) \<and>
     length (filter (\<lambda>(i, s). total s = SlotCapacity 2 8) slotMap) \<le> 1)"
proof -
  have h: "ex_possible \<noteq> []" "distinct (map qj_id ex_jobs)" "slot_times (SlotCapacity 2 8) 2 \<in> set ex_possible"
    by code_simp+
  with select_merged [OF h] show ?thesis by blast
qed

text \<open>
  C21. Where the offered sizes form a chain (each fits into the next), the size found for a job is
  the least offered size the job fits, and a job that fits none gets the largest size.
\<close>

theorem getMinFitSlot_chain:
  assumes "possible \<noteq> []" and "sorted_wrt fits possible"
  shows "\<exists>s. getMinFitSlot possible r = Some s \<and>
     (if \<exists>t \<in> set possible. fits r t
      then s \<in> set possible \<and> fits r s \<and> (\<forall>t \<in> set possible. fits r t \<longrightarrow> fits s t)
      else s = last possible)"
proof -
  define before where "before = (\<lambda>lhs. \<not> fits r lhs)"
  define i where "i = lower_bound before possible"
  have part: "before (possible ! k)" if "k < l" "l < length possible" "before (possible ! l)" for k l
    using that assms(2) fits_trans unfolding before_def by (metis sorted_wrt_iff_nth_less)
  have below: "\<not> fits r (possible ! k)" if "k < i" for k
    using lower_bound_partitioned [of possible before k] part that by (auto simp: before_def i_def)
  show ?thesis
  proof (cases "i < length possible")
    case True
    then have fit: "fits r (possible ! i)"
      using lower_bound_hit [of before possible] by (simp add: before_def i_def)
    have least: "fits (possible ! i) t" if t: "t \<in> set possible" "fits r t" for t
    proof -
      obtain k where k: "k < length possible" "t = possible ! k" using t(1) by (metis in_set_conv_nth)
      with below t(2) have "i \<le> k" by (meson not_le)
      with k assms(2) show ?thesis by (cases "i = k") (auto simp: sorted_wrt_iff_nth_less)
    qed
    have "getMinFitSlot possible r = Some (possible ! i)"
      using True assms(1) by (auto simp: getMinFitSlot_def Let_def i_def before_def)
    with fit least True show ?thesis by (metis nth_mem)
  next
    case False
    then have "i = length possible" using lower_bound_le [of before possible] by (simp add: i_def)
    then have "getMinFitSlot possible r = Some (last possible)" "\<forall>t \<in> set possible. \<not> fits r t"
      using assms(1) below by (auto simp: getMinFitSlot_def Let_def i_def before_def in_set_conv_nth)
    then show ?thesis by simp
  qed
qed

theorem getMinFitSlot_chain_witness:
  "sorted_wrt fits ex_possible \<and>
   (\<exists>s. getMinFitSlot ex_possible (SlotCapacity 1 5) = Some s \<and> fits (SlotCapacity 1 5) s \<and>
     list_all (fits s) (filter (fits (SlotCapacity 1 5)) ex_possible))"
proof -
  have h: "ex_possible \<noteq> []" "sorted_wrt fits ex_possible" "\<exists>t \<in> set ex_possible. fits (SlotCapacity 1 5) t"
    by code_simp+
  with getMinFitSlot_chain [OF h(1,2), of "SlotCapacity 1 5"] show ?thesis by (auto simp: list_all_iff)
qed

text \<open>
  Without the chain the binary search can miss: for the offered sizes (1 core, 8 MB) and
  (2 cores, 4 MB), sorted as the constructor requires, a job of 1 core and 6 MB is given the size
  (2 cores, 4 MB), which it does not fit, although (1 core, 8 MB) is offered; the slot created for
  it records no deficit.
\<close>

lemma getMinFitSlot_misses:
  "sorted [SlotCapacity 1 8, SlotCapacity 2 4] \<and>
   fits (SlotCapacity 1 6) (SlotCapacity 1 8) \<and> \<not> fits (SlotCapacity 1 6) (SlotCapacity 2 4) \<and>
   getMinFitSlot [SlotCapacity 1 8, SlotCapacity 2 4] (SlotCapacity 1 6) = Some (SlotCapacity 2 4) \<and>
   select [SlotCapacity 1 8, SlotCapacity 2 4] [mk_job 7 1 6] =
     Some ([(7, DesiredVm 0)], [(0, \<lparr>total = SlotCapacity 2 4, idle = SlotCapacity 1 0\<rparr>)])"
  by code_simp

end
