(* ===== verification/VmAssigner.thy ===== *)
theory VmAssigner
  imports SlotSelector
begin

text \<open>
  The two assigners behind \<^verbatim>\<open>VmAssigner\<close> (\<^verbatim>\<open>simple_vm_assigner.cpp\<close>, \<^verbatim>\<open>complex_vm_assigner.cpp\<close>) and
  their factory (\<^verbatim>\<open>create_vm_assigner.cpp\<close>). The locale \<open>vm_assigner\<close> states what the rest of the
  system relies on: the change an assigner proposes is valid for the state it was made from.
\<close>

section \<open>Operations\<close>

text \<open>The loop of \<^verbatim>\<open>SimpleVmAssigner::assign\<close>: one new VM per job, of exactly the job's size.\<close>

fun simple_loop :: "nat \<Rightarrow> QueuedJobInfo list \<Rightarrow> JobToVm \<Rightarrow> DesiredSlotMap \<Rightarrow> JobToVm \<times> DesiredSlotMap" where
  "simple_loop next [] vmAssignments slotMap = (vmAssignments, slotMap)"
| "simple_loop next (job # jobs) vmAssignments slotMap =
     simple_loop (Suc next) jobs (umap_assign (qj_id job) (DesiredVm next) vmAssignments)
       (umap_emplace next \<lparr>total = requiredCapacity job, idle = SlotCapacity 0 0\<rparr> slotMap)"

definition SimpleVmAssigner_assign :: "State \<Rightarrow> StateChange" where
  "SimpleVmAssigner_assign state =
     (let (vmAssignments, slotMap) = simple_loop 0 (queuedJobs state) [] []
      in \<lparr>jobToVm = vmAssignments, desiredSlotMap = slotMap, updatedIdleCapacities = [],
          vmsToTerminate = map avm_id (filter (\<lambda>vm. totalCapacity vm = idleCapacity vm) (vms state))\<rparr>)"

text \<open>\<open>None\<close> is a placement that does not return (next fit) or an empty list of sizes.\<close>

definition ComplexVmAssigner_assign ::
    "ComplexVmAssignerConfig \<Rightarrow> SlotCapacity list \<Rightarrow> State \<Rightarrow> StateChange option" where
  "ComplexVmAssigner_assign config possibleSlots state =
     (case assign_loop JobAllocator_allocate (createOrderedJobs (jobOrdering config) (queuedJobs state))
             (createJobAllocator (allocationStrategy config) (vms state)) [] [] of
        None \<Rightarrow> None
      | Some (jobToExistingVms, unallocatedJobs, jobAllocator) \<Rightarrow>
          (case select possibleSlots unallocatedJobs of
             None \<Rightarrow> None
           | Some (jobToVms, slotMap) \<Rightarrow>
               Some \<lparr>jobToVm = umap_merge jobToVms jobToExistingVms,
                     desiredSlotMap = slotMap,
                     updatedIdleCapacities = JobAllocator_getVmsWithUpdatedCapacities jobAllocator,
                     vmsToTerminate = JobAllocator_getIdleVms jobAllocator\<rparr>))"

datatype VmAssignerType = Simple | Complex

fun toString_VmAssignerType :: "VmAssignerType \<Rightarrow> string" where
  "toString_VmAssignerType Simple = ''simple''"
| "toString_VmAssignerType Complex = ''complex''"

definition vmAssignerTypeFromString :: "string \<Rightarrow> VmAssignerType option" where
  "vmAssignerTypeFromString str = map_of [(''simple'', Simple), (''complex'', Complex)] str"

text \<open>
  The factory followed by \<^verbatim>\<open>assign()\<close>. Dereferencing an absent complex configuration is undefined
  behaviour; it is \<open>None\<close> here.
\<close>

fun createVmAssigner_assign ::
    "VmAssignerType \<Rightarrow> ComplexVmAssignerConfig option \<Rightarrow> SlotCapacity list \<Rightarrow> State \<Rightarrow> StateChange option" where
  "createVmAssigner_assign Simple config possibleSlots state = Some (SimpleVmAssigner_assign state)"
| "createVmAssigner_assign Complex None possibleSlots state = None"
| "createVmAssigner_assign Complex (Some config) possibleSlots state =
     ComplexVmAssigner_assign config possibleSlots state"

section \<open>The contract\<close>

text \<open>The jobs a change puts on an existing VM, and the idle capacity it leaves there.\<close>

definition jobs_put :: "State \<Rightarrow> StateChange \<Rightarrow> VmId \<Rightarrow> QueuedJobInfo list" where
  "jobs_put state ch v = filter (\<lambda>job. map_of (jobToVm ch) (qj_id job) = Some (ExistingVm v)) (queuedJobs state)"

definition idle_after :: "StateChange \<Rightarrow> ActiveVm \<Rightarrow> SlotCapacity" where
  "idle_after ch vm = (case map_of (updatedIdleCapacities ch) (avm_id vm) of
     Some c \<Rightarrow> c | None \<Rightarrow> idleCapacity vm)"

definition state_ok :: "State \<Rightarrow> bool" where
  "state_ok state \<longleftrightarrow> distinct (map qj_id (queuedJobs state)) \<and> distinct (vm_ids (vms state)) \<and>
     (\<forall>vm \<in> set (vms state). cap_ok (idleCapacity vm))"

definition covers_jobs :: "State \<Rightarrow> StateChange \<Rightarrow> bool" where
  "covers_jobs state ch \<longleftrightarrow> distinct (map fst (jobToVm ch)) \<and> keys (jobToVm ch) = qj_id ` set (queuedJobs state) \<and>
     (\<forall>(j, target) \<in> set (jobToVm ch). case target of
        ExistingVm v \<Rightarrow> v \<in> avm_id ` set (vms state) | DesiredVm i \<Rightarrow> i \<in> keys (desiredSlotMap ch)) \<and>
     distinct (map fst (desiredSlotMap ch)) \<and>
     (\<forall>i \<in> keys (desiredSlotMap ch). \<exists>j. map_of (jobToVm ch) j = Some (DesiredVm i))"

definition balances :: "State \<Rightarrow> StateChange \<Rightarrow> bool" where
  "balances state ch \<longleftrightarrow> keys (updatedIdleCapacities ch) \<subseteq> avm_id ` set (vms state) \<and>
     (\<forall>vm \<in> set (vms state).
       ncpu (idleCapacity vm) = ncpu (idle_after ch vm) + sum_cpu (jobs_put state ch (avm_id vm)) \<and>
       nram (idleCapacity vm) = nram (idle_after ch vm) + sum_ram (jobs_put state ch (avm_id vm)))"

definition terminates_idle :: "State \<Rightarrow> StateChange \<Rightarrow> bool" where
  "terminates_idle state ch \<longleftrightarrow>
     set (vmsToTerminate ch) = avm_id ` {vm \<in> set (vms state). totalCapacity vm = idle_after ch vm}"

definition valid_change :: "State \<Rightarrow> StateChange \<Rightarrow> bool" where
  "valid_change state ch \<longleftrightarrow> covers_jobs state ch \<and> balances state ch \<and> terminates_idle state ch"

locale vm_assigner =
  fixes assign :: "State \<Rightarrow> StateChange option"
    and usable :: "State \<Rightarrow> bool"
  assumes assign_valid: "usable state \<Longrightarrow> state_ok state \<Longrightarrow> \<exists>ch. assign state = Some ch \<and> valid_change state ch"
begin

lemma assign_returns: "usable state \<Longrightarrow> state_ok state \<Longrightarrow> assign state \<noteq> None"
  using assign_valid by fastforce

lemma no_overcommit:
  assumes "usable state" and "state_ok state" and "assign state = Some ch" and "vm \<in> set (vms state)"
  shows "sum_cpu (jobs_put state ch (avm_id vm)) \<le> ncpu (idleCapacity vm) \<and>
     sum_ram (jobs_put state ch (avm_id vm)) \<le> nram (idleCapacity vm)"
  using assms assign_valid [OF assms(1,2)] by (auto simp: valid_change_def balances_def)

lemma terminated_has_no_load:
  assumes "usable state" and "state_ok state" and "assign state = Some ch"
    and "vm \<in> set (vms state)" and "avm_id vm \<in> set (vmsToTerminate ch)" and "fits (idleCapacity vm) (totalCapacity vm)"
  shows "idleCapacity vm = totalCapacity vm \<and> sum_cpu (jobs_put state ch (avm_id vm)) = 0 \<and>
     sum_ram (jobs_put state ch (avm_id vm)) = 0"
proof -
  have v: "valid_change state ch" using assign_valid assms by fastforce
  then obtain w where w: "w \<in> set (vms state)" "avm_id w = avm_id vm" "totalCapacity w = idle_after ch w"
    using assms(5) by (auto simp: valid_change_def terminates_idle_def)
  have "distinct (vm_ids (vms state))" using assms(2) by (simp add: state_ok_def)
  then have "w = vm" using w assms(4) by (metis vm_map_Some_iff option.inject)
  then show ?thesis
    using w(3) v assms(4,6) by (auto simp: valid_change_def balances_def fits_nat slot_eq_nat)
qed

end

section \<open>The simple assigner\<close>

definition simple_slots :: "QueuedJobInfo list \<Rightarrow> (DesiredSlot \<times> JobId list) list" where
  "simple_slots jobs = map (\<lambda>job. (\<lparr>total = requiredCapacity job, idle = SlotCapacity 0 0\<rparr>, [qj_id job])) jobs"

lemma simple_loop_number_slots: "simple_loop k jobs a m = number_slots k (simple_slots jobs) a m"
  by (induction jobs arbitrary: k a m) (simp_all add: simple_slots_def)

lemma concat_simple_slots [simp]: "concat (map snd (simple_slots jobs)) = map qj_id jobs"
  by (induction jobs) (simp_all add: simple_slots_def)

lemma simple_loop_eq:
  assumes "distinct (map qj_id jobs)"
  shows "simple_loop 0 jobs [] [] = (job_assignments (simple_slots jobs), slot_map (simple_slots jobs))"
  using number_slots_eq [of "simple_slots jobs" "[]" "[]" 0] assms
  by (simp add: simple_loop_number_slots job_assignments_def slot_map_def)

text \<open>Numbered slots, none empty, that hold every queued job.\<close>

lemma job_assignments_no_existing: "map_of (job_assignments ns) j \<noteq> Some (ExistingVm v)"
  by (auto simp: set_job_assignments dest!: map_of_SomeD)

lemma slot_map_has_job:
  assumes "distinct (concat (map snd ns))" and "\<forall>p \<in> set ns. snd p \<noteq> []" and "i \<in> keys (slot_map ns)"
  shows "\<exists>j. map_of (job_assignments ns) j = Some (DesiredVm i)"
proof -
  obtain s js where i: "i < length ns" "ns ! i = (s, js)"
    using assms(3) by (auto simp: set_slot_map)
  then have "js \<noteq> []" using assms(2) by (metis nth_mem snd_conv)
  then show ?thesis using map_of_job_assignments [OF assms(1) i, of "hd js"] by auto
qed

lemma job_assignments_target:
  "(j, target) \<in> set (job_assignments ns) \<Longrightarrow> \<exists>i \<in> keys (slot_map ns). target = DesiredVm i"
  by (auto simp: set_job_assignments slot_map_fst simp del: set_map)

lemma SimpleVmAssigner_valid:
  assumes "state_ok state"
  shows "valid_change state (SimpleVmAssigner_assign state)"
proof -
  let ?ns = "simple_slots (queuedJobs state)"
  let ?ch = "SimpleVmAssigner_assign state"
  have d: "distinct (map qj_id (queuedJobs state))" using assms by (simp add: state_ok_def)
  have ch: "jobToVm ?ch = job_assignments ?ns" "desiredSlotMap ?ch = slot_map ?ns" "updatedIdleCapacities ?ch = []"
    "set (vmsToTerminate ?ch) = avm_id ` {vm \<in> set (vms state). totalCapacity vm = idleCapacity vm}"
    by (auto simp: SimpleVmAssigner_assign_def simple_loop_eq [OF d])
  have "\<forall>p \<in> set ?ns. snd p \<noteq> []" by (auto simp: simple_slots_def)
  then have has: "\<forall>i \<in> keys (slot_map ?ns). \<exists>j. map_of (job_assignments ?ns) j = Some (DesiredVm i)"
    using slot_map_has_job [of ?ns] d by simp
  have "\<forall>(j, target) \<in> set (job_assignments ?ns). case target of
      ExistingVm v \<Rightarrow> v \<in> avm_id ` set (vms state) | DesiredVm i \<Rightarrow> i \<in> keys (slot_map ?ns)"
    using job_assignments_target by fastforce
  moreover have "keys (job_assignments ?ns) = qj_id ` set (queuedJobs state)"
    by (simp add: keys_job_assignments del: set_map) simp
  moreover have "distinct (map fst (job_assignments ?ns))" "distinct (map fst (slot_map ?ns))"
    using d by (simp_all add: keys_job_assignments slot_map_fst)
  ultimately have "covers_jobs state ?ch"
    using has unfolding covers_jobs_def ch by blast
  moreover have "jobs_put state ?ch v = []" for v
    by (simp add: jobs_put_def ch job_assignments_no_existing)
  then have "balances state ?ch" by (simp add: balances_def idle_after_def ch)
  moreover have "terminates_idle state ?ch" by (simp add: terminates_idle_def idle_after_def ch)
  ultimately show ?thesis by (simp add: valid_change_def)
qed

interpretation simple_assigner: vm_assigner "\<lambda>state. Some (SimpleVmAssigner_assign state)" "\<lambda>_. True"
  by unfold_locales (simp add: SimpleVmAssigner_valid)

section \<open>The complex assigner\<close>

text \<open>
  Usable: sizes are offered, and the strategy is not next fit with VMs to look at.
\<close>

definition complex_usable :: "ComplexVmAssignerConfig \<Rightarrow> SlotCapacity list \<Rightarrow> State \<Rightarrow> bool" where
  "complex_usable config possible state \<longleftrightarrow>
     possible \<noteq> [] \<and> (allocationStrategy config = NextFitStrategy \<longrightarrow> vms state = [])"

lemma createJobAllocator_start:
  assumes "strat = NextFitStrategy \<longrightarrow> vs = []"
  shows "JobAllocator_invar (createJobAllocator strat vs) \<and>
    mset (JobAllocator_vms (createJobAllocator strat vs)) = mset vs \<and>
    JobAllocator_updated (createJobAllocator strat vs) = {}"
  using assms by (cases strat)
    (simp_all add: NextFit_init_def WorstFit_init_def BestFit_init_def ascends_multiset_of_range std_sort.mset_srt)

lemma complex_assign_spec:
  assumes use: "complex_usable config possible state" and ok: "state_ok state"
  obtains P rest st ns where
    "ComplexVmAssigner_assign config possible state =
       Some \<lparr>jobToVm = umap_merge (job_assignments ns) (assignments_of P), desiredSlotMap = slot_map ns,
         updatedIdleCapacities = getVmsWithUpdatedCapacities (JobAllocator_vms st) (JobAllocator_updated st),
         vmsToTerminate = getIdleVms (JobAllocator_vms st)\<rparr>"
    "select possible rest = Some (job_assignments ns, slot_map ns)"
    "mset (queuedJobs state) = mset (map fst P) + mset rest"
    "conserves (vms state) P (JobAllocator_vms st)" "distinct (vm_ids (JobAllocator_vms st))"
    "JobAllocator_updated st = snd ` set P" "snd ` set P \<subseteq> avm_id ` set (vms state)"
    "\<forall>p \<in> set ns. snd p \<noteq> []" "distinct (concat (map snd ns))" "mset (concat (map snd ns)) = mset (map qj_id rest)"
proof -
  let ?jobs = "createOrderedJobs (jobOrdering config) (queuedJobs state)"
  let ?st = "createJobAllocator (allocationStrategy config) (vms state)"
  have start: "JobAllocator_invar ?st" "mset (JobAllocator_vms ?st) = mset (vms state)" "JobAllocator_updated ?st = {}"
    using createJobAllocator_start [of "allocationStrategy config" "vms state"] use by (auto simp: complex_usable_def)
  have d: "distinct (vm_ids (vms state))" using ok by (simp add: state_ok_def)
  have same: "set (JobAllocator_vms ?st) = set (vms state)" "vm_map (JobAllocator_vms ?st) = vm_map (vms state)"
    using start(2) vm_map_mset [OF d start(2)] by (auto dest: mset_eq_setD)
  have d': "distinct (vm_ids (JobAllocator_vms ?st))" using d distinct_map_mset [OF start(2)] by metis
  obtain P rest st where loop: "assign_loop JobAllocator_allocate ?jobs ?st [] [] = Some (assignments_of P, rest, st)"
    and jobs: "mset ?jobs = mset (map fst P) + mset rest" and cons: "conserves (JobAllocator_vms ?st) P (JobAllocator_vms st)"
    and fin: "distinct (vm_ids (JobAllocator_vms st))" "JobAllocator_updated st = snd ` set P"
      "snd ` set P \<subseteq> avm_id ` set (vms state)"
    using strategy.assign_loop_conserves [OF start(1) d', of ?jobs "[]" "[]"] ok start(3) same(1)
    by (auto simp: state_ok_def)
  have cons': "conserves (vms state) P (JobAllocator_vms st)" using cons by (simp add: conserves_def same)
  have "mset (map qj_id (map fst P @ rest)) = mset (map qj_id (queuedJobs state))"
    using jobs by (metis mset_append mset_createOrderedJobs mset_map)
  then have "distinct (map qj_id (map fst P @ rest))"
    using ok by (metis mset_eq_imp_distinct_iff state_ok_def)
  then have dr: "distinct (map qj_id rest)" by simp
  have ne: "possible \<noteq> []" using use by (simp add: complex_usable_def)
  obtain ns srt st0 where sel: "select possible rest = Some (job_assignments ns, slot_map ns)"
    and ns: "holds_jobs srt (mset ns)" "distinct (concat (map snd ns))" "mset (concat (map snd ns)) = mset (map qj_id rest)"
    by (rule select_spec [OF possible_closed _ ne dr]) auto
  have "\<forall>p \<in> set ns. snd p \<noteq> []" using ns(1) by (simp add: holds_jobs_def)
  then show thesis
    using that [of ns P st rest] loop sel jobs cons' fin ns by (simp add: ComplexVmAssigner_assign_def)
qed

text \<open>Reading the merged assignment: a left-over job is in a new slot, a placed one on its VM.\<close>

lemma merged_assignment:
  assumes "distinct (map qj_id (map fst P @ rest))" and "mset (concat (map snd ns)) = mset (map qj_id rest)"
  shows "job \<in> set rest \<Longrightarrow> map_of (umap_merge (job_assignments ns) (assignments_of P)) (qj_id job) \<noteq> Some (ExistingVm v)"
    and "(job, w) \<in> set P \<Longrightarrow> map_of (umap_merge (job_assignments ns) (assignments_of P)) (qj_id job) = Some (ExistingVm w)"
proof -
  have keys: "keys (job_assignments ns) = qj_id ` set rest"
    using mset_eq_setD [OF assms(2)] by (simp add: keys_job_assignments del: set_map) simp
  show "map_of (umap_merge (job_assignments ns) (assignments_of P)) (qj_id job) \<noteq> Some (ExistingVm v)"
    if "job \<in> set rest"
  proof -
    have "map_of (job_assignments ns) (qj_id job) \<noteq> None"
      using that keys by (auto simp: map_of_eq_None_iff)
    then show ?thesis
      by (auto simp: map_of_umap_merge job_assignments_no_existing split: option.splits)
  qed
  show "map_of (umap_merge (job_assignments ns) (assignments_of P)) (qj_id job) = Some (ExistingVm w)"
    if "(job, w) \<in> set P"
  proof -
    have "qj_id job \<notin> qj_id ` set rest" using assms(1) that by force
    then have "map_of (job_assignments ns) (qj_id job) = None"
      using keys by (simp add: map_of_eq_None_iff)
    moreover have "map fst (assignments_of P) = map (qj_id \<circ> fst) P" by (simp add: assignments_of_def comp_def case_prod_beta)
    then have "distinct (map fst (assignments_of P))" using assms(1) by simp
    moreover have "(qj_id job, ExistingVm w) \<in> set (assignments_of P)" using that by (force simp: assignments_of_def)
    ultimately show ?thesis by (simp add: map_of_umap_merge)
  qed
qed

lemma jobs_put_complex:
  assumes "mset (queuedJobs state) = mset (map fst P) + mset rest"
    and "distinct (map qj_id (map fst P @ rest))" and "mset (concat (map snd ns)) = mset (map qj_id rest)"
    and "jobToVm ch = umap_merge (job_assignments ns) (assignments_of P)"
  shows "mset (jobs_put state ch v) = mset (jobs_on v P)"
proof -
  let ?f = "\<lambda>job. map_of (jobToVm ch) (qj_id job) = Some (ExistingVm v)"
  note m = merged_assignment [OF assms(2,3), folded assms(4)]
  have "filter ?f rest = []" using m(1) by (simp add: filter_empty_conv)
  moreover have "filter ?f (map fst P) = jobs_on v P"
  proof -
    have "filter ?f (map fst P) = map fst (filter (?f \<circ> fst) P)" by (simp add: filter_map)
    also have "filter (?f \<circ> fst) P = filter (\<lambda>p. snd p = v) P"
      using m(2) by (intro filter_cong) auto
    finally show ?thesis by (simp add: jobs_on_def)
  qed
  ultimately have "mset (jobs_on v P) = filter_mset ?f (mset (map fst P)) + filter_mset ?f (mset rest)"
    by (metis add.right_neutral mset.simps(1) mset_filter)
  also have "\<dots> = filter_mset ?f (mset (queuedJobs state))" using assms(1) by simp
  finally show ?thesis by (simp add: jobs_put_def)
qed

lemma sum_req_mset: "mset xs = mset ys \<Longrightarrow> sum_cpu xs = sum_cpu ys \<and> sum_ram xs = sum_ram ys"
proof -
  assume "mset xs = mset ys"
  then have "mset (map f xs) = mset (map f ys)" for f :: "QueuedJobInfo \<Rightarrow> nat" by simp
  then show ?thesis by (simp add: sum_cpu_def sum_ram_def flip: sum_mset_sum_list)
qed

lemma idle_after_updated:
  assumes d: "distinct (vm_ids (vms state))" "distinct (vm_ids vs)" and c: "conserves (vms state) P vs"
    and ch: "updatedIdleCapacities ch = getVmsWithUpdatedCapacities vs (snd ` set P)" and vm: "vm \<in> set (vms state)"
  obtains vm' where "vm_map vs (avm_id vm) = Some vm'" "idle_after ch vm = idleCapacity vm'"
    "totalCapacity vm' = totalCapacity vm"
    "ncpu (idleCapacity vm) = ncpu (idleCapacity vm') + sum_cpu (jobs_on (avm_id vm) P)"
    "nram (idleCapacity vm) = nram (idleCapacity vm') + sum_ram (jobs_on (avm_id vm) P)"
proof -
  have at: "vm_map (vms state) (avm_id vm) = Some vm" using vm d(1) by (simp add: vm_map_Some_iff)
  then have "avm_id vm \<in> dom (vm_map vs)" using c by (auto simp: conserves_def)
  then obtain vm' where vm': "vm_map vs (avm_id vm) = Some vm'" by auto
  note r = c [unfolded conserves_def, THEN conjunct2, rule_format, OF at vm']
  have "idle_after ch vm = idleCapacity vm'"
  proof (cases "avm_id vm \<in> snd ` set P")
    case True
    then show ?thesis using vm' by (simp add: idle_after_def ch map_of_updated [OF d(2)])
  next
    case False
    then have "jobs_on (avm_id vm) P = []" by (force simp: jobs_on_def filter_empty_conv)
    then have "idleCapacity vm = idleCapacity vm'" using r by (simp add: slot_eq_nat)
    with False show ?thesis by (simp add: idle_after_def ch map_of_updated [OF d(2)])
  qed
  with vm' r show thesis by (intro that) auto
qed

text \<open>What the two phases of the complex assigner leave behind.\<close>

definition complex_outcome ::
    "State \<Rightarrow> placements \<Rightarrow> QueuedJobInfo list \<Rightarrow> ActiveVm list \<Rightarrow> (DesiredSlot \<times> JobId list) list \<Rightarrow> StateChange \<Rightarrow> bool" where
  "complex_outcome state P rest vs ns ch \<longleftrightarrow>
     jobToVm ch = umap_merge (job_assignments ns) (assignments_of P) \<and> desiredSlotMap ch = slot_map ns \<and>
     updatedIdleCapacities ch = getVmsWithUpdatedCapacities vs (snd ` set P) \<and> vmsToTerminate ch = getIdleVms vs \<and>
     mset (queuedJobs state) = mset (map fst P) + mset rest \<and> distinct (map qj_id (map fst P @ rest)) \<and>
     conserves (vms state) P vs \<and> distinct (vm_ids vs) \<and> snd ` set P \<subseteq> avm_id ` set (vms state) \<and>
     (\<forall>p \<in> set ns. snd p \<noteq> []) \<and> distinct (concat (map snd ns)) \<and>
     mset (concat (map snd ns)) = mset (map qj_id rest)"

lemma complex_assign_outcome:
  assumes "complex_usable config possible state" and ok: "state_ok state"
  obtains ch P rest vs ns where "ComplexVmAssigner_assign config possible state = Some ch"
    "complex_outcome state P rest vs ns ch" "select possible rest = Some (job_assignments ns, slot_map ns)"
proof -
  obtain P rest st ns where as: "ComplexVmAssigner_assign config possible state =
       Some \<lparr>jobToVm = umap_merge (job_assignments ns) (assignments_of P), desiredSlotMap = slot_map ns,
         updatedIdleCapacities = getVmsWithUpdatedCapacities (JobAllocator_vms st) (JobAllocator_updated st),
         vmsToTerminate = getIdleVms (JobAllocator_vms st)\<rparr>" (is "_ = Some ?ch")
    and sel: "select possible rest = Some (job_assignments ns, slot_map ns)"
    and jobs: "mset (queuedJobs state) = mset (map fst P) + mset rest"
    and st: "conserves (vms state) P (JobAllocator_vms st)" "distinct (vm_ids (JobAllocator_vms st))"
      "JobAllocator_updated st = snd ` set P" "snd ` set P \<subseteq> avm_id ` set (vms state)"
    and ns: "\<forall>p \<in> set ns. snd p \<noteq> []" "distinct (concat (map snd ns))" "mset (concat (map snd ns)) = mset (map qj_id rest)"
    using complex_assign_spec [OF assms] by metis
  have "distinct (map qj_id (map fst P @ rest))"
    using ok jobs by (metis distinct_map_mset mset_append state_ok_def)
  with jobs st ns have "complex_outcome state P rest (JobAllocator_vms st) ns ?ch"
    by (simp add: complex_outcome_def)
  with as sel that show thesis by blast
qed

lemma complex_covers:
  assumes "complex_outcome state P rest vs ns ch"
  shows "covers_jobs state ch"
proof -
  have o: "jobToVm ch = umap_merge (job_assignments ns) (assignments_of P)" "desiredSlotMap ch = slot_map ns"
      "mset (queuedJobs state) = mset (map fst P) + mset rest" "snd ` set P \<subseteq> avm_id ` set (vms state)"
    and ns: "\<forall>p \<in> set ns. snd p \<noteq> []" "distinct (concat (map snd ns))" "mset (concat (map snd ns)) = mset (map qj_id rest)"
    using assms by (simp_all add: complex_outcome_def)
  have ids: "qj_id ` set (queuedJobs state) = qj_id ` (fst ` set P \<union> set rest)"
    using o(3) by (metis mset_append mset_eq_setD set_append set_map)
  have keysP: "keys (assignments_of P) = qj_id ` fst ` set P" by (force simp: assignments_of_def)
  have keysN: "keys (job_assignments ns) = qj_id ` set rest"
    using mset_eq_setD [OF ns(3)] by (simp add: keys_job_assignments del: set_map) simp
  have dN: "distinct (map fst (job_assignments ns))" using ns(2) by (simp add: keys_job_assignments)
  have "case target of ExistingVm v \<Rightarrow> v \<in> avm_id ` set (vms state) | DesiredVm i \<Rightarrow> i \<in> keys (slot_map ns)"
    if "(j, target) \<in> set (jobToVm ch)" for j target
  proof -
    have "map_of (jobToVm ch) j = Some target" using that dN o(1) by (intro map_of_is_SomeI) simp_all
    then have "(j, target) \<in> set (job_assignments ns) \<or> (j, target) \<in> set (assignments_of P)"
      using o(1) by (auto simp: map_of_umap_merge split: option.splits dest!: map_of_SomeD)
    then show ?thesis
      using job_assignments_target [of j target ns] o(4) by (force simp: assignments_of_def)
  qed
  moreover have "\<exists>j. map_of (jobToVm ch) j = Some (DesiredVm i)" if i: "i \<in> keys (slot_map ns)" for i
  proof -
    obtain j where "map_of (job_assignments ns) j = Some (DesiredVm i)"
      using slot_map_has_job [OF ns(2,1) i] by blast
    then have "map_of (jobToVm ch) j = Some (DesiredVm i)" using o(1) by (simp add: map_of_umap_merge)
    then show ?thesis ..
  qed
  moreover have "keys (jobToVm ch) = qj_id ` set (queuedJobs state)"
    using keysP keysN ids o(1) by (auto simp: image_Un)
  moreover have "distinct (map fst (jobToVm ch))" "distinct (map fst (desiredSlotMap ch))"
    using dN o by (simp_all add: slot_map_fst)
  ultimately show ?thesis unfolding covers_jobs_def o(2) by blast
qed

lemma complex_after:
  assumes "complex_outcome state P rest vs ns ch" and "state_ok state" and "vm \<in> set (vms state)"
  obtains vm' where "vm_map vs (avm_id vm) = Some vm'" "idle_after ch vm = idleCapacity vm'"
    "totalCapacity vm' = totalCapacity vm"
    "ncpu (idleCapacity vm) = ncpu (idleCapacity vm') + sum_cpu (jobs_on (avm_id vm) P)"
    "nram (idleCapacity vm) = nram (idleCapacity vm') + sum_ram (jobs_on (avm_id vm) P)"
  using idle_after_updated [of state vs P ch vm] assms by (auto simp: complex_outcome_def state_ok_def)

lemma complex_balances:
  assumes o: "complex_outcome state P rest vs ns ch" and ok: "state_ok state"
  shows "balances state ch"
proof -
  have d: "distinct (vm_ids vs)" and sub: "snd ` set P \<subseteq> avm_id ` set (vms state)"
    and upd: "updatedIdleCapacities ch = getVmsWithUpdatedCapacities vs (snd ` set P)"
    using o by (simp_all add: complex_outcome_def)
  have "mset (jobs_put state ch v) = mset (jobs_on v P)" for v
    using o by (intro jobs_put_complex [of _ _ rest ns]) (simp_all add: complex_outcome_def)
  then have put: "sum_cpu (jobs_put state ch v) = sum_cpu (jobs_on v P)" "sum_ram (jobs_put state ch v) = sum_ram (jobs_on v P)" for v
    using sum_req_mset by blast+
  have "keys (updatedIdleCapacities ch) \<subseteq> avm_id ` set (vms state)"
    using map_of_updated [OF d, of "snd ` set P"] upd sub
    by (metis (no_types, lifting) domIff dom_map_of_conv_image_fst list.set_map subset_iff)
  moreover have "ncpu (idleCapacity vm) = ncpu (idle_after ch vm) + sum_cpu (jobs_put state ch (avm_id vm)) \<and>
      nram (idleCapacity vm) = nram (idle_after ch vm) + sum_ram (jobs_put state ch (avm_id vm))"
    if "vm \<in> set (vms state)" for vm
    using complex_after [OF o ok that] put by metis
  ultimately show ?thesis by (simp add: balances_def)
qed

lemma complex_terminates_idle:
  assumes o: "complex_outcome state P rest vs ns ch" and ok: "state_ok state"
  shows "terminates_idle state ch"
proof -
  have d: "distinct (vm_ids vs)" "distinct (vm_ids (vms state))"
    and dom: "dom (vm_map vs) = dom (vm_map (vms state))" and ch: "vmsToTerminate ch = getIdleVms vs"
    using o ok by (simp_all add: complex_outcome_def conserves_def state_ok_def)
  have "v \<in> set (getIdleVms vs) \<longleftrightarrow> v \<in> avm_id ` {vm \<in> set (vms state). totalCapacity vm = idle_after ch vm}" for v
  proof (cases "vm_map (vms state) v")
    case None
    then have "v \<notin> avm_id ` set (vms state)" "v \<notin> avm_id ` set vs"
      using dom by (auto simp flip: dom_vm_map)
    then show ?thesis by (auto simp: set_getIdleVms)
  next
    case (Some vm)
    then have vm: "vm \<in> set (vms state)" "avm_id vm = v" using d by (simp_all add: vm_map_Some_iff)
    then obtain vm' where vm': "vm_map vs v = Some vm'" "idle_after ch vm = idleCapacity vm'"
      "totalCapacity vm' = totalCapacity vm" using complex_after [OF o ok vm(1)] by metis
    have "vm' \<in> set vs \<and> (\<forall>w \<in> set vs. avm_id w = v \<longleftrightarrow> w = vm')"
      using vm'(1) vm_map_Some_iff [OF d(1)] by (metis option.inject)
    then have "v \<in> set (getIdleVms vs) \<longleftrightarrow> totalCapacity vm' = idleCapacity vm'"
      by (auto simp: set_getIdleVms image_iff)
    moreover have "\<forall>w \<in> set (vms state). avm_id w = v \<longleftrightarrow> w = vm"
      using Some vm_map_Some_iff [OF d(2)] by (metis option.inject)
    then have "v \<in> avm_id ` {vm \<in> set (vms state). totalCapacity vm = idle_after ch vm} \<longleftrightarrow>
        totalCapacity vm = idle_after ch vm"
      using vm by (auto simp: image_iff)
    ultimately show ?thesis using vm' by simp
  qed
  then show ?thesis by (auto simp: terminates_idle_def ch)
qed

interpretation complex_assigner: vm_assigner
  "ComplexVmAssigner_assign config possible" "complex_usable config possible" for config possible
proof
  fix state assume use: "complex_usable config possible state" and ok: "state_ok state"
  obtain ch P rest vs ns where "ComplexVmAssigner_assign config possible state = Some ch"
    and o: "complex_outcome state P rest vs ns ch"
    using complex_assign_outcome [OF use ok] by metis
  then show "\<exists>ch. ComplexVmAssigner_assign config possible state = Some ch \<and> valid_change state ch"
    using complex_covers [OF o] complex_balances [OF o ok] complex_terminates_idle [OF o ok]
    by (auto simp: valid_change_def)
qed

text \<open>The factory serves either type.\<close>

fun assigner_usable :: "VmAssignerType \<Rightarrow> ComplexVmAssignerConfig option \<Rightarrow> SlotCapacity list \<Rightarrow> State \<Rightarrow> bool" where
  "assigner_usable Simple config possible state = True"
| "assigner_usable Complex None possible state = False"
| "assigner_usable Complex (Some config) possible state = complex_usable config possible state"

interpretation created: vm_assigner
  "createVmAssigner_assign type config possible" "assigner_usable type config possible" for type config possible
proof
  fix state assume "assigner_usable type config possible state" and "state_ok state"
  then show "\<exists>ch. createVmAssigner_assign type config possible state = Some ch \<and> valid_change state ch"
    using simple_assigner.assign_valid [of state] complex_assigner.assign_valid
    by (cases type; cases config) auto
qed

text \<open>New slots are of a size in range and never start with more idle capacity than their size.\<close>

lemma assign_slots_fit:
  assumes use: "assigner_usable type config possible state" and ok: "state_ok state"
    and as: "createVmAssigner_assign type config possible state = Some ch"
    and caps: "\<forall>s \<in> set possible. cap_ok s" "\<forall>job \<in> set (queuedJobs state). cap_ok (requiredCapacity job)"
    and mem: "(i, s) \<in> set (desiredSlotMap ch)"
  shows "cap_ok (total s) \<and> fits (idle s) (total s)"
proof (cases type)
  case Simple
  then have "ch = SimpleVmAssigner_assign state" using as by (cases config) simp_all
  then have "(i, s) \<in> set (slot_map (simple_slots (queuedJobs state)))"
    using mem ok by (simp add: SimpleVmAssigner_assign_def simple_loop_eq state_ok_def)
  then show ?thesis using caps(2) by (auto simp: set_slot_map simple_slots_def fits_def)
next
  case Complex
  then obtain cfg where cfg: "config = Some cfg" using use by (cases config) auto
  then have use': "complex_usable cfg possible state" and as': "ComplexVmAssigner_assign cfg possible state = Some ch"
    using Complex use as by simp_all
  obtain P rest vs ns where o: "complex_outcome state P rest vs ns ch"
    and sel: "select possible rest = Some (job_assignments ns, slot_map ns)"
    using complex_assign_outcome [OF use' ok] as' by (metis option.inject)
  have "set rest \<subseteq> set (queuedJobs state)"
    using o by (metis Un_upper2 complex_outcome_def mset_append mset_eq_setD set_append)
  moreover have "distinct (map qj_id rest)" "possible \<noteq> []" "(i, s) \<in> set (slot_map ns)"
    using o use' mem by (simp_all add: complex_outcome_def complex_usable_def)
  ultimately show ?thesis
    using caps by (intro select_slots_fit [OF _ _ caps(1) _ sel]) auto
qed

text \<open>The jobs put into new slots by the complex assigner are those the slot selection placed.\<close>

lemma jobs_new_complex:
  assumes "mset (queuedJobs state) = mset (map fst P) + mset rest"
    and "distinct (map qj_id (map fst P @ rest))" and "mset (concat (map snd ns)) = mset (map qj_id rest)"
    and "jobToVm ch = umap_merge (job_assignments ns) (assignments_of P)"
  shows "mset (jobs_new (jobToVm ch) i (queuedJobs state)) = mset (jobs_new (job_assignments ns) i rest)"
proof -
  let ?f = "\<lambda>job. map_of (jobToVm ch) (qj_id job) = Some (DesiredVm i)"
  have keys: "keys (job_assignments ns) = qj_id ` set rest"
    using mset_eq_setD [OF assms(3)] by (simp add: keys_job_assignments del: set_map) simp
  have "map_of (jobToVm ch) (qj_id job) = map_of (job_assignments ns) (qj_id job)" if "job \<in> set rest" for job
  proof -
    have "map_of (job_assignments ns) (qj_id job) \<noteq> None" using that keys by (simp add: map_of_eq_None_iff)
    then show ?thesis by (auto simp: assms(4) map_of_umap_merge)
  qed
  then have "filter ?f rest = jobs_new (job_assignments ns) i rest" by (auto simp: jobs_new_def cong: filter_cong)
  moreover have "filter ?f (map fst P) = []"
    using merged_assignment(2) [OF assms(2,3), folded assms(4)] by (auto simp: filter_empty_conv)
  ultimately have "mset (jobs_new (job_assignments ns) i rest) = filter_mset ?f (mset (map fst P)) + filter_mset ?f (mset rest)"
    by (metis add_0 mset.simps(1) mset_filter)
  also have "\<dots> = filter_mset ?f (mset (queuedJobs state))" using assms(1) by simp
  finally show ?thesis by (simp add: jobs_new_def)
qed

text \<open>A new slot holds its idle capacity and the jobs put into it.\<close>

lemma assign_slots_exact:
  assumes use: "assigner_usable type config possible state" and ok: "state_ok state"
    and as: "createVmAssigner_assign type config possible state = Some ch"
    and caps: "\<forall>s \<in> set possible. cap_ok s" "\<forall>job \<in> set (queuedJobs state). servable possible (requiredCapacity job)"
    and mem: "(i, s) \<in> set (desiredSlotMap ch)"
  shows "ncpu (total s) = ncpu (idle s) + sum_cpu (jobs_new (jobToVm ch) i (queuedJobs state)) \<and>
     nram (total s) = nram (idle s) + sum_ram (jobs_new (jobToVm ch) i (queuedJobs state))"
proof (cases type)
  case Simple
  let ?ns = "simple_slots (queuedJobs state)"
  have d: "distinct (map qj_id (queuedJobs state))" using ok by (simp add: state_ok_def)
  have "ch = SimpleVmAssigner_assign state" using as Simple by (cases config) simp_all
  then have ch: "jobToVm ch = job_assignments ?ns" "desiredSlotMap ch = slot_map ?ns"
    by (simp_all add: SimpleVmAssigner_assign_def simple_loop_eq [OF d])
  obtain js where i: "i < length ?ns" "?ns ! i = (s, js)" using mem ch by (auto simp: set_slot_map)
  then have q: "i < length (queuedJobs state)" "s = \<lparr>total = requiredCapacity (queuedJobs state ! i), idle = SlotCapacity 0 0\<rparr>"
    "js = [qj_id (queuedJobs state ! i)]" by (auto simp: simple_slots_def)
  have "jobs_new (jobToVm ch) i (queuedJobs state) = filter (\<lambda>job. qj_id job = qj_id (queuedJobs state ! i)) (queuedJobs state)"
    using map_of_job_assignments [OF _ i] d q by (simp add: jobs_new_def ch)
  also have "\<dots> = [queuedJobs state ! i]"
    using filter_key [OF d, of "queuedJobs state ! i" "\<lambda>_. True"] q(1) by simp
  finally show ?thesis using q by simp
next
  case Complex
  then obtain cfg where cfg: "config = Some cfg" using use by (cases config) auto
  then have use': "complex_usable cfg possible state" and as': "ComplexVmAssigner_assign cfg possible state = Some ch"
    using Complex use as by simp_all
  obtain P rest vs ns where o: "complex_outcome state P rest vs ns ch"
    and sel: "select possible rest = Some (job_assignments ns, slot_map ns)"
    using complex_assign_outcome [OF use' ok] as' by (metis option.inject)
  have "set rest \<subseteq> set (queuedJobs state)"
    using o by (metis Un_upper2 complex_outcome_def mset_append mset_eq_setD set_append)
  moreover have "distinct (map qj_id rest)" "possible \<noteq> []" "(i, s) \<in> set (slot_map ns)"
    using o use' mem by (simp_all add: complex_outcome_def complex_usable_def)
  ultimately have "ncpu (total s) = ncpu (idle s) + sum_cpu (jobs_new (job_assignments ns) i rest) \<and>
      nram (total s) = nram (idle s) + sum_ram (jobs_new (job_assignments ns) i rest)"
    using caps by (intro select_exact [OF _ _ caps(1) _ sel]) auto
  moreover have "mset (jobs_new (jobToVm ch) i (queuedJobs state)) = mset (jobs_new (job_assignments ns) i rest)"
    using o by (intro jobs_new_complex) (simp_all add: complex_outcome_def)
  ultimately show ?thesis using sum_req_mset by metis
qed

lemma distinct_getVmsWithUpdatedCapacities: "distinct (map fst (getVmsWithUpdatedCapacities vs upd))"
proof -
  have "distinct (map fst m) \<Longrightarrow> distinct (map fst (fold (\<lambda>vm m. if avm_id vm \<in> upd
      then umap_emplace (avm_id vm) (idleCapacity vm) m else m) vs m))" for m
    by (induction vs arbitrary: m) auto
  then show ?thesis by (simp add: getVmsWithUpdatedCapacities_def)
qed

lemma assign_updates_distinct:
  "createVmAssigner_assign type config possible state = Some ch \<Longrightarrow> distinct (map fst (updatedIdleCapacities ch))"
  by (cases "(type, config, possible, state)" rule: createVmAssigner_assign.cases)
     (auto simp: SimpleVmAssigner_assign_def ComplexVmAssigner_assign_def distinct_getVmsWithUpdatedCapacities
        split: prod.splits option.splits)

section \<open>What an assignment guarantees\<close>

text \<open>
  C10. Both assigners return for every state with distinct jobs and VMs (the complex one when some
  size is offered and the strategy is not next fit with VMs), and every queued job, and no other
  job, is assigned exactly one target: a VM of the state or a new slot of the change. No new slot
  is left without a job.
\<close>

theorem assign_covers_jobs:
  assumes "assigner_usable type config possible state" and "state_ok state"
  shows "\<exists>ch. createVmAssigner_assign type config possible state = Some ch \<and>
     distinct (map fst (jobToVm ch)) \<and> keys (jobToVm ch) = qj_id ` set (queuedJobs state) \<and>
     (\<forall>j target. map_of (jobToVm ch) j = Some target \<longrightarrow> (case target of
        ExistingVm v \<Rightarrow> v \<in> avm_id ` set (vms state) | DesiredVm i \<Rightarrow> i \<in> keys (desiredSlotMap ch))) \<and>
     (\<forall>i \<in> keys (desiredSlotMap ch). \<exists>j. map_of (jobToVm ch) j = Some (DesiredVm i))"
  using created.assign_valid [OF assms] by (fastforce simp: valid_change_def covers_jobs_def dest!: map_of_SomeD)

definition ex_state :: State where
  "ex_state = \<lparr>queuedJobs = ex_jobs, vms = [mk_vm 1 1 4, mk_vm 2 8 32]\<rparr>"

definition ex_config :: ComplexVmAssignerConfig where
  "ex_config = \<lparr>jobOrdering = Descending, allocationStrategy = BestFitStrategy\<rparr>"

definition ex_change :: StateChange where
  "ex_change = \<lparr>jobToVm = [(14, ExistingVm 2), (12, ExistingVm 1), (11, ExistingVm 2), (13, ExistingVm 2)],
     desiredSlotMap = [], updatedIdleCapacities = [(1, SlotCapacity 0 0), (2, SlotCapacity 3 18)], vmsToTerminate = []\<rparr>"

lemma ex_assign: "createVmAssigner_assign Complex (Some ex_config) ex_possible ex_state = Some ex_change"
  by code_simp

lemma ex_usable: "assigner_usable Complex (Some ex_config) ex_possible ex_state"
  by code_simp

lemma ex_state_ok: "state_ok ex_state"
  by (simp add: state_ok_def ex_state_def ex_jobs_def mk_defs cap_ok_def)

theorem assign_covers_jobs_witness:
  "assigner_usable Complex (Some ex_config) ex_possible ex_state \<and> state_ok ex_state \<and>
   (\<exists>ch. createVmAssigner_assign Complex (Some ex_config) ex_possible ex_state = Some ch \<and>
      keys (jobToVm ch) = {11, 12, 13, 14})"
proof -
  have "qj_id ` set (queuedJobs ex_state) = {11, 12, 13, 14}" by (simp add: ex_state_def ex_jobs_def mk_job_def)
  with assign_covers_jobs [OF ex_usable ex_state_ok] ex_usable ex_state_ok show ?thesis by auto
qed

text \<open>
  C24. With next fit the complex assigner has no defined result once there is a VM and a job: the
  constructor takes the iterator from the moved-from argument, so the first allocation dereferences an
  iterator that points nowhere. An iterator that did point to a VM would not repair it: the loops never
  advance it, so a job is put on exactly that VM or, when it does not fit there, the call does not return,
  whatever room the other VMs have.
\<close>

theorem NextFit_stuck:
  assumes "allocationStrategy config = NextFitStrategy" and "vms state \<noteq> []" and "queuedJobs state \<noteq> []"
  shows "createVmAssigner_assign Complex (Some config) possible state = None \<and>
    (\<forall>i < length (vms state). NextFit_allocate ((NextFit_init (vms state))\<lparr>nf_iter := At i\<rparr>) job =
      (if fits (requiredCapacity job) (idleCapacity (vms state ! i))
       then Some (Some (avm_id (vms state ! i)),
          \<lparr>nf_vms = (vms state)[i := takeCapacity job (vms state ! i)], nf_iter = At i, nf_updated = {avm_id (vms state ! i)}\<rparr>)
       else None))"
proof
  have "createOrderedJobs (jobOrdering config) (queuedJobs state) \<noteq> []"
    using assms(3) by (metis set_createOrderedJobs set_empty)
  then obtain j js where jobs: "createOrderedJobs (jobOrdering config) (queuedJobs state) = j # js" by (meson list.exhaust)
  show "createVmAssigner_assign Complex (Some config) possible state = None"
    using assms(1,2) by (simp add: ComplexVmAssigner_assign_def jobs NextFit_allocate_init)
qed (auto simp: NextFit_allocate_at NextFit_init_def NextFit_place_def)

theorem NextFit_stuck_witness:
  "createVmAssigner_assign Complex (Some \<lparr>jobOrdering = Fifo, allocationStrategy = NextFitStrategy\<rparr>) ex_possible ex_state = None \<and>
   NextFit_allocate ((NextFit_init (vms ex_state))\<lparr>nf_iter := At 0\<rparr>) (mk_job 7 2 2) = None \<and>
   fits (requiredCapacity (mk_job 7 2 2)) (idleCapacity (vms ex_state ! 1))"
proof -
  have h: "vms ex_state \<noteq> []" "queuedJobs ex_state \<noteq> []" "0 < length (vms ex_state)"
    "\<not> fits (requiredCapacity (mk_job 7 2 2)) (idleCapacity (vms ex_state ! 0))"
    "fits (requiredCapacity (mk_job 7 2 2)) (idleCapacity (vms ex_state ! 1))" by code_simp+
  from NextFit_stuck [of "\<lparr>jobOrdering = Fifo, allocationStrategy = NextFitStrategy\<rparr>" ex_state ex_possible "mk_job 7 2 2", OF _ h(1,2)]
  show ?thesis using h(3-5) by simp
qed

text \<open>
  C9. No VM is overcommitted: the jobs an assignment puts on an existing VM fit, together, into
  the idle capacity the VM had, and the idle capacity recorded for it afterwards (the updated one,
  or the old one where none is recorded) is exactly the rest.
\<close>

theorem assign_balances:
  assumes "assigner_usable type config possible state" and "state_ok state" and "vm \<in> set (vms state)"
    and "createVmAssigner_assign type config possible state = Some ch"
  shows "sum_cpu (jobs_put state ch (avm_id vm)) \<le> ncpu (idleCapacity vm) \<and>
     sum_ram (jobs_put state ch (avm_id vm)) \<le> nram (idleCapacity vm) \<and>
     ncpu (idle_after ch vm) = ncpu (idleCapacity vm) - sum_cpu (jobs_put state ch (avm_id vm)) \<and>
     nram (idle_after ch vm) = nram (idleCapacity vm) - sum_ram (jobs_put state ch (avm_id vm))"
  using created.assign_valid [OF assms(1,2)] assms(3,4) by (auto simp: valid_change_def balances_def)

theorem assign_balances_witness:
  "createVmAssigner_assign Complex (Some ex_config) ex_possible ex_state = Some ex_change \<and>
   sum_cpu (jobs_put ex_state ex_change 2) \<le> 8 \<and>
   ncpu (idle_after ex_change (mk_vm 2 8 32)) = 8 - sum_cpu (jobs_put ex_state ex_change 2)"
proof -
  have "mk_vm 2 8 32 \<in> set (vms ex_state)" by (simp add: ex_state_def)
  from assign_balances [OF ex_usable ex_state_ok this ex_assign] show ?thesis
    using ex_assign by (simp add: mk_vm_def)
qed

text \<open>
  C23. A VM is scheduled for termination only when it was entirely idle and, of the jobs put on it
  by the same assignment, none needs any capacity.
\<close>

theorem assign_terminates_idle:
  assumes "assigner_usable type config possible state" and "state_ok state" and "vm \<in> set (vms state)"
    and "createVmAssigner_assign type config possible state = Some ch"
    and "avm_id vm \<in> set (vmsToTerminate ch)" and "fits (idleCapacity vm) (totalCapacity vm)"
  shows "idleCapacity vm = totalCapacity vm \<and> sum_cpu (jobs_put state ch (avm_id vm)) = 0 \<and>
     sum_ram (jobs_put state ch (avm_id vm)) = 0"
  by (rule created.terminated_has_no_load [OF assms(1,2,4,3,5,6)])

theorem assign_terminates_idle_witness:
  "let state = \<lparr>queuedJobs = [mk_job 7 2 4], vms = [mk_vm 1 1 1, mk_vm 2 4 8]\<rparr>;
       ch = \<lparr>jobToVm = [(7, ExistingVm 2)], desiredSlotMap = [],
             updatedIdleCapacities = [(2, SlotCapacity 2 4)], vmsToTerminate = [1]\<rparr>
   in createVmAssigner_assign Complex (Some ex_config) ex_possible state = Some ch \<and>
      sum_cpu (jobs_put state ch 1) = 0 \<and> sum_ram (jobs_put state ch 1) = 0"
proof -
  let ?state = "\<lparr>queuedJobs = [mk_job 7 2 4], vms = [mk_vm 1 1 1, mk_vm 2 4 8]\<rparr>"
  let ?ch = "\<lparr>jobToVm = [(7, ExistingVm 2)], desiredSlotMap = [],
             updatedIdleCapacities = [(2, SlotCapacity 2 4)], vmsToTerminate = [1]\<rparr>"
  have use: "assigner_usable Complex (Some ex_config) ex_possible ?state"
    and run: "createVmAssigner_assign Complex (Some ex_config) ex_possible ?state = Some ?ch"
    by code_simp+
  have ok: "state_ok ?state" by (simp add: state_ok_def mk_defs cap_ok_def)
  have vm: "mk_vm 1 1 1 \<in> set (vms ?state)" "avm_id (mk_vm 1 1 1) \<in> set (vmsToTerminate ?ch)"
    "fits (idleCapacity (mk_vm 1 1 1)) (totalCapacity (mk_vm 1 1 1))"
    by (simp_all add: mk_vm_def)
  from assign_terminates_idle [OF use ok vm(1) run vm(2,3)] run show ?thesis
    unfolding Let_def by (simp add: mk_vm_def)
qed

end
