(* ===== verification/Database.thy ===== *)
theory Database
  imports SchedState
begin

text \<open>
  The database behind the task storage. The tables, column constraints and triggers are those of
  \<^verbatim>\<open>libs/db/data/db_schema.sql\<close>; a query is a function on the tables. On top of them stands the
  transaction layer the storage code is written against (\<^verbatim>\<open>libs/postgres\<close>: \<^verbatim>\<open>execQuery\<close>,
  \<^verbatim>\<open>writableTransaction\<close>, \<^verbatim>\<open>commit\<close>, the roll-back when a handle is destroyed), in which every step
  may fail. Rows keep their insertion order (SQL leaves the order of a result open). Timestamps
  and intervals are integers in microseconds and do not leave their range.
\<close>

section \<open>Tables\<close>

record vm_row =
  vr_id :: VmId
  vr_status :: VmStatus
  vr_cpu :: int
  vr_ram :: int
  vr_cpu_idle :: int
  vr_ram_idle :: int
  vr_cloud_vm_id :: "string option"
  vr_cloud_vm_type :: "string option"
  vr_created :: int
  vr_last_status_update :: int
  vr_agent_activity :: "int option"
  vr_restart_count :: int

record task_row =
  tr_id :: TaskId
  tr_job_count :: int
  tr_settings :: string
  tr_image_version :: string
  tr_client_id :: string

record job_row =
  jr_id :: JobId
  jr_status :: JobStatus
  jr_task_id :: TaskId
  jr_cpu :: int
  jr_ram :: int
  jr_estimation :: int
  jr_options :: string
  jr_result_url :: "string option"
  jr_created :: int
  jr_started :: "int option"
  jr_finished :: "int option"
  jr_vm_id :: "VmId option"
  jr_restart_count :: int

text \<open>The columns \<^verbatim>\<open>jobs.message\<close> and \<^verbatim>\<open>plan.lock_number\<close>, which no statement reads or writes, are left out.\<close>

record plan_row =
  pr_id :: int
  pr_created :: int
  pr_updated :: int
  pr_backend_id :: string

text \<open>The values the \<^verbatim>\<open>serial\<close> columns give out next; a roll-back does not take them back.\<close>

record sequences =
  next_vm :: int
  next_task :: int
  next_job :: int
  next_plan :: int

record db =
  t_vms :: "vm_row list"
  t_vm_log :: "(VmId \<times> VmStatus \<times> int) list"
  t_tasks :: "task_row list"
  t_jobs :: "job_row list"
  t_job_log :: "(JobId \<times> JobStatus \<times> int) list"
  t_plan :: "plan_row list"
  t_locks :: "int list"
  seqs :: sequences

definition empty_db :: db where
  "empty_db = \<lparr>t_vms = [], t_vm_log = [], t_tasks = [], t_jobs = [], t_job_log = [], t_plan = [], t_locks = [],
     seqs = \<lparr>next_vm = 1, next_task = 1, next_job = 1, next_plan = 1\<rparr>\<rparr>"

section \<open>Statements\<close>

text \<open>
  A statement runs at the transaction's \<^verbatim>\<open>NOW()\<close> and gives its rows and the new tables, or an
  SQL error.
\<close>

type_synonym 'r stmt = "int \<Rightarrow> db \<Rightarrow> string + 'r \<times> db"

definition int4 :: "int \<Rightarrow> bool" where
  "int4 i \<longleftrightarrow> - (2 ^ 31) \<le> i \<and> i < 2 ^ 31"

definition int8 :: "int \<Rightarrow> bool" where
  "int8 i \<longleftrightarrow> - (2 ^ 63) \<le> i \<and> i < 2 ^ 63"

definition seconds :: "int \<Rightarrow> int" where
  "seconds s = s * 1000000"

definition out_of_range :: string where
  "out_of_range = ''integer out of range''"

definition syntax_error :: string where
  "syntax_error = ''syntax error''"

definition vm_row_ok :: "vm_row \<Rightarrow> bool" where
  "vm_row_ok r \<longleftrightarrow> int4 (vr_id r) \<and> int4 (vr_cpu r) \<and> int4 (vr_ram r) \<and> int4 (vr_cpu_idle r) \<and>
     int4 (vr_ram_idle r) \<and> int4 (vr_restart_count r)"

definition job_row_ok :: "job_row \<Rightarrow> bool" where
  "job_row_ok r \<longleftrightarrow> int4 (jr_id r) \<and> int4 (jr_cpu r) \<and> int4 (jr_ram r) \<and> int4 (jr_restart_count r)"

text \<open>The foreign keys of \<^verbatim>\<open>scheduler.jobs\<close>.\<close>

definition job_fk_ok :: "db \<Rightarrow> job_row \<Rightarrow> bool" where
  "job_fk_ok d r \<longleftrightarrow> jr_task_id r \<in> tr_id ` set (t_tasks d) \<and>
     (case jr_vm_id r of None \<Rightarrow> True | Some v \<Rightarrow> v \<in> vr_id ` set (t_vms d))"

text \<open>
  \<^verbatim>\<open>UPDATE scheduler.vms SET ... WHERE ... RETURNING ...\<close> with the triggers \<^verbatim>\<open>update_last_status_update\<close>
  and \<^verbatim>\<open>update_vm_log\<close>: a row whose status changes gets a new \<^verbatim>\<open>last_status_update\<close> and a log entry.
  The rows returned are those the update itself wrote.
\<close>

definition vm_trigger :: "int \<Rightarrow> vm_row \<Rightarrow> vm_row \<Rightarrow> vm_row" where
  "vm_trigger now old new =
     (if vr_status old \<noteq> vr_status new then new\<lparr>vr_last_status_update := now\<rparr> else new)"

definition update_vms :: "(vm_row \<Rightarrow> bool) \<Rightarrow> (vm_row \<Rightarrow> vm_row) \<Rightarrow> vm_row list stmt" where
  "update_vms cond assign now d =
     (let hit = filter cond (t_vms d) in
      if \<forall>r \<in> set hit. vm_row_ok (assign r)
      then Inr (map assign hit,
        d\<lparr>t_vms := map (\<lambda>r. if cond r then vm_trigger now r (assign r) else r) (t_vms d),
          t_vm_log := t_vm_log d @ map (\<lambda>r. (vr_id r, vr_status (assign r), now))
                        (filter (\<lambda>r. vr_status r \<noteq> vr_status (assign r)) hit)\<rparr>)
      else Inl out_of_range)"

text \<open>\<^verbatim>\<open>UPDATE scheduler.jobs ...\<close> with the trigger \<^verbatim>\<open>update_job_log\<close> and the foreign keys.\<close>

definition update_jobs :: "(job_row \<Rightarrow> bool) \<Rightarrow> (job_row \<Rightarrow> job_row) \<Rightarrow> job_row list stmt" where
  "update_jobs cond assign now d =
     (let hit = filter cond (t_jobs d) in
      if \<not> (\<forall>r \<in> set hit. job_row_ok (assign r)) then Inl out_of_range
      else if \<not> (\<forall>r \<in> set hit. job_fk_ok d (assign r)) then Inl ''violates foreign key constraint''
      else Inr (map assign hit,
        d\<lparr>t_jobs := map (\<lambda>r. if cond r then assign r else r) (t_jobs d),
          t_job_log := t_job_log d @ map (\<lambda>r. (jr_id r, jr_status (assign r), now))
                        (filter (\<lambda>r. jr_status r \<noteq> jr_status (assign r)) hit)\<rparr>))"

definition select_vms :: "(vm_row \<Rightarrow> bool) \<Rightarrow> vm_row list stmt" where
  "select_vms cond now d = Inr (filter cond (t_vms d), d)"

definition select_jobs :: "(job_row \<Rightarrow> bool) \<Rightarrow> job_row list stmt" where
  "select_jobs cond now d = Inr (filter cond (t_jobs d), d)"

section \<open>Transactions\<close>

datatype pg_exn = sql_error string | std_exception string

fun pg_what :: "pg_exn \<Rightarrow> string" where
  "pg_what (sql_error m) = m"
| "pg_what (std_exception m) = m"

text \<open>
  What the connection does at the next step (taking a connection and opening a transaction, a
  query, a commit): nothing unusual, fail, or, for a commit, fail after the server has committed.
\<close>

datatype fault = NoFault | Throws pg_exn | ThrowsAfterCommit pg_exn

record pg =
  committed :: db
  pg_now :: int
  faults :: "fault list"

definition next_fault :: "fault list \<Rightarrow> fault" where
  "next_fault fs = (case fs of [] \<Rightarrow> NoFault | f # _ \<Rightarrow> f)"

datatype txn_status = Active | Aborted | Closed

record txn = pg +
  work :: db
  txn_status :: txn_status

type_synonym 'a tx = "txn \<Rightarrow> (pg_exn + 'a) \<times> txn"

definition tx_return :: "'a \<Rightarrow> 'a tx" where
  "tx_return x t = (Inr x, t)"

definition tx_throw :: "pg_exn \<Rightarrow> 'a tx" where
  "tx_throw e t = (Inl e, t)"

definition tx_bind :: "'a tx \<Rightarrow> ('a \<Rightarrow> 'b tx) \<Rightarrow> 'b tx" where
  "tx_bind m f t = (case m t of (Inl e, t') \<Rightarrow> (Inl e, t') | (Inr x, t') \<Rightarrow> f x t')"

text \<open>\<^verbatim>\<open>try { m } catch (const std::exception& ex) { h }\<close>.\<close>

definition tx_try :: "'a tx \<Rightarrow> (pg_exn \<Rightarrow> 'a) \<Rightarrow> 'a tx" where
  "tx_try m h t = (case m t of (Inl e, t') \<Rightarrow> (Inr (h e), t') | (Inr x, t') \<Rightarrow> (Inr x, t'))"

text \<open>
  \<^verbatim>\<open>if (r.IsFailure()) return Failure(r.ErrorOrThrow());\<close> and otherwise go on with the value.
\<close>

definition tx_bind_result :: "'a result tx \<Rightarrow> ('a \<Rightarrow> 'b result tx) \<Rightarrow> 'b result tx" where
  "tx_bind_result m f = tx_bind m (\<lambda>r. case r of Inl e \<Rightarrow> tx_return (Inl e) | Inr x \<Rightarrow> f x)"

text \<open>
  \<^verbatim>\<open>pg::execQuery\<close>: run the query; on an exception abort the transaction and rethrow. A query on a
  transaction that is not active throws.
\<close>

definition execQuery :: "'r stmt \<Rightarrow> 'r tx" where
  "execQuery q t =
     (if txn_status t \<noteq> Active then (Inl (std_exception ''transaction is already closed''), t)
      else let t1 = t\<lparr>faults := tl (faults t)\<rparr> in
        (case next_fault (faults t) of
           Throws e \<Rightarrow> (Inl e, t1\<lparr>txn_status := Aborted\<rparr>)
         | ThrowsAfterCommit e \<Rightarrow> (Inl e, t1\<lparr>txn_status := Aborted\<rparr>)
         | NoFault \<Rightarrow>
             (case q (pg_now t) (work t) of
                Inl m \<Rightarrow> (Inl (sql_error m), t1\<lparr>txn_status := Aborted\<rparr>)
              | Inr (r, d) \<Rightarrow> (Inr r, t1\<lparr>work := d\<rparr>))))"

definition tx_commit :: "unit tx" where
  "tx_commit t =
     (if txn_status t \<noteq> Active then (Inl (std_exception ''attempt to commit a closed transaction''), t)
      else let t1 = t\<lparr>faults := tl (faults t), txn_status := Closed\<rparr> in
        (case next_fault (faults t) of
           Throws e \<Rightarrow> (Inl e, t1\<lparr>txn_status := Aborted\<rparr>)
         | ThrowsAfterCommit e \<Rightarrow> (Inl e, t1\<lparr>committed := work t\<rparr>)
         | NoFault \<Rightarrow> (Inr (), t1\<lparr>committed := work t\<rparr>)))"

text \<open>
  Destroying the handle rolls back what was not committed, except for the sequences.
\<close>

definition begin_txn :: "pg \<Rightarrow> txn" where
  "begin_txn p = \<lparr>committed = committed p, pg_now = pg_now p, faults = tl (faults p), work = committed p, txn_status = Active\<rparr>"

definition end_txn :: "txn \<Rightarrow> pg" where
  "end_txn t = \<lparr>committed = (committed t)\<lparr>seqs := seqs (work t)\<rparr>, pg_now = pg_now t, faults = faults t\<rparr>"

text \<open>
  The operations of the storage are \<^verbatim>\<open>noexcept\<close>: an exception that leaves one ends the process.
\<close>

datatype 'a call = Returned 'a | StdTerminate

text \<open>
  Take a connection and open a transaction; when that throws, \<open>h\<close> is the value returned. Then run
  the body and destroy the handle; an exception of the body is not caught.
\<close>

definition run_txn :: "(pg_exn \<Rightarrow> 'a) \<Rightarrow> 'a tx \<Rightarrow> pg \<Rightarrow> 'a call \<times> pg" where
  "run_txn h body p =
     (case next_fault (faults p) of
        NoFault \<Rightarrow>
          (case body (begin_txn p) of
             (Inl e, t) \<Rightarrow> (StdTerminate, end_txn t)
           | (Inr x, t) \<Rightarrow> (Returned x, end_txn t))
      | Throws e \<Rightarrow> (Returned (h e), p\<lparr>faults := tl (faults p)\<rparr>)
      | ThrowsAfterCommit e \<Rightarrow> (Returned (h e), p\<lparr>faults := tl (faults p)\<rparr>))"

text \<open>A \<^verbatim>\<open>try\<close> block around opening and body.\<close>

definition try_txn :: "(pg_exn \<Rightarrow> 'a) \<Rightarrow> 'a tx \<Rightarrow> pg \<Rightarrow> 'a call \<times> pg" where
  "try_txn h body = run_txn h (tx_try body h)"

text \<open>\<^verbatim>\<open>row.at(c).as<size_t>()\<close> throws on a negative number.\<close>

definition as_size_t :: "int \<Rightarrow> pg_exn + size_t" where
  "as_size_t i = (if i < 0 then Inl (std_exception ''Could not convert to unsigned'') else Inr (of_int i))"

text \<open>\<^verbatim>\<open>row.at(c).as<std::string>()\<close> throws on a null.\<close>

definition as_string :: "string option \<Rightarrow> pg_exn + string" where
  "as_string c = (case c of None \<Rightarrow> Inl (std_exception ''Attempt to read null field'') | Some s \<Rightarrow> Inr s)"

definition row_capacity :: "int \<Rightarrow> int \<Rightarrow> pg_exn + SlotCapacity" where
  "row_capacity c r = (case as_size_t c of Inl e \<Rightarrow> Inl e
     | Inr c' \<Rightarrow> (case as_size_t r of Inl e \<Rightarrow> Inl e | Inr r' \<Rightarrow> Inr (SlotCapacity c' r')))"

fun rows_map :: "('a \<Rightarrow> pg_exn + 'b) \<Rightarrow> 'a list \<Rightarrow> pg_exn + 'b list" where
  "rows_map f [] = Inr []"
| "rows_map f (x # xs) = (case f x of Inl e \<Rightarrow> Inl e
     | Inr y \<Rightarrow> (case rows_map f xs of Inl e \<Rightarrow> Inl e | Inr ys \<Rightarrow> Inr (y # ys)))"

definition tx_lift :: "pg_exn + 'a \<Rightarrow> 'a tx" where
  "tx_lift r t = (r, t)"

text \<open>\<^verbatim>\<open>interval 'N seconds'\<close>: the server reads the number as a 32-bit integer.\<close>

definition interval_seconds :: "int \<Rightarrow> string + int" where
  "interval_seconds n = (if int4 n then Inr (seconds n) else Inl ''interval field value out of range'')"

text \<open>\<^verbatim>\<open>IN (...)\<close> with the identifiers joined by commas; an empty list is a syntax error.\<close>

definition with_ids :: "int list \<Rightarrow> 'r stmt \<Rightarrow> 'r stmt" where
  "with_ids ids q now d = (if ids = [] then Inl syntax_error else q now d)"

fun contains :: "string \<Rightarrow> string \<Rightarrow> bool" where
  "contains p [] = (p = [])"
| "contains p (c # cs) = (take (length p) (c # cs) = p \<or> contains p cs)"

definition failure_prefix :: "string \<Rightarrow> pg_exn \<Rightarrow> 'a result" where
  "failure_prefix m e = Inl (PgException (m @ pg_what e))"

end
