(* ===== verification/StorageTasks.thy ===== *)
theory StorageTasks
  imports Database
begin

text \<open>
  The storage operations of the clients' side (\<^verbatim>\<open>libs/db/impl/pg_task_storage.cpp\<close>): adding a task
  with its jobs, reading job states, cancelling a task and cancelling jobs that ran out of time.
  What the server does to a \<^verbatim>\<open>jsonb\<close> literal is the parameter \<open>jsonb\<close>: the text it stores and
  prints, or \<open>None\<close> for a literal it rejects.
\<close>

section \<open>Giving resources back\<close>

text \<open>
  \<^verbatim>\<open>releaseVmResources\<close>: the sums of the requirements of the given jobs, grouped by VM, go back to
  the idle capacities, up to the total.
\<close>

definition freed :: "(job_row \<Rightarrow> int) \<Rightarrow> JobId list \<Rightarrow> job_row list \<Rightarrow> VmId \<Rightarrow> int" where
  "freed f jobIds js v = sum_list (map f (filter (\<lambda>j. jr_id j \<in> set jobIds \<and> jr_vm_id j = Some v) js))"

definition release_stmt :: "JobId list \<Rightarrow> unit stmt" where
  "release_stmt jobIds now d =
     (case update_vms (\<lambda>r. \<exists>j \<in> set (t_jobs d). jr_id j \<in> set jobIds \<and> jr_vm_id j = Some (vr_id r))
        (\<lambda>r. r\<lparr>vr_cpu_idle := min (vr_cpu_idle r + freed jr_cpu jobIds (t_jobs d) (vr_id r)) (vr_cpu r),
               vr_ram_idle := min (vr_ram_idle r + freed jr_ram jobIds (t_jobs d) (vr_id r)) (vr_ram r)\<rparr>) now d of
        Inl m \<Rightarrow> Inl m | Inr (_, d') \<Rightarrow> Inr ((), d'))"

definition releaseVmResources :: "JobId list \<Rightarrow> unit tx" where
  "releaseVmResources jobIds = (if jobIds = [] then tx_return () else execQuery (release_stmt jobIds))"

text \<open>\<^verbatim>\<open>execWritableQuery_\<close>.\<close>

definition execWritableQuery :: "'r stmt \<Rightarrow> pg \<Rightarrow> 'r result call \<times> pg" where
  "execWritableQuery q =
     try_txn (failure_prefix ''Unexpected pg exception: '')
       (tx_bind (execQuery q) (\<lambda>r. tx_bind tx_commit (\<lambda>_. tx_return (Inr r))))"

section \<open>Adding a task\<close>

definition new_task_row :: "TaskId \<Rightarrow> TaskParameters \<Rightarrow> string \<Rightarrow> task_row" where
  "new_task_row i p st = \<lparr>tr_id = i, tr_job_count = uint (jobCount p), tr_settings = st,
     tr_image_version = imageVersion p, tr_client_id = clientId p\<rparr>"

definition insert_task :: "(string \<Rightarrow> string option) \<Rightarrow> TaskParameters \<Rightarrow> TaskId stmt" where
  "insert_task jsonb p now d =
     (let i = next_task (seqs d) in
      case jsonb (settings p) of
        None \<Rightarrow> Inl ''invalid input syntax for type json''
      | Some st \<Rightarrow>
          if int4 (uint (jobCount p)) \<and> int4 i
          then Inr (i, d\<lparr>t_tasks := t_tasks d @ [new_task_row i p st], seqs := (seqs d)\<lparr>next_task := i + 1\<rparr>\<rparr>)
          else Inl out_of_range)"

fun new_job_rows :: "TaskParameters \<Rightarrow> TaskId \<Rightarrow> int \<Rightarrow> int \<Rightarrow> string list \<Rightarrow> int \<Rightarrow> job_row list" where
  "new_job_rows p taskId est now [] i = []"
| "new_job_rows p taskId est now (opt # opts) i =
     \<lparr>jr_id = i, jr_status = Queued, jr_task_id = taskId, jr_cpu = uint (cpu (tp_requiredCapacity p)),
      jr_ram = uint (ram (tp_requiredCapacity p)), jr_estimation = est, jr_options = opt, jr_result_url = None,
      jr_created = now, jr_started = None, jr_finished = None, jr_vm_id = None, jr_restart_count = 0\<rparr>
     # new_job_rows p taskId est now opts (i + 1)"

fun jsonb_all :: "(string \<Rightarrow> string option) \<Rightarrow> string list \<Rightarrow> string list option" where
  "jsonb_all jsonb [] = Some []"
| "jsonb_all jsonb (s # ss) =
     (case jsonb s of None \<Rightarrow> None
      | Some t \<Rightarrow> (case jsonb_all jsonb ss of None \<Rightarrow> None | Some ts \<Rightarrow> Some (t # ts)))"

definition insert_jobs :: "(string \<Rightarrow> string option) \<Rightarrow> TaskParameters \<Rightarrow> TaskId \<Rightarrow> JobId list stmt" where
  "insert_jobs jsonb p taskId now d =
     (if jobOptions p = [] then Inl syntax_error
      else case interval_seconds (estimation p) of
        Inl m \<Rightarrow> Inl m
      | Inr est \<Rightarrow>
          (case jsonb_all jsonb (jobOptions p) of
             None \<Rightarrow> Inl ''invalid input syntax for type json''
           | Some opts \<Rightarrow>
               let rows = new_job_rows p taskId est now opts (next_job (seqs d)) in
               if \<not> (\<forall>r \<in> set rows. job_row_ok r) then Inl out_of_range
               else if \<not> (\<forall>r \<in> set rows. job_fk_ok d r) then Inl ''violates foreign key constraint''
               else Inr (map jr_id rows,
                 d\<lparr>t_jobs := t_jobs d @ rows,
                   t_job_log := t_job_log d @ map (\<lambda>r. (jr_id r, Queued, now)) rows,
                   seqs := (seqs d)\<lparr>next_job := next_job (seqs d) + int (length rows)\<rparr>\<rparr>)))"

definition addTask :: "(string \<Rightarrow> string option) \<Rightarrow> TaskParameters \<Rightarrow> pg \<Rightarrow> CreatedJobs result call \<times> pg" where
  "addTask jsonb taskParameters =
     try_txn (failure_prefix ''Unexpected exception while inserting new job: '')
       (tx_bind (execQuery (insert_task jsonb taskParameters)) (\<lambda>taskId.
        tx_bind (execQuery (insert_jobs jsonb taskParameters taskId)) (\<lambda>jobIds.
        tx_bind tx_commit (\<lambda>_.
        tx_return (Inr \<lparr>cj_taskId = taskId, cj_jobIds = jobIds\<rparr>)))))"

section \<open>Cancelling\<close>

definition cancel_assign :: "job_row \<Rightarrow> job_row" where
  "cancel_assign r = r\<lparr>jr_status := if jr_status r = Queued then Cancelled else Cancelling\<rparr>"

definition cancelJobs :: "(int \<Rightarrow> job_row \<Rightarrow> bool) \<Rightarrow> pg \<Rightarrow> unit result call \<times> pg" where
  "cancelJobs condition =
     try_txn (failure_prefix ''Unexpected pg exception: '')
       (tx_bind (execQuery (\<lambda>now. update_jobs (condition now) cancel_assign now)) (\<lambda>result.
        let jobIds = map jr_id result;
            cancelledJobIds = map jr_id (filter (\<lambda>r. jr_status r = Cancelled) result)
        in tx_bind (if jobIds \<noteq> [] then releaseVmResources cancelledJobIds else tx_return ()) (\<lambda>_.
           tx_bind tx_commit (\<lambda>_. tx_return (Inr ())))))"

definition cancelTask :: "TaskId \<Rightarrow> pg \<Rightarrow> unit result call \<times> pg" where
  "cancelTask taskId = cancelJobs (\<lambda>_ r. jr_task_id r = taskId \<and> jr_status r \<notin> getFinalJobStatuses)"

definition cancelTimedOutJobs :: "pg \<Rightarrow> unit result call \<times> pg" where
  "cancelTimedOutJobs =
     cancelJobs (\<lambda>now r. jr_created r + jr_estimation r < now \<and> jr_status r \<notin> getFinalJobStatuses)"

section \<open>Reading job states\<close>

text \<open>\<^verbatim>\<open>COALESCE(result_url, '')\<close> is never null, so the optional is always set.\<close>

definition job_state_of_row :: "job_row \<Rightarrow> JobState" where
  "job_state_of_row r = \<lparr>js_status = jr_status r,
     resultUrl = Some (case jr_result_url r of None \<Rightarrow> '''' | Some u \<Rightarrow> u)\<rparr>"

definition getJobStates :: "TaskId \<Rightarrow> pg \<Rightarrow> JobState list result call \<times> pg" where
  "getJobStates taskId =
     try_txn (failure_prefix ''Unexpected pg exception: '')
       (tx_bind (execQuery (select_jobs (\<lambda>r. jr_task_id r = taskId))) (\<lambda>result.
        tx_return (Inr (map job_state_of_row result))))"

end
