(* ===== verification/StoragePlan.thy ===== *)
theory StoragePlan
  imports StorageTasks
begin

text \<open>
  The storage operations of the scheduler (\<^verbatim>\<open>libs/db/impl/pg_task_storage.cpp\<close>): starting a scheduling
  round under the lock of the plan table, reading the current state, and committing a plan change
  under optimistic locking.
\<close>

type_synonym PlanId = int

section \<open>The plan lock and the plan table\<close>

text \<open>
  \<^verbatim>\<open>LOCK TABLE scheduler.plan\<close> changes no row. That another session holds the lock is a fault
  whose message contains ''could not obtain lock''.
\<close>

definition lock_plan :: "unit stmt" where
  "lock_plan now d = Inr ((), d)"

fun acquireLock_failure :: "bool \<Rightarrow> pg_exn \<Rightarrow> 'a result" where
  "acquireLock_failure noWait (sql_error m) =
     (if contains ''could not obtain lock'' m
      then Inl (LockUnavailable (''Failed to obtain SHARE ROW EXCLUSIVE lock on scheduler.plan table''
             @ (if noWait then '' with NOWAIT;'' else '''')))
      else Inl (PgException (''Unexpected sql error while acquiring lock: '' @ m)))"
| "acquireLock_failure noWait (std_exception m) =
     Inl (PgException (''Unexpected exception while acquiring lock: '' @ m))"

text \<open>
  \<^verbatim>\<open>acquireLock_\<close> opens the transaction the caller goes on with; the rest of the caller is \<open>body\<close>.
\<close>

definition acquireLock :: "bool \<Rightarrow> 'a result tx \<Rightarrow> pg \<Rightarrow> 'a result call \<times> pg" where
  "acquireLock noWait body =
     run_txn (acquireLock_failure noWait)
       (tx_bind_result
         (tx_try (tx_bind (execQuery lock_plan) (\<lambda>_. tx_return (Inr ()))) (acquireLock_failure noWait))
         (\<lambda>_. body))"

definition max_lock :: "int stmt" where
  "max_lock now d = Inr (fold max (t_locks d) 0, d)"

definition insert_lock :: "size_t \<Rightarrow> unit stmt" where
  "insert_lock n now d =
     (if \<not> int8 (uint n) then Inl ''bigint out of range''
      else if uint n \<in> set (t_locks d) then Inl ''duplicate key value violates unique constraint''
      else Inr ((), d\<lparr>t_locks := t_locks d @ [uint n]\<rparr>))"

definition checkLeader :: "size_t \<Rightarrow> unit result tx" where
  "checkLeader lockNumber =
     tx_try
       (tx_bind (execQuery max_lock) (\<lambda>m.
        tx_bind (tx_lift (as_size_t m)) (\<lambda>maxId.
        if lockNumber \<noteq> maxId \<and> lockNumber > maxId
        then tx_bind (execQuery (insert_lock lockNumber)) (\<lambda>_. tx_return (Inr ()))
        else tx_return (Inr ()))))
       (failure_prefix ''Unexpected exception while checking lock number: '')"

definition last_updated :: "db \<Rightarrow> int" where
  "last_updated d = (case map pr_updated (t_plan d) of [] \<Rightarrow> 0 | u # us \<Rightarrow> fold max us u)"

text \<open>The times are compared as exact numbers (the code compares them as doubles in seconds).\<close>

definition last_activity :: "(int \<times> int) stmt" where
  "last_activity now d = Inr ((last_updated d, now), d)"

definition planWasRecentlyUpdated :: "int \<Rightarrow> bool result tx" where
  "planWasRecentlyUpdated schedulingInterval =
     tx_try
       (tx_bind (execQuery last_activity) (\<lambda>(last, now).
        tx_return (Inr (last + seconds schedulingInterval > now))))
       (failure_prefix ''Unexpected exception while checking last updated plan: '')"

definition insert_plan :: "string \<Rightarrow> PlanId stmt" where
  "insert_plan backendId now d =
     (let i = next_plan (seqs d) in
      if int4 i
      then Inr (i, d\<lparr>t_plan := t_plan d @ [\<lparr>pr_id = i, pr_created = now, pr_updated = now, pr_backend_id = backendId\<rparr>],
                     seqs := (seqs d)\<lparr>next_plan := i + 1\<rparr>\<rparr>)
      else Inl out_of_range)"

definition insertNewPlanRecord :: "string \<Rightarrow> PlanId result tx" where
  "insertNewPlanRecord backendId =
     tx_try
       (tx_bind (execQuery (insert_plan backendId)) (\<lambda>i.
        tx_bind tx_commit (\<lambda>_. tx_return (Inr i))))
       (failure_prefix ''Unexpected exception while inserting new plan record: '')"

text \<open>The result of \<^verbatim>\<open>checkLeader_\<close> is dropped; the commit on the early return is not guarded.\<close>

definition startScheduling :: "string \<Rightarrow> int \<Rightarrow> size_t option \<Rightarrow> pg \<Rightarrow> PlanId result call \<times> pg" where
  "startScheduling backendId schedulingInterval lockNumber =
     acquireLock (lockNumber = None)
       (tx_bind (case lockNumber of Some n \<Rightarrow> checkLeader n | None \<Rightarrow> tx_return (Inr ())) (\<lambda>_.
        tx_bind_result (planWasRecentlyUpdated schedulingInterval) (\<lambda>recent.
        if recent
        then tx_bind tx_commit (\<lambda>_. tx_return (Inl (SchedulingCancelled
               ''The plan was recently updated, new scheduling is not needed yet'')))
        else insertNewPlanRecord backendId)))"

section \<open>Reading the state\<close>

definition queued_of_row :: "job_row \<Rightarrow> pg_exn + QueuedJobInfo" where
  "queued_of_row r = (case row_capacity (jr_cpu r) (jr_ram r) of Inl e \<Rightarrow> Inl e
     | Inr c \<Rightarrow> Inr \<lparr>qj_id = jr_id r, requiredCapacity = c\<rparr>)"

definition active_of_row :: "vm_row \<Rightarrow> pg_exn + ActiveVm" where
  "active_of_row r = (case row_capacity (vr_cpu r) (vr_ram r) of Inl e \<Rightarrow> Inl e
     | Inr c \<Rightarrow> (case row_capacity (vr_cpu_idle r) (vr_ram_idle r) of Inl e \<Rightarrow> Inl e
         | Inr i \<Rightarrow> Inr \<lparr>avm_id = vr_id r, totalCapacity = c, idleCapacity = i\<rparr>))"

definition getQueuedJobs :: "QueuedJobInfo list result tx" where
  "getQueuedJobs =
     tx_try
       (tx_bind (execQuery (select_jobs (\<lambda>r. jr_status r = Queued))) (\<lambda>rows.
        tx_bind (tx_lift (rows_map queued_of_row rows)) (\<lambda>jobs. tx_return (Inr jobs))))
       (failure_prefix ''Unexpected exception while getting queued jobs: '')"

definition getActiveVms :: "ActiveVm list result tx" where
  "getActiveVms =
     tx_try
       (tx_bind (execQuery (select_vms (\<lambda>r. vr_status r \<in> getActiveVmStatuses))) (\<lambda>rows.
        tx_bind (tx_lift (rows_map active_of_row rows)) (\<lambda>active. tx_return (Inr active))))
       (failure_prefix ''Unexpected exception while getting active vms: '')"

definition getCurrentState :: "pg \<Rightarrow> State result call \<times> pg" where
  "getCurrentState =
     run_txn (failure_prefix ''Unexpected exception while creating master read-only transaction: '')
       (tx_bind_result getQueuedJobs (\<lambda>jobs.
        tx_bind_result getActiveVms (\<lambda>active.
        tx_return (Inr \<lparr>queuedJobs = jobs, vms = active\<rparr>))))"

section \<open>Committing a plan change\<close>

text \<open>\<^verbatim>\<open>getStatusesWithLock\<close> for the two tables; no query for an empty list of identifiers.\<close>

definition getJobStatusesWithLock :: "JobToVm \<Rightarrow> (JobId \<times> JobStatus) list tx" where
  "getJobStatusesWithLock m =
     (if m = [] then tx_return []
      else tx_bind (execQuery (select_jobs (\<lambda>r. jr_id r \<in> keys m))) (\<lambda>rows.
        tx_return (map (\<lambda>r. (jr_id r, jr_status r)) rows)))"

definition getVmStatusesWithLock :: "VmIdToCapacity \<Rightarrow> (VmId \<times> VmStatus) list tx" where
  "getVmStatusesWithLock m =
     (if m = [] then tx_return []
      else tx_bind (execQuery (select_vms (\<lambda>r. vr_id r \<in> keys m))) (\<lambda>rows.
        tx_return (map (\<lambda>r. (vr_id r, vr_status r)) rows)))"

definition conflict_message :: "string \<Rightarrow> int \<Rightarrow> string \<Rightarrow> string" where
  "conflict_message kind i status =
     ''Optimistic locking conflict: '' @ kind @ '' '' @ show_int i @ '' is in status '' @ status"

definition checkConflicts :: "StateChange \<Rightarrow> unit result tx" where
  "checkConflicts state =
     tx_try
       (tx_bind (getJobStatusesWithLock (jobToVm state)) (\<lambda>jobStatuses.
        tx_bind (getVmStatusesWithLock (updatedIdleCapacities state)) (\<lambda>vmStatuses.
        tx_return
          (case find (\<lambda>(i, s). s \<in> getFinalJobStatuses) jobStatuses of
             Some (i, s) \<Rightarrow> Inl (OptimisticLockingFailure (conflict_message ''job'' i (toString_JobStatus s)))
           | None \<Rightarrow>
               (case find (\<lambda>(i, s). s \<notin> getActiveVmStatuses) vmStatuses of
                  Some (i, s) \<Rightarrow> Inl (OptimisticLockingFailure (conflict_message ''vm'' i (toString_VmStatus s)))
                | None \<Rightarrow> Inr ())))))
       (failure_prefix ''Unexpected exception while checking conflicts before plan commit: '')"

definition newest_plans :: "int list stmt" where
  "newest_plans now d = Inr (map pr_id (filter (\<lambda>r. pr_updated r = last_updated d) (t_plan d)), d)"

text \<open>\<^verbatim>\<open>isSchedulingRelevant_\<close> is \<^verbatim>\<open>noexcept\<close> and has no handler: a failing query ends the process.\<close>

definition isSchedulingRelevant :: "PlanId \<Rightarrow> bool result tx" where
  "isSchedulingRelevant currentPlanId =
     tx_bind (execQuery newest_plans) (\<lambda>ids.
     tx_return
       (if length ids \<noteq> 1
        then Inl (InconsistentPgResultException
               (''Invalid number of relevant schedulings: '' @ show_nat (length ids)))
        else Inr (hd ids = currentPlanId)))"

definition update_plan :: "PlanId \<Rightarrow> unit stmt" where
  "update_plan i now d =
     Inr ((), d\<lparr>t_plan := map (\<lambda>r. if pr_id r = i then r\<lparr>pr_updated := now\<rparr> else r) (t_plan d)\<rparr>)"

definition refreshPlanActivityTs :: "PlanId \<Rightarrow> unit result tx" where
  "refreshPlanActivityTs currentPlanId =
     tx_try (tx_bind (execQuery (update_plan currentPlanId)) (\<lambda>_. tx_return (Inr ())))
       (failure_prefix ''Unexpected exception while refreshing plan activity: '')"

definition terminateVms :: "VmId list \<Rightarrow> unit result tx" where
  "terminateVms ids =
     (if ids = [] then tx_return (Inr ())
      else tx_try
        (tx_bind (execQuery (update_vms (\<lambda>r. vr_id r \<in> set ids) (\<lambda>r. r\<lparr>vr_status := PendingTermination\<rparr>)))
          (\<lambda>_. tx_return (Inr ())))
        (failure_prefix ''Unexpected exception while setting status 'pending_termination' for vms: ''))"

definition set_idle :: "VmIdToCapacity \<Rightarrow> vm_row \<Rightarrow> vm_row" where
  "set_idle m r = (case map_of m (vr_id r) of None \<Rightarrow> r
     | Some c \<Rightarrow> r\<lparr>vr_cpu_idle := uint (cpu c), vr_ram_idle := uint (ram c)\<rparr>)"

definition updateVmCapacities :: "VmIdToCapacity \<Rightarrow> unit result tx" where
  "updateVmCapacities m =
     (if m = [] then tx_return (Inr ())
      else tx_try
        (tx_bind (execQuery (update_vms (\<lambda>r. vr_id r \<in> keys m) (set_idle m)))
          (\<lambda>_. tx_return (Inr ())))
        (failure_prefix ''Unexpected exception while updating vms' capacities: ''))"

definition new_vm_row :: "VmId \<Rightarrow> DesiredSlot \<Rightarrow> int \<Rightarrow> vm_row" where
  "new_vm_row i slot now =
     \<lparr>vr_id = i, vr_status = PendingAllocation, vr_cpu = uint (cpu (total slot)), vr_ram = uint (ram (total slot)),
      vr_cpu_idle = uint (cpu (idle slot)), vr_ram_idle = uint (ram (idle slot)), vr_cloud_vm_id = None,
      vr_cloud_vm_type = None, vr_created = now, vr_last_status_update = now, vr_agent_activity = None,
      vr_restart_count = 0\<rparr>"

definition insert_vm :: "DesiredSlot \<Rightarrow> VmId stmt" where
  "insert_vm slot now d =
     (let i = next_vm (seqs d); r = new_vm_row i slot now
      in if vm_row_ok r
         then Inr (i, d\<lparr>t_vms := t_vms d @ [r], t_vm_log := t_vm_log d @ [(i, PendingAllocation, now)],
                        seqs := (seqs d)\<lparr>next_vm := i + 1\<rparr>\<rparr>)
         else Inl out_of_range)"

fun allocate_loop :: "DesiredSlotMap \<Rightarrow> (DesiredSlotId, VmId) umap \<Rightarrow> (DesiredSlotId, VmId) umap result tx" where
  "allocate_loop [] allocated = tx_return (Inr allocated)"
| "allocate_loop ((i, slot) # rest) allocated =
     tx_bind_result
       (tx_try (tx_bind (execQuery (insert_vm slot)) (\<lambda>v. tx_return (Inr (umap_emplace i v allocated))))
          (failure_prefix ''Unexpected exception while inserting new vm row: ''))
       (allocate_loop rest)"

definition allocateNewVms :: "DesiredSlotMap \<Rightarrow> (DesiredSlotId, VmId) umap result tx" where
  "allocateNewVms desiredSlots = allocate_loop desiredSlots []"

fun assignment_target :: "(DesiredSlotId, VmId) umap \<Rightarrow> VmInfo \<Rightarrow> VmId option" where
  "assignment_target slotsToVms (DesiredVm i) = map_of slotsToVms i"
| "assignment_target slotsToVms (ExistingVm v) = Some v"

definition assign_job :: "(JobId \<Rightarrow> VmId option) \<Rightarrow> job_row \<Rightarrow> job_row" where
  "assign_job target r = r\<lparr>jr_status := Scheduled, jr_vm_id := target (jr_id r)\<rparr>"

text \<open>
  \<^verbatim>\<open>slotsToVms.at(...)\<close> throws for an unknown slot, outside the \<^verbatim>\<open>try\<close> of this \<^verbatim>\<open>noexcept\<close> function.
\<close>

definition applyJobVmAssignments :: "JobToVm \<Rightarrow> (DesiredSlotId, VmId) umap \<Rightarrow> unit result tx" where
  "applyJobVmAssignments vmAssignments slotsToVms =
     (if vmAssignments = [] then tx_return (Inr ())
      else if \<exists>(j, t) \<in> set vmAssignments. assignment_target slotsToVms t = None
      then tx_throw (std_exception ''out_of_range'')
      else tx_try
        (tx_bind (execQuery (update_jobs (\<lambda>r. jr_id r \<in> keys vmAssignments)
            (assign_job (\<lambda>j. Option.bind (map_of vmAssignments j) (assignment_target slotsToVms)))))
          (\<lambda>_. tx_return (Inr ())))
        (failure_prefix ''Unexpected exception while setting status 'scheduled' for jobs: ''))"

text \<open>The part of \<^verbatim>\<open>commitPlanChange\<close> under the lock.\<close>

definition commit_locked :: "StateChange \<Rightarrow> PlanId \<Rightarrow> unit result tx" where
  "commit_locked state planId =
     tx_bind_result (isSchedulingRelevant planId) (\<lambda>relevant.
     if \<not> relevant then tx_return (Inl (SchedulingCancelled ''Current scheduling is not the newest one''))
     else
       tx_bind_result (checkConflicts state) (\<lambda>_.
       tx_bind_result (terminateVms (vmsToTerminate state)) (\<lambda>_.
       tx_bind_result (updateVmCapacities (updatedIdleCapacities state)) (\<lambda>_.
       tx_bind_result (allocateNewVms (desiredSlotMap state)) (\<lambda>allocatedVms.
       tx_bind_result (applyJobVmAssignments (jobToVm state) allocatedVms) (\<lambda>_.
       tx_bind_result (refreshPlanActivityTs planId) (\<lambda>_.
       tx_try (tx_bind tx_commit (\<lambda>_. tx_return (Inr ())))
         (failure_prefix ''Unexpected exception while committing plan change: ''))))))))"

definition commitPlanChange :: "StateChange \<Rightarrow> PlanId \<Rightarrow> pg \<Rightarrow> unit result call \<times> pg" where
  "commitPlanChange state planId = acquireLock False (commit_locked state planId)"

end
