(* ===== verification/StorageVms.thy ===== *)
theory StorageVms
  imports StoragePlan
begin

text \<open>
  The storage operations of the allocator, the failure detector and the agents
  (\<^verbatim>\<open>libs/db/impl/pg_task_storage.cpp\<close>): handing out VMs to allocate and to terminate, saving the
  outcomes, restarting or giving up what got stuck, and the agents' reports.
\<close>

section \<open>Allocation and termination of VMs\<close>

text \<open>
  \<^verbatim>\<open>UPDATE ... WHERE id IN (SELECT id ... WHERE status = s LIMIT n FOR UPDATE SKIP LOCKED) RETURNING ...\<close>
  There is no \<^verbatim>\<open>ORDER BY\<close>: which rows fill the limit and in which order they come back is up to the server.
  \<open>scan\<close>, a parameter, is the sequence of identifiers its scan comes across; a row that is not
  among them is locked by another transaction and skipped.
\<close>

definition select_limit :: "VmId list \<Rightarrow> VmStatus \<Rightarrow> size_t \<Rightarrow> db \<Rightarrow> VmId list" where
  "select_limit scan s n d =
     take (unat n) (filter (\<lambda>v. \<exists>r \<in> set (t_vms d). vr_id r = v \<and> vr_status r = s) (remdups scan))"

definition returned_rows :: "VmId list \<Rightarrow> vm_row list \<Rightarrow> vm_row list" where
  "returned_rows ids rows = concat (map (\<lambda>v. filter (\<lambda>r. vr_id r = v) rows) ids)"

definition take_vms :: "VmId list \<Rightarrow> VmStatus \<Rightarrow> VmStatus \<Rightarrow> size_t \<Rightarrow> vm_row list stmt" where
  "take_vms scan from to n now d =
     (if \<not> int8 (uint n) then Inl ''bigint out of range''
      else let ids = select_limit scan from n d
           in case update_vms (\<lambda>r. vr_id r \<in> set ids) (\<lambda>r. r\<lparr>vr_status := to\<rparr>) now d of
                Inl e \<Rightarrow> Inl e
              | Inr (rows, d') \<Rightarrow> Inr (returned_rows ids rows, d'))"

text \<open>
  Reading the rows after the transaction, outside of every \<^verbatim>\<open>try\<close> of a \<^verbatim>\<open>noexcept\<close> function.
\<close>

definition read_rows :: "('a \<Rightarrow> pg_exn + 'b) \<Rightarrow> 'a list result call \<times> pg \<Rightarrow> 'b list result call \<times> pg" where
  "read_rows f res =
     (case res of
        (StdTerminate, p) \<Rightarrow> (StdTerminate, p)
      | (Returned (Inl e), p) \<Rightarrow> (Returned (Inl e), p)
      | (Returned (Inr rows), p) \<Rightarrow>
          (case rows_map f rows of Inl _ \<Rightarrow> (StdTerminate, p) | Inr xs \<Rightarrow> (Returned (Inr xs), p)))"

definition pending_of_row :: "vm_row \<Rightarrow> pg_exn + AllocationPendingVmInfo" where
  "pending_of_row r = (case row_capacity (vr_cpu r) (vr_ram r) of Inl e \<Rightarrow> Inl e
     | Inr c \<Rightarrow> Inr \<lparr>ap_id = vr_id r, ap_capacity = c\<rparr>)"

definition getVmsToAllocate :: "VmId list \<Rightarrow> size_t \<Rightarrow> pg \<Rightarrow> AllocationPendingVmInfo list result call \<times> pg" where
  "getVmsToAllocate scan maxVmAllocationCount p =
     read_rows pending_of_row (execWritableQuery (take_vms scan PendingAllocation Allocating maxVmAllocationCount) p)"

definition terminating_of_row :: "vm_row \<Rightarrow> pg_exn + TerminationPendingVmInfo" where
  "terminating_of_row r = (case as_string (vr_cloud_vm_id r) of Inl e \<Rightarrow> Inl e
     | Inr c \<Rightarrow> Inr \<lparr>tpv_id = vr_id r, tpv_cloudVmId = c\<rparr>)"

definition getVmsToTerminate :: "VmId list \<Rightarrow> size_t \<Rightarrow> pg \<Rightarrow> TerminationPendingVmInfo list result call \<times> pg" where
  "getVmsToTerminate scan maxVmTerminationCount p =
     read_rows terminating_of_row (execWritableQuery (take_vms scan PendingTermination Terminating maxVmTerminationCount) p)"

text \<open>\<^verbatim>\<open>if (result.IsSuccess()) return Success(); else return Failure(...)\<close>.\<close>

definition drop_rows :: "'a result call \<times> pg \<Rightarrow> unit result call \<times> pg" where
  "drop_rows res = (case res of
     (StdTerminate, p) \<Rightarrow> (StdTerminate, p)
   | (Returned (Inl e), p) \<Rightarrow> (Returned (Inl e), p)
   | (Returned (Inr _), p) \<Rightarrow> (Returned (Inr ()), p))"

definition setVmStatus :: "VmId list \<Rightarrow> VmStatus \<Rightarrow> pg \<Rightarrow> unit result call \<times> pg" where
  "setVmStatus vmIds status p =
     drop_rows (execWritableQuery (with_ids vmIds
       (update_vms (\<lambda>r. vr_id r \<in> set vmIds) (\<lambda>r. r\<lparr>vr_status := status\<rparr>))) p)"

definition returnUnterminatedVms :: "VmId list \<Rightarrow> pg \<Rightarrow> unit result call \<times> pg" where
  "returnUnterminatedVms vmIds = setVmStatus vmIds PendingTermination"

definition saveVmTerminationResult :: "VmId \<Rightarrow> pg \<Rightarrow> unit result call \<times> pg" where
  "saveVmTerminationResult vmId = setVmStatus [vmId] Terminated"

text \<open>The provider's identifiers are put between quotes as they are; they contain no quote.\<close>

definition saveVmAllocationResult :: "VmId \<Rightarrow> AllocatedVmInfo \<Rightarrow> pg \<Rightarrow> unit result call \<times> pg" where
  "saveVmAllocationResult vmId info p =
     drop_rows (execWritableQuery
       (update_vms (\<lambda>r. vr_id r = vmId)
          (\<lambda>r. r\<lparr>vr_status := Allocated, vr_cloud_vm_id := Some (ai_id info), vr_cloud_vm_type := Some (ai_type info)\<rparr>)) p)"

definition info_of_row :: "vm_row \<Rightarrow> pg_exn + AllocatedVmInfo" where
  "info_of_row r = (case as_string (vr_cloud_vm_id r) of Inl e \<Rightarrow> Inl e
     | Inr i \<Rightarrow> (case as_string (vr_cloud_vm_type r) of Inl e \<Rightarrow> Inl e | Inr t \<Rightarrow> Inr \<lparr>ai_id = i, ai_type = t\<rparr>))"

definition getAllocatedVms :: "pg \<Rightarrow> AllocatedVmInfo set result call \<times> pg" where
  "getAllocatedVms =
     try_txn (failure_prefix ''Unexpected pg exception while receiving allocated VMs: '')
       (tx_bind (execQuery (select_vms (\<lambda>r. vr_status r \<in> getActiveVmStatuses))) (\<lambda>rows.
        tx_bind (tx_lift (rows_map info_of_row rows)) (\<lambda>infos. tx_return (Inr (set infos)))))"

section \<open>Restarting and giving up\<close>

text \<open>
  A condition on VM rows as SQL: reading it may fail (an interval out of range, an empty list).
\<close>

type_synonym vm_cond = "string + (int \<Rightarrow> vm_row \<Rightarrow> bool)"

definition stale_cond :: "int \<Rightarrow> vm_cond" where
  "stale_cond limit = (case interval_seconds limit of Inl m \<Rightarrow> Inl m
     | Inr i \<Rightarrow> Inr (\<lambda>now r. now > vr_last_status_update r + i))"

definition ids_cond :: "VmId list \<Rightarrow> vm_cond" where
  "ids_cond ids = (if ids = [] then Inl syntax_error else Inr (\<lambda>_ r. vr_id r \<in> set ids))"

definition restart_stmt :: "vm_cond \<Rightarrow> size_t \<Rightarrow> vm_row list stmt" where
  "restart_stmt cond attempts now d =
     (case cond of Inl m \<Rightarrow> Inl m
      | Inr c \<Rightarrow> update_vms (\<lambda>r. vr_status r = Allocating \<and> vr_restart_count r < uint attempts \<and> c now r)
          (\<lambda>r. r\<lparr>vr_status := PendingAllocation, vr_restart_count := vr_restart_count r + 1\<rparr>) now d)"

definition restartAllocatingVms :: "vm_cond \<Rightarrow> size_t \<Rightarrow> pg \<Rightarrow> unit result call \<times> pg" where
  "restartAllocatingVms cond attempts p = drop_rows (execWritableQuery (restart_stmt cond attempts) p)"

definition restartStaleAllocatingVms :: "int \<Rightarrow> size_t \<Rightarrow> pg \<Rightarrow> unit result call \<times> pg" where
  "restartStaleAllocatingVms allocationTimeLimit attempts = restartAllocatingVms (stale_cond allocationTimeLimit) attempts"

text \<open>\<^verbatim>\<open>restartJobs\<close>: back to the queue, or to \<open>InternalError\<close> once the attempts are used up.\<close>

definition on_vms :: "VmId list \<Rightarrow> job_row \<Rightarrow> bool" where
  "on_vms vmIds r = (case jr_vm_id r of None \<Rightarrow> False | Some v \<Rightarrow> v \<in> set vmIds)"

definition restartJobs :: "VmId list \<Rightarrow> JobStatus \<Rightarrow> size_t \<Rightarrow> unit tx" where
  "restartJobs vmIds initialStatus attempts =
     tx_bind (execQuery (with_ids vmIds (update_jobs
        (\<lambda>r. jr_status r = initialStatus \<and> jr_restart_count r < uint attempts \<and> on_vms vmIds r)
        (\<lambda>r. r\<lparr>jr_status := Queued, jr_restart_count := jr_restart_count r + 1\<rparr>)))) (\<lambda>_.
     tx_bind (execQuery (with_ids vmIds (update_jobs
        (\<lambda>r. jr_status r = initialStatus \<and> jr_restart_count r \<ge> uint attempts \<and> on_vms vmIds r)
        (\<lambda>r. r\<lparr>jr_status := InternalError\<rparr>)))) (\<lambda>_.
     tx_return ()))"

definition terminate_stmt :: "vm_cond \<Rightarrow> VmStatus \<Rightarrow> VmStatus \<Rightarrow> size_t \<Rightarrow> vm_row list stmt" where
  "terminate_stmt cond initialStatus targetStatus attempts now d =
     (case cond of Inl m \<Rightarrow> Inl m
      | Inr c \<Rightarrow> update_vms (\<lambda>r. vr_status r = initialStatus \<and> vr_restart_count r \<ge> uint attempts \<and> c now r)
          (\<lambda>r. r\<lparr>vr_status := targetStatus\<rparr>) now d)"

text \<open>The second \<^verbatim>\<open>terminateVms_\<close>; without a VM to terminate it returns before the commit.\<close>

definition terminateVmsWhere ::
    "vm_cond \<Rightarrow> VmStatus \<Rightarrow> VmStatus \<Rightarrow> size_t \<Rightarrow> size_t \<Rightarrow> pg \<Rightarrow> unit result call \<times> pg" where
  "terminateVmsWhere cond initialStatus targetStatus vmAttempts jobAttempts =
     try_txn (failure_prefix ''Unexpected exception while handling stale allocating VMs: '')
       (tx_bind (execQuery (terminate_stmt cond initialStatus targetStatus vmAttempts)) (\<lambda>rows.
        let ids = map vr_id rows in
        if ids = [] then tx_return (Inr ())
        else tx_bind (restartJobs ids Scheduled jobAttempts) (\<lambda>_.
             tx_bind tx_commit (\<lambda>_. tx_return (Inr ())))))"

definition terminateStaleAllocatingVms :: "int \<Rightarrow> size_t \<Rightarrow> size_t \<Rightarrow> pg \<Rightarrow> unit result call \<times> pg" where
  "terminateStaleAllocatingVms allocationTimeLimit vmAttempts jobAttempts =
     terminateVmsWhere (stale_cond allocationTimeLimit) Allocating Terminated vmAttempts jobAttempts"

definition rollbackUnallocatedVmsState :: "VmId list \<Rightarrow> size_t \<Rightarrow> size_t \<Rightarrow> pg \<Rightarrow> unit result call \<times> pg" where
  "rollbackUnallocatedVmsState vmIds vmAttempts jobAttempts p =
     (case restartAllocatingVms (ids_cond vmIds) vmAttempts p of
        (Returned (Inr _), p') \<Rightarrow> terminateVmsWhere (ids_cond vmIds) Allocating Terminated vmAttempts jobAttempts p'
      | r \<Rightarrow> r)"

definition inactive_stmt :: "int \<Rightarrow> vm_row list stmt" where
  "inactive_stmt limit now d =
     (case interval_seconds limit of Inl m \<Rightarrow> Inl m
      | Inr i \<Rightarrow> update_vms (\<lambda>r. vr_status r = AgentStarted \<and>
            (case vr_agent_activity r of None \<Rightarrow> False | Some a \<Rightarrow> now > a + i))
          (\<lambda>r. r\<lparr>vr_status := PendingTermination\<rparr>) now d)"

definition terminateVmsWithInactiveAgents :: "int \<Rightarrow> size_t \<Rightarrow> pg \<Rightarrow> unit result call \<times> pg" where
  "terminateVmsWithInactiveAgents limit jobAttempts =
     try_txn (failure_prefix ''Unexpected exception while handling VMs with inactive agents: '')
       (tx_bind (execQuery (inactive_stmt limit)) (\<lambda>rows.
        let ids = map vr_id rows in
        if ids = [] then tx_return (Inr ())
        else tx_bind (restartJobs ids Running jobAttempts) (\<lambda>_.
             tx_bind tx_commit (\<lambda>_. tx_return (Inr ())))))"

definition terminateVmsWithoutAgents :: "int \<Rightarrow> size_t \<Rightarrow> pg \<Rightarrow> unit result call \<times> pg" where
  "terminateVmsWithoutAgents agentStartupTimeLimit jobAttempts =
     terminateVmsWhere (stale_cond agentStartupTimeLimit) Allocated PendingTermination 0 jobAttempts"

section \<open>Agents\<close>

definition getAssignedJobs :: "VmId \<Rightarrow> pg \<Rightarrow> AssignedJob list result call \<times> pg" where
  "getAssignedJobs vmId =
     try_txn (failure_prefix ''Unexpected pg exception: '')
       (tx_bind (execQuery (update_vms (\<lambda>r. vr_id r = vmId \<and> vr_status r = Allocated)
           (\<lambda>r. r\<lparr>vr_status := AgentStarted\<rparr>))) (\<lambda>_.
        tx_bind (execQuery (\<lambda>now. update_vms (\<lambda>r. vr_id r = vmId) (\<lambda>r. r\<lparr>vr_agent_activity := Some now\<rparr>) now)) (\<lambda>_.
        tx_bind (execQuery (select_jobs (\<lambda>r. jr_vm_id r = Some vmId \<and> jr_status r \<in> getAssignedJobStatuses))) (\<lambda>rows.
        tx_bind tx_commit (\<lambda>_.
        tx_return (Inr (map (\<lambda>r. \<lparr>aj_id = jr_id r, aj_status = jr_status r\<rparr>) rows)))))))"

definition job_not_found :: "VmId \<Rightarrow> JobId \<Rightarrow> string" where
  "job_not_found vmId jobId =
     ''No job with id ''@ [CHR 39] @ show_int jobId @ [CHR 39] @ '' assigned for VM with id '' @ [CHR 39] @ show_int vmId
       @ [CHR 39] @ ''.''"

text \<open>The join of a job with its task.\<close>

definition select_launch :: "VmId \<Rightarrow> JobId \<Rightarrow> (job_row \<times> task_row) list stmt" where
  "select_launch vmId jobId now d =
     Inr (filter (\<lambda>(j, t). jr_task_id j = tr_id t \<and> jr_vm_id j = Some vmId \<and> jr_id j = jobId)
            (List.product (t_jobs d) (t_tasks d)), d)"

definition launch_of_row :: "job_row \<times> task_row \<Rightarrow> pg_exn + JobToLaunch" where
  "launch_of_row r = (case r of (j, t) \<Rightarrow>
     (case row_capacity (jr_cpu j) (jr_ram j) of Inl e \<Rightarrow> Inl e
      | Inr c \<Rightarrow> Inr \<lparr>jl_id = jr_id j, capacityLimits = c, taskSettings = tr_settings t,
                       jl_imageVersion = tr_image_version t, jl_jobOptions = jr_options j\<rparr>))"

definition getJobToLaunch :: "VmId \<Rightarrow> JobId \<Rightarrow> pg \<Rightarrow> JobToLaunch result call \<times> pg" where
  "getJobToLaunch vmId jobId =
     try_txn (failure_prefix ''Unexpected pg exception: '')
       (tx_bind (execQuery (select_launch vmId jobId)) (\<lambda>rows.
        case rows of
          [] \<Rightarrow> tx_return (Inl (JobNotFoundException (job_not_found vmId jobId)))
        | r # _ \<Rightarrow> tx_bind (tx_lift (launch_of_row r)) (\<lambda>l. tx_return (Inr l))))"

definition report_assign :: "JobState \<Rightarrow> int \<Rightarrow> job_row \<Rightarrow> job_row" where
  "report_assign jobState now r =
     (let r' = r\<lparr>jr_result_url := resultUrl jobState, jr_status := js_status jobState\<rparr>
      in if js_status jobState \<in> getFinalJobStatuses then r'\<lparr>jr_finished := Some now\<rparr>
         else r'\<lparr>jr_started := (case jr_started r of None \<Rightarrow> Some now | Some s \<Rightarrow> Some s)\<rparr>)"

definition updateJobState :: "VmId \<Rightarrow> JobId \<Rightarrow> JobState \<Rightarrow> pg \<Rightarrow> unit result call \<times> pg" where
  "updateJobState vmId jobId jobState =
     try_txn (failure_prefix ''Unexpected pg exception while updating job state: '')
       (tx_bind (execQuery (select_jobs (\<lambda>r. jr_vm_id r = Some vmId \<and> jr_id r = jobId))) (\<lambda>rows.
        case rows of
          [] \<Rightarrow> tx_return (Inl (JobNotFoundException (job_not_found vmId jobId)))
        | row # _ \<Rightarrow>
            if jr_status row = Cancelling \<and> js_status jobState \<noteq> Cancelled then tx_return (Inr ())
            else
              tx_bind (execQuery (\<lambda>now. update_jobs
                 (\<lambda>r. jr_vm_id r = Some vmId \<and> jr_id r = jobId \<and> jr_status r \<notin> getFinalJobStatuses)
                 (report_assign jobState now) now)) (\<lambda>_.
              tx_bind (if js_status jobState \<in> getFinalJobStatuses then releaseVmResources [jobId] else tx_return ()) (\<lambda>_.
              tx_bind tx_commit (\<lambda>_. tx_return (Inr ()))))))"

end
