(* ===== verification/StorageOps.thy ===== *)
theory StorageOps
  imports StorageVms "HOL-Library.Sublist"
begin

text \<open>
  The interface \<^verbatim>\<open>TaskStorage\<close> (\<^verbatim>\<open>libs/task_storage/include/task_storage.h\<close>) as one data type of
  calls, and the principle by which facts about all of them are proved: a preorder on databases
  that every statement keeps is kept by every operation, whatever fails on the way.
\<close>

datatype storage_op =
    AddTask TaskParameters
  | StartScheduling string int "size_t option"
  | GetCurrentState
  | CommitPlanChange StateChange PlanId
  | GetVmsToAllocate "VmId list" size_t
  | GetVmsToTerminate "VmId list" size_t
  | RollbackUnallocatedVmsState "VmId list" size_t size_t
  | ReturnUnterminatedVms "VmId list"
  | SaveVmAllocationResult VmId AllocatedVmInfo
  | SaveVmTerminationResult VmId
  | GetJobStates TaskId
  | CancelTask TaskId
  | RestartStaleAllocatingVms int size_t
  | TerminateStaleAllocatingVms int size_t size_t
  | TerminateVmsWithInactiveAgents int size_t
  | TerminateVmsWithoutAgents int size_t
  | GetAssignedJobs VmId
  | GetJobToLaunch VmId JobId
  | UpdateJobState VmId JobId JobState
  | GetAllocatedVms
  | CancelTimedOutJobs

fun apply_op :: "(string \<Rightarrow> string option) \<Rightarrow> storage_op \<Rightarrow> pg \<Rightarrow> pg" where
  "apply_op jsonb (AddTask tp) p = snd (addTask jsonb tp p)"
| "apply_op jsonb (StartScheduling backend interval lock) p = snd (startScheduling backend interval lock p)"
| "apply_op jsonb GetCurrentState p = snd (getCurrentState p)"
| "apply_op jsonb (CommitPlanChange ch plan) p = snd (commitPlanChange ch plan p)"
| "apply_op jsonb (GetVmsToAllocate scan n) p = snd (getVmsToAllocate scan n p)"
| "apply_op jsonb (GetVmsToTerminate scan n) p = snd (getVmsToTerminate scan n p)"
| "apply_op jsonb (RollbackUnallocatedVmsState ids va ja) p = snd (rollbackUnallocatedVmsState ids va ja p)"
| "apply_op jsonb (ReturnUnterminatedVms ids) p = snd (returnUnterminatedVms ids p)"
| "apply_op jsonb (SaveVmAllocationResult v info) p = snd (saveVmAllocationResult v info p)"
| "apply_op jsonb (SaveVmTerminationResult v) p = snd (saveVmTerminationResult v p)"
| "apply_op jsonb (GetJobStates t) p = snd (getJobStates t p)"
| "apply_op jsonb (CancelTask t) p = snd (cancelTask t p)"
| "apply_op jsonb (RestartStaleAllocatingVms limit va) p = snd (restartStaleAllocatingVms limit va p)"
| "apply_op jsonb (TerminateStaleAllocatingVms limit va ja) p = snd (terminateStaleAllocatingVms limit va ja p)"
| "apply_op jsonb (TerminateVmsWithInactiveAgents limit ja) p = snd (terminateVmsWithInactiveAgents limit ja p)"
| "apply_op jsonb (TerminateVmsWithoutAgents limit ja) p = snd (terminateVmsWithoutAgents limit ja p)"
| "apply_op jsonb (GetAssignedJobs v) p = snd (getAssignedJobs v p)"
| "apply_op jsonb (GetJobToLaunch v j) p = snd (getJobToLaunch v j p)"
| "apply_op jsonb (UpdateJobState v j js) p = snd (updateJobState v j js p)"
| "apply_op jsonb GetAllocatedVms p = snd (getAllocatedVms p)"
| "apply_op jsonb CancelTimedOutJobs p = snd (cancelTimedOutJobs p)"

text \<open>A condition on the changes that are committed, and none on the other calls.\<close>

fun op_ok :: "(db \<Rightarrow> StateChange \<Rightarrow> bool) \<Rightarrow> db \<Rightarrow> storage_op \<Rightarrow> bool" where
  "op_ok okc d (CommitPlanChange ch plan) = okc d ch"
| "op_ok okc d _ = True"

fun is_plan_op :: "storage_op \<Rightarrow> bool" where
  "is_plan_op (StartScheduling b i l) = True"
| "is_plan_op (CommitPlanChange ch plan) = True"
| "is_plan_op _ = False"

text \<open>The operations that write rows of \<^verbatim>\<open>scheduler.jobs\<close>, the commit of a plan apart.\<close>

fun is_job_op :: "storage_op \<Rightarrow> bool" where
  "is_job_op (AddTask tp) = True"
| "is_job_op (RollbackUnallocatedVmsState ids va ja) = True"
| "is_job_op (CancelTask t) = True"
| "is_job_op (TerminateStaleAllocatingVms limit va ja) = True"
| "is_job_op (TerminateVmsWithInactiveAgents limit ja) = True"
| "is_job_op (TerminateVmsWithoutAgents limit ja) = True"
| "is_job_op (UpdateJobState v j js) = True"
| "is_job_op CancelTimedOutJobs = True"
| "is_job_op _ = False"

section \<open>Relations kept by transactions\<close>

definition stmt_keeps :: "(db \<Rightarrow> db \<Rightarrow> bool) \<Rightarrow> 'r stmt \<Rightarrow> bool" where
  "stmt_keeps R q \<longleftrightarrow> (\<forall>n d r d'. q n d = Inr (r, d') \<longrightarrow> R d d')"

text \<open>
  \<open>keeps R m\<close>: from a transaction whose work stands in \<open>R\<close> to what is committed, \<open>m\<close> moves the
  committed tables along \<open>R\<close> and its work again stands in \<open>R\<close> to them.
\<close>

definition keeps :: "(db \<Rightarrow> db \<Rightarrow> bool) \<Rightarrow> 'a tx \<Rightarrow> bool" where
  "keeps R m \<longleftrightarrow> (\<forall>t r t'. m t = (r, t') \<longrightarrow> R (committed t) (work t) \<longrightarrow>
     R (committed t) (committed t') \<and> R (committed t') (work t'))"

locale db_relation =
  fixes R :: "db \<Rightarrow> db \<Rightarrow> bool"
  assumes rel_refl: "R d d"
    and rel_trans: "R a b \<Longrightarrow> R b c \<Longrightarrow> R a c"
    and rel_seqs: "R d d' \<Longrightarrow> R d (d\<lparr>seqs := seqs d'\<rparr>)"
begin

lemma keeps_return: "keeps R (tx_return x)"
  by (auto simp: keeps_def tx_return_def rel_refl)

lemma keeps_throw: "keeps R (tx_throw e)"
  by (auto simp: keeps_def tx_throw_def rel_refl)

lemma keeps_lift: "keeps R (tx_lift r)"
  by (auto simp: keeps_def tx_lift_def rel_refl)

lemma keeps_bind:
  assumes "keeps R m" and "\<And>x. keeps R (f x)"
  shows "keeps R (tx_bind m f)"
  unfolding keeps_def
proof (intro allI impI)
  fix t r t'
  assume run: "tx_bind m f t = (r, t')" and start: "R (committed t) (work t)"
  obtain q u where m: "m t = (q, u)" by (cases "m t")
  have mid: "R (committed t) (committed u)" "R (committed u) (work u)"
    using assms(1) m start unfolding keeps_def by blast+
  show "R (committed t) (committed t') \<and> R (committed t') (work t')"
  proof (cases q)
    case (Inl e)
    with run m mid show ?thesis by (simp add: tx_bind_def)
  next
    case (Inr x)
    then have "f x u = (r, t')" using run m by (simp add: tx_bind_def)
    then have "R (committed u) (committed t') \<and> R (committed t') (work t')"
      using assms(2) mid(2) unfolding keeps_def by blast
    with mid(1) rel_trans show ?thesis by blast
  qed
qed

lemma keeps_try: "keeps R m \<Longrightarrow> keeps R (tx_try m h)"
  by (auto simp: keeps_def tx_try_def split: prod.splits sum.splits)

lemma keeps_bind_result:
  assumes "keeps R m" and "\<And>x. keeps R (f x)"
  shows "keeps R (tx_bind_result m f)"
  unfolding tx_bind_result_def
  by (rule keeps_bind [OF assms(1)]) (auto intro: keeps_return assms(2) split: sum.splits)

lemma keeps_exec:
  assumes "stmt_keeps R q"
  shows "keeps R (execQuery q)"
  using assms unfolding keeps_def stmt_keeps_def execQuery_def Let_def
  by (auto simp: rel_refl intro: rel_trans split: if_splits fault.splits sum.splits prod.splits)

lemma keeps_commit: "keeps R tx_commit"
  unfolding keeps_def tx_commit_def Let_def
  by (auto simp: rel_refl split: if_splits fault.splits)

lemma run_txn_rel:
  assumes "keeps R body"
  shows "R (committed p) (committed (snd (run_txn h body p)))"
proof -
  have body: "R (committed p) (committed (end_txn t))" if "body (begin_txn p) = (r, t)" for r t
  proof -
    have "R (committed p) (committed t) \<and> R (committed t) (work t)"
      using assms that unfolding keeps_def by (metis begin_txn_def pg.select_convs(1) rel_refl txn.select_convs(1))
    then show ?thesis using rel_seqs rel_trans by (fastforce simp: end_txn_def)
  qed
  show ?thesis
    by (auto simp: run_txn_def rel_refl body split: fault.splits prod.splits sum.splits)
qed

lemma try_txn_rel: "keeps R body \<Longrightarrow> R (committed p) (committed (snd (try_txn h body p)))"
  unfolding try_txn_def by (intro run_txn_rel keeps_try)

lemmas keeps_rules = keeps_return keeps_throw keeps_lift keeps_bind keeps_bind_result keeps_try keeps_exec keeps_commit

lemma stmt_keeps_read:
  "stmt_keeps R (select_vms cv)" "stmt_keeps R (select_jobs cj)" "stmt_keeps R lock_plan" "stmt_keeps R max_lock"
  "stmt_keeps R last_activity" "stmt_keeps R newest_plans" "stmt_keeps R (select_launch v j)"
  by (auto simp: stmt_keeps_def select_vms_def select_jobs_def lock_plan_def max_lock_def last_activity_def
        newest_plans_def select_launch_def rel_refl)

lemma stmt_keeps_with_ids: "stmt_keeps R q \<Longrightarrow> stmt_keeps R (with_ids ids q)"
  by (auto simp: stmt_keeps_def with_ids_def)

end

section \<open>Operations and their statements\<close>

text \<open>Each operation keeps a relation that its own statements keep.\<close>

fun is_read_op :: "storage_op \<Rightarrow> bool" where
  "is_read_op GetCurrentState = True"
| "is_read_op (GetJobStates t) = True"
| "is_read_op (GetJobToLaunch v j) = True"
| "is_read_op GetAllocatedVms = True"
| "is_read_op _ = False"

context db_relation
begin

lemma snd_read_rows [simp]: "snd (read_rows f res) = snd res"
  by (auto simp: read_rows_def split: prod.splits call.splits sum.splits)

lemma snd_drop_rows [simp]: "snd (drop_rows res) = snd res"
  by (auto simp: drop_rows_def split: prod.splits call.splits sum.splits)

lemma execWritableQuery_rel: "stmt_keeps R q \<Longrightarrow> R (committed p) (committed (snd (execWritableQuery q p)))"
  unfolding execWritableQuery_def by (intro try_txn_rel keeps_rules)

lemma getCurrentState_rel: "R (committed p) (committed (snd (getCurrentState p)))"
  unfolding getCurrentState_def getQueuedJobs_def getActiveVms_def
  by (intro run_txn_rel keeps_bind_result keeps_bind keeps_try keeps_exec stmt_keeps_read keeps_return keeps_lift)

lemma apply_op_read: "is_read_op op \<Longrightarrow> R (committed p) (committed (apply_op jsonb op p))"
proof (cases op)
  case (GetJobStates t)
  then show ?thesis
    by (simp add: getJobStates_def) (intro try_txn_rel keeps_rules stmt_keeps_read)
next
  case GetAllocatedVms
  then show ?thesis
    by (simp add: getAllocatedVms_def) (intro try_txn_rel keeps_rules stmt_keeps_read)
next
  case (GetJobToLaunch v j)
  have "keeps R (tx_bind (execQuery (select_launch v j)) (\<lambda>rows. case rows of
      [] \<Rightarrow> tx_return (Inl (JobNotFoundException (job_not_found v j)))
    | r # _ \<Rightarrow> tx_bind (tx_lift (launch_of_row r)) (\<lambda>l. tx_return (Inr l))))"
    by (intro keeps_bind keeps_exec stmt_keeps_read) (auto intro!: keeps_rules split: list.splits)
  with GetJobToLaunch show ?thesis by (simp add: getJobToLaunch_def try_txn_rel)
qed (simp_all add: getCurrentState_rel)

lemma addTask_keeps:
  assumes "stmt_keeps R (insert_task jsonb tp)" and "\<And>i. stmt_keeps R (insert_jobs jsonb tp i)"
  shows "R (committed p) (committed (snd (addTask jsonb tp p)))"
  unfolding addTask_def by (intro try_txn_rel keeps_rules assms)

lemma keeps_release: "(\<And>ids. stmt_keeps R (release_stmt ids)) \<Longrightarrow> keeps R (releaseVmResources ids)"
  by (auto simp: releaseVmResources_def intro: keeps_return keeps_exec)

lemma cancelJobs_keeps:
  assumes "stmt_keeps R (\<lambda>n. update_jobs (c n) cancel_assign n)" and "\<And>ids. stmt_keeps R (release_stmt ids)"
  shows "R (committed p) (committed (snd (cancelJobs c p)))"
  unfolding cancelJobs_def Let_def
  by (intro try_txn_rel keeps_bind keeps_exec assms(1)) (auto intro: keeps_rules keeps_release assms(2))

lemma terminateVmsWhere_keeps:
  assumes "stmt_keeps R (terminate_stmt cond from s va)" and "\<And>ids. keeps R (restartJobs ids Scheduled ja)"
  shows "R (committed p) (committed (snd (terminateVmsWhere cond from s va ja p)))"
  unfolding terminateVmsWhere_def Let_def
  by (intro try_txn_rel keeps_bind keeps_exec assms(1)) (auto intro!: keeps_rules assms(2))

lemma inactiveAgents_keeps:
  assumes "stmt_keeps R (inactive_stmt limit)" and "\<And>ids. keeps R (restartJobs ids Running ja)"
  shows "R (committed p) (committed (snd (terminateVmsWithInactiveAgents limit ja p)))"
  unfolding terminateVmsWithInactiveAgents_def Let_def
  by (intro try_txn_rel keeps_bind keeps_exec assms(1)) (auto intro!: keeps_rules assms(2))

lemma restartAllocatingVms_keeps:
  "stmt_keeps R (restart_stmt c va) \<Longrightarrow> R (committed p) (committed (snd (restartAllocatingVms c va p)))"
  unfolding restartAllocatingVms_def by (simp add: execWritableQuery_rel)

lemma rollback_keeps:
  assumes "stmt_keeps R (restart_stmt (ids_cond ids) va)" and "stmt_keeps R (terminate_stmt (ids_cond ids) Allocating Terminated va)"
    and "\<And>ids. keeps R (restartJobs ids Scheduled ja)"
  shows "R (committed p) (committed (snd (rollbackUnallocatedVmsState ids va ja p)))"
proof -
  obtain c q where r: "restartAllocatingVms (ids_cond ids) va p = (c, q)"
    by (cases "restartAllocatingVms (ids_cond ids) va p")
  then have 1: "R (committed p) (committed q)"
    using restartAllocatingVms_keeps [OF assms(1), of p] by simp
  have 2: "R (committed q) (committed (snd (terminateVmsWhere (ids_cond ids) Allocating Terminated va ja q)))"
    by (rule terminateVmsWhere_keeps [OF assms(2,3)])
  note 3 = rel_trans [OF 1 2]
  show ?thesis
  proof (cases c)
    case (Returned x)
    with r 1 3 show ?thesis by (cases x) (simp_all add: rollbackUnallocatedVmsState_def)
  next
    case StdTerminate
    with r 1 show ?thesis by (simp add: rollbackUnallocatedVmsState_def)
  qed
qed

lemma getAssignedJobs_keeps:
  assumes "stmt_keeps R (update_vms (\<lambda>r. vr_id r = v \<and> vr_status r = Allocated) (\<lambda>r. r\<lparr>vr_status := AgentStarted\<rparr>))"
    and "\<And>c a n d rows d'. update_vms c (\<lambda>r. r\<lparr>vr_agent_activity := a\<rparr>) n d = Inr (rows, d') \<Longrightarrow> R d d'"
  shows "R (committed p) (committed (snd (getAssignedJobs v p)))"
proof -
  have "stmt_keeps R (\<lambda>n. update_vms c (\<lambda>r. r\<lparr>vr_agent_activity := Some n\<rparr>) n)" for c
    unfolding stmt_keeps_def by (blast intro: assms(2))
  then show ?thesis
    unfolding getAssignedJobs_def by (intro try_txn_rel keeps_rules assms(1) stmt_keeps_read)
qed

lemma updateJobState_keeps:
  assumes "stmt_keeps R (\<lambda>n. update_jobs (\<lambda>r. jr_vm_id r = Some v \<and> jr_id r = j \<and> jr_status r \<notin> getFinalJobStatuses)
      (report_assign js n) n)" and "\<And>ids. stmt_keeps R (release_stmt ids)"
  shows "R (committed p) (committed (snd (updateJobState v j js p)))"
  using assms unfolding updateJobState_def
  by (intro try_txn_rel keeps_bind keeps_exec stmt_keeps_read)
     (auto intro!: keeps_rules keeps_release split: list.splits)

end

section \<open>Relations kept by the storage\<close>

text \<open>
  The writing statements of the storage, by what they write, as three interfaces: those on VMs,
  those on tasks and jobs, and those on the plan. A relation that the statements on VMs keep is kept
  by every operation that writes no job.
\<close>

locale vm_relation = db_relation R for R :: "db \<Rightarrow> db \<Rightarrow> bool" +
  assumes w_status: "s \<in> {Allocating, PendingTermination, Terminating, Terminated} \<Longrightarrow>
        update_vms c (\<lambda>r. r\<lparr>vr_status := s\<rparr>) n d = Inr (rows, d') \<Longrightarrow> R d d'"
    and w_started: "stmt_keeps R (update_vms (\<lambda>r. vr_id r = v \<and> vr_status r = Allocated) (\<lambda>r. r\<lparr>vr_status := AgentStarted\<rparr>))"
    and w_activity: "update_vms c (\<lambda>r. r\<lparr>vr_agent_activity := a\<rparr>) n d = Inr (rows, d') \<Longrightarrow> R d d'"
    and w_restart: "update_vms c (\<lambda>r. r\<lparr>vr_status := PendingAllocation, vr_restart_count := vr_restart_count r + 1\<rparr>) n d
        = Inr (rows, d') \<Longrightarrow> R d d'"
    and w_allocated: "stmt_keeps R (update_vms c (\<lambda>r. r\<lparr>vr_status := Allocated,
        vr_cloud_vm_id := Some ci, vr_cloud_vm_type := Some ct\<rparr>))"
begin

lemma stmt_keeps_writes:
  "stmt_keeps R (take_vms scan PendingAllocation Allocating k)" "stmt_keeps R (take_vms scan PendingTermination Terminating k)"
  "stmt_keeps R (restart_stmt cond va)" "stmt_keeps R (inactive_stmt limit)"
  by (auto simp: stmt_keeps_def take_vms_def restart_stmt_def inactive_stmt_def Let_def
      split: if_splits sum.splits intro: w_status w_restart)

lemma stmt_keeps_status: "s \<in> {Allocating, PendingTermination, Terminating, Terminated} \<Longrightarrow>
    stmt_keeps R (update_vms c (\<lambda>r. r\<lparr>vr_status := s\<rparr>))"
  by (auto simp: stmt_keeps_def intro: w_status)

lemma stmt_keeps_terminate: "s \<in> {PendingTermination, Terminated} \<Longrightarrow> stmt_keeps R (terminate_stmt cond from s va)"
  by (auto simp: stmt_keeps_def terminate_stmt_def split: sum.splits intro: w_status)

lemma getAssignedJobs_rel: "R (committed p) (committed (snd (getAssignedJobs v p)))"
  by (rule getAssignedJobs_keeps [OF w_started]) (rule w_activity)

lemma apply_op_vms: "\<not> is_job_op op \<Longrightarrow> \<not> is_plan_op op \<Longrightarrow> R (committed p) (committed (apply_op jsonb op p))"
proof (cases "is_read_op op")
  case False
  assume "\<not> is_job_op op" "\<not> is_plan_op op"
  with False show ?thesis
    by (cases op) (auto simp: getVmsToAllocate_def getVmsToTerminate_def
      execWritableQuery_rel stmt_keeps_writes returnUnterminatedVms_def saveVmTerminationResult_def
      setVmStatus_def saveVmAllocationResult_def w_allocated stmt_keeps_with_ids stmt_keeps_status
      restartStaleAllocatingVms_def restartAllocatingVms_keeps getAssignedJobs_rel)
qed (simp add: apply_op_read)

end

text \<open>A relation that the statements on tasks and jobs keep as well is kept by every operation off the plan.\<close>

locale write_relation = vm_relation R for R :: "db \<Rightarrow> db \<Rightarrow> bool" +
  assumes w_release: "stmt_keeps R (release_stmt ids)"
    and w_task: "stmt_keeps R (insert_task jsonb tp)"
    and w_jobs: "stmt_keeps R (insert_jobs jsonb tp i)"
    and w_cancel: "(\<And>r. cj r \<Longrightarrow> jr_status r \<notin> getFinalJobStatuses) \<Longrightarrow>
        update_jobs cj cancel_assign n d = Inr (jrows, d') \<Longrightarrow> R d d'"
    and w_requeue: "(\<And>r. cj r \<Longrightarrow> jr_status r \<in> {Scheduled, Running}) \<Longrightarrow>
        stmt_keeps R (update_jobs cj (\<lambda>r. r\<lparr>jr_status := Queued, jr_restart_count := jr_restart_count r + 1\<rparr>))"
    and w_fail: "(\<And>r. cj r \<Longrightarrow> jr_status r \<in> {Scheduled, Running}) \<Longrightarrow>
        stmt_keeps R (update_jobs cj (\<lambda>r. r\<lparr>jr_status := InternalError\<rparr>))"
    and w_report: "update_jobs (\<lambda>r. jr_vm_id r = Some v \<and> jr_id r = j \<and> jr_status r \<notin> getFinalJobStatuses)
        (report_assign js n) n d = Inr (jrows, d') \<Longrightarrow> R d d'"
begin

lemma keeps_restartJobs: "s \<in> {Scheduled, Running} \<Longrightarrow> keeps R (restartJobs ids s ja)"
  unfolding restartJobs_def
  by (intro keeps_bind keeps_exec keeps_return stmt_keeps_with_ids w_requeue w_fail) auto

lemma cancelJobs_rel:
  assumes "\<And>n r. c n r \<Longrightarrow> jr_status r \<notin> getFinalJobStatuses"
  shows "R (committed p) (committed (snd (cancelJobs c p)))"
proof (rule cancelJobs_keeps [OF _ w_release])
  show "stmt_keeps R (\<lambda>n. update_jobs (c n) cancel_assign n)"
    unfolding stmt_keeps_def using assms by (blast intro: w_cancel)
qed

lemma terminateVmsWhere_rel:
  "s \<in> {PendingTermination, Terminated} \<Longrightarrow> R (committed p) (committed (snd (terminateVmsWhere cond from s va ja p)))"
  by (rule terminateVmsWhere_keeps) (simp_all add: stmt_keeps_terminate keeps_restartJobs)

lemma updateJobState_rel: "R (committed p) (committed (snd (updateJobState v j js p)))"
  by (rule updateJobState_keeps [OF _ w_release]) (unfold stmt_keeps_def, blast intro: w_report)

lemma apply_op_write: "\<not> is_plan_op op \<Longrightarrow> R (committed p) (committed (apply_op jsonb op p))"
proof (cases "is_job_op op")
  case True
  then show ?thesis
    by (cases op) (auto simp: addTask_keeps w_task w_jobs cancelTask_def cancelTimedOutJobs_def rollback_keeps
        terminateStaleAllocatingVms_def terminateVmsWithoutAgents_def terminateVmsWhere_rel inactiveAgents_keeps
        stmt_keeps_writes stmt_keeps_terminate keeps_restartJobs updateJobState_rel intro!: cancelJobs_rel)
qed (simp add: apply_op_vms)

end

text \<open>The statements on the plan and the lock table; they are all that starting a round writes.\<close>

locale plan_relation = db_relation R for R :: "db \<Rightarrow> db \<Rightarrow> bool" +
  assumes w_lock: "stmt_keeps R (insert_lock k)"
    and w_plan: "stmt_keeps R (insert_plan b)"
begin

lemma acquireLock_rel:
  assumes "keeps R body"
  shows "R (committed p) (committed (snd (acquireLock noWait body p)))"
  unfolding acquireLock_def
  by (intro run_txn_rel keeps_bind_result keeps_bind keeps_try keeps_exec stmt_keeps_read keeps_return assms)

lemma startScheduling_rel: "R (committed p) (committed (snd (startScheduling b i l p)))"
proof -
  have "keeps R (checkLeader n)" for n
    unfolding checkLeader_def
    by (intro keeps_try keeps_bind keeps_exec keeps_lift stmt_keeps_read)
       (auto intro!: keeps_rules w_lock)
  moreover have "keeps R (planWasRecentlyUpdated i)"
    unfolding planWasRecentlyUpdated_def
    by (intro keeps_try keeps_bind keeps_exec stmt_keeps_read) (auto intro: keeps_rules split: prod.splits)
  moreover have "keeps R (insertNewPlanRecord b)"
    unfolding insertNewPlanRecord_def by (intro keeps_rules w_plan)
  ultimately have body: "keeps R (tx_bind (case l of Some n \<Rightarrow> checkLeader n | None \<Rightarrow> tx_return (Inr ())) (\<lambda>_.
        tx_bind_result (planWasRecentlyUpdated i) (\<lambda>recent.
        if recent
        then tx_bind tx_commit (\<lambda>_. tx_return (Inl (SchedulingCancelled
               ''The plan was recently updated, new scheduling is not needed yet'')))
        else insertNewPlanRecord b)))"
    by (cases l) (simp_all add: keeps_rules)
  show ?thesis
    unfolding startScheduling_def by (rule acquireLock_rel [OF body])
qed

end

text \<open>
  A relation that all of them keep is kept by every operation; committing a plan change may need a
  fact \<open>okc\<close> about the change.
\<close>

locale storage_relation = write_relation R + plan_relation R for R :: "db \<Rightarrow> db \<Rightarrow> bool" +
  fixes okc :: "db \<Rightarrow> StateChange \<Rightarrow> bool"
  assumes w_commit: "okc (committed p) ch \<Longrightarrow> R (committed p) (committed (snd (commitPlanChange ch plan p)))"
begin

lemma apply_op_rel: "op_ok okc (committed p) op \<Longrightarrow> R (committed p) (committed (apply_op jsonb op p))"
proof (cases "is_plan_op op")
  case True
  then show "op_ok okc (committed p) op \<Longrightarrow> ?thesis" by (cases op) (simp_all add: startScheduling_rel w_commit)
qed (simp add: apply_op_write)

end

end
