(* ===== verification/CommitRule.thy ===== *)
theory CommitRule
  imports StorageOps
begin

text \<open>
  The proof rule for \<^verbatim>\<open>commitPlanChange\<close>: a chain of steps in one transaction, each of which may
  stop the rest with a failure. A triple carries a fact about the working tables from step to
  step, in particular what \<^verbatim>\<open>checkConflicts_\<close> has found out about the jobs.
\<close>

definition triple :: "(db \<Rightarrow> db \<Rightarrow> bool) \<Rightarrow> (db \<Rightarrow> bool) \<Rightarrow> 'a result tx \<Rightarrow> (db \<Rightarrow> bool) \<Rightarrow> bool" where
  "triple R Q m Q' \<longleftrightarrow> (\<forall>t r t'. m t = (r, t') \<longrightarrow> R (committed t) (work t) \<longrightarrow> Q (work t) \<longrightarrow>
     R (committed t) (committed t') \<and> R (committed t') (work t') \<and> (\<forall>x. r = Inr (Inr x) \<longrightarrow> Q' (work t')))"

text \<open>No job that the change assigns is in a final status.\<close>

definition jobs_free :: "StateChange \<Rightarrow> db \<Rightarrow> bool" where
  "jobs_free ch d \<longleftrightarrow> (\<forall>r \<in> set (t_jobs d). jr_id r \<in> keys (jobToVm ch) \<longrightarrow> jr_status r \<notin> getFinalJobStatuses)"

definition assignments_stmt :: "JobToVm \<Rightarrow> (DesiredSlotId, VmId) umap \<Rightarrow> job_row list stmt" where
  "assignments_stmt m slotsToVms = update_jobs (\<lambda>r. jr_id r \<in> keys m)
     (assign_job (\<lambda>j. Option.bind (map_of m j) (assignment_target slotsToVms)))"

lemma failure_prefix_ne [simp]: "failure_prefix m e \<noteq> Inr x"
  by (simp add: failure_prefix_def)

context db_relation
begin

lemma triple_bind:
  assumes "triple R Q m Q1" and "\<And>x. triple R Q1 (f x) Q2"
  shows "triple R Q (tx_bind_result m f) Q2"
  unfolding triple_def
proof (intro allI impI)
  fix t r t'
  assume run: "tx_bind_result m f t = (r, t')" and start: "R (committed t) (work t)" "Q (work t)"
  obtain q u where m: "m t = (q, u)" by (cases "m t")
  have mid: "R (committed t) (committed u)" "R (committed u) (work u)" "\<And>x. q = Inr (Inr x) \<Longrightarrow> Q1 (work u)"
    using assms(1) m start unfolding triple_def by blast+
  consider (stop) "t' = u" "\<forall>x. r \<noteq> Inr (Inr x)"
    | (go) x where "q = Inr (Inr x)" "f x u = (r, t')"
    using run m by (auto simp: tx_bind_result_def tx_bind_def tx_return_def split: sum.splits prod.splits)
  then show "R (committed t) (committed t') \<and> R (committed t') (work t') \<and> (\<forall>x. r = Inr (Inr x) \<longrightarrow> Q2 (work t'))"
  proof cases
    case stop
    with mid show ?thesis by simp
  next
    case (go x)
    have "R (committed u) (committed t') \<and> R (committed t') (work t') \<and> (\<forall>x. r = Inr (Inr x) \<longrightarrow> Q2 (work t'))"
      using assms(2) [of x] go mid unfolding triple_def by blast
    with mid(1) rel_trans show ?thesis by blast
  qed
qed

lemma triple_exec:
  assumes "\<And>n d r d'. q n d = Inr (r, d') \<Longrightarrow> Q d \<Longrightarrow> R d d' \<and> Q' d'" and "\<And>e x. h e \<noteq> Inr x"
  shows "triple R Q (tx_try (tx_bind (execQuery q) (\<lambda>x. tx_return (Inr (g x)))) h) Q'"
  using assms unfolding triple_def tx_try_def tx_bind_def tx_return_def execQuery_def Let_def
  by (auto simp: rel_refl intro: rel_trans split: if_splits fault.splits sum.splits prod.splits)

lemma triple_return: "(\<And>d. Q d \<Longrightarrow> Q' d) \<Longrightarrow> triple R Q (tx_return (Inr x)) Q'"
  by (auto simp: triple_def tx_return_def rel_refl)

lemma triple_fail: "triple R Q (tx_return (Inl e)) Q'"
  by (auto simp: triple_def tx_return_def rel_refl)

lemma triple_throw: "triple R Q (tx_throw e) Q'"
  by (auto simp: triple_def tx_throw_def rel_refl)

lemma triple_commit: "triple R Q (tx_try (tx_bind tx_commit (\<lambda>_. tx_return (Inr x))) (failure_prefix m)) (\<lambda>_. True)"
  unfolding triple_def tx_try_def tx_bind_def tx_return_def tx_commit_def Let_def
  by (auto simp: rel_refl split: if_splits fault.splits)

lemma run_txn_triple:
  assumes body: "triple R Q body Q'" and start: "Q (committed p)"
  shows "R (committed p) (committed (snd (run_txn h body p)))"
proof -
  have "R (committed p) (committed (end_txn t))" if "body (begin_txn p) = (r, t)" for r t
  proof -
    have "R (committed p) (committed t) \<and> R (committed t) (work t)"
      using body that start unfolding triple_def
      by (metis begin_txn_def pg.select_convs(1) rel_refl txn.select_convs(1))
    then show ?thesis using rel_seqs rel_trans by (fastforce simp: end_txn_def)
  qed
  then show ?thesis
    by (auto simp: run_txn_def rel_refl split: fault.splits prod.splits sum.splits)
qed

lemma getJobStatuses_run:
  "getJobStatusesWithLock m t = (Inr xs, t') \<Longrightarrow> committed t' = committed t \<and> work t' = work t \<and>
     xs = (if m = [] then [] else map (\<lambda>r. (jr_id r, jr_status r)) (filter (\<lambda>r. jr_id r \<in> keys m) (t_jobs (work t))))"
  by (auto simp: getJobStatusesWithLock_def tx_return_def tx_bind_def execQuery_def select_jobs_def Let_def
      split: if_splits fault.splits)

lemma checkConflicts_triple: "triple R Q (checkConflicts ch) (\<lambda>d. Q d \<and> jobs_free ch d)"
  unfolding triple_def
proof (intro allI impI)
  fix t r t'
  assume run: "checkConflicts ch t = (r, t')" and start: "R (committed t) (work t)" "Q (work t)"
  have same: "committed t' = committed t \<and> work t' = work t"
    using run unfolding checkConflicts_def getJobStatusesWithLock_def getVmStatusesWithLock_def
    by (auto simp: tx_try_def tx_bind_def tx_return_def execQuery_def select_jobs_def select_vms_def Let_def
        split: if_splits fault.splits prod.splits sum.splits)
  moreover have "jobs_free ch (work t)" if ok: "r = Inr (Inr x)" for x
  proof -
    obtain xs u where g: "getJobStatusesWithLock (jobToVm ch) t = (Inr xs, u)"
      and f: "find (\<lambda>(i, s). s \<in> getFinalJobStatuses) xs = None"
      using run ok unfolding checkConflicts_def
      by (auto simp: tx_try_def tx_bind_def tx_return_def split: prod.splits sum.splits option.splits)
    have "xs = (if jobToVm ch = [] then [] else
        map (\<lambda>r. (jr_id r, jr_status r)) (filter (\<lambda>r. jr_id r \<in> keys (jobToVm ch)) (t_jobs (work t))))"
      using getJobStatuses_run [OF g] by simp
    with f show ?thesis by (auto simp: jobs_free_def find_None_iff split: if_splits)
  qed
  ultimately show "R (committed t) (committed t') \<and> R (committed t') (work t') \<and>
      (\<forall>x. r = Inr (Inr x) \<longrightarrow> Q (work t') \<and> jobs_free ch (work t'))"
    using start by (simp add: rel_refl)
qed

lemma allocate_loop_triple:
  assumes "\<And>i slot n d r d'. (i, slot) \<in> set m \<Longrightarrow> insert_vm slot n d = Inr (r, d') \<Longrightarrow> Q d \<Longrightarrow> R d d' \<and> Q d'"
  shows "triple R Q (allocate_loop m acc) Q"
  using assms
proof (induction m acc rule: allocate_loop.induct)
  case (1 acc)
  then show ?case by (simp add: triple_return)
next
  case (2 i slot rest acc)
  have "triple R Q (allocate_loop rest x) Q" for x
    using 2 by (metis list.set_intros(2))
  moreover have "\<And>n d r d'. insert_vm slot n d = Inr (r, d') \<Longrightarrow> Q d \<Longrightarrow> R d d' \<and> Q d'"
    using "2.prems" by (metis list.set_intros(1))
  ultimately show ?case
    unfolding allocate_loop.simps by (intro triple_bind [where ?Q1.0 = Q] triple_exec) auto
qed

text \<open>
  The rule: \<open>Q\<close> is what the change must satisfy in the tables it is committed to; every step keeps
  it, and the assignment of the jobs may rely on it and on the absence of conflicts.
\<close>

lemma commit_rule:
  assumes stop: "\<And>n d r d'. update_vms (\<lambda>r. vr_id r \<in> set (vmsToTerminate ch)) (\<lambda>r. r\<lparr>vr_status := PendingTermination\<rparr>) n d
      = Inr (r, d') \<Longrightarrow> Q d \<Longrightarrow> R d d' \<and> Q d'"
    and caps: "\<And>n d r d'. update_vms (\<lambda>r. vr_id r \<in> keys (updatedIdleCapacities ch)) (set_idle (updatedIdleCapacities ch)) n d
      = Inr (r, d') \<Longrightarrow> Q d \<Longrightarrow> R d d' \<and> Q d'"
    and new: "\<And>i slot n d r d'. (i, slot) \<in> set (desiredSlotMap ch) \<Longrightarrow> insert_vm slot n d = Inr (r, d') \<Longrightarrow>
      Q d \<Longrightarrow> R d d' \<and> Q d'"
    and jobs: "\<And>s n d r d'. assignments_stmt (jobToVm ch) s n d = Inr (r, d') \<Longrightarrow> Q d \<Longrightarrow> jobs_free ch d \<Longrightarrow>
      (\<And>j t. (j, t) \<in> set (jobToVm ch) \<Longrightarrow> assignment_target s t \<noteq> None) \<Longrightarrow> R d d'"
    and plan: "\<And>i n d r d'. update_plan i n d = Inr (r, d') \<Longrightarrow> R d d'"
    and start: "Q (committed p)"
  shows "R (committed p) (committed (snd (commitPlanChange ch planId p)))"
proof -
  let ?F = "\<lambda>d. Q d \<and> jobs_free ch d"
  have same: "t_jobs d' = t_jobs d" if "update_vms c a n d = Inr (r, d')" for c a n d r d'
    using that by (auto simp: update_vms_def Let_def split: if_splits)
  have same': "t_jobs d' = t_jobs d" if "insert_vm s n d = Inr (r, d')" for s n d r d'
    using that by (auto simp: insert_vm_def Let_def split: if_splits)
  have 1: "triple R ?F (terminateVms (vmsToTerminate ch)) ?F"
    unfolding terminateVms_def using stop same
    by (auto simp: jobs_free_def intro!: triple_return triple_exec)
  have 2: "triple R ?F (updateVmCapacities (updatedIdleCapacities ch)) ?F"
    unfolding updateVmCapacities_def using caps same
    by (auto simp: jobs_free_def intro!: triple_return triple_exec)
  have 3: "triple R ?F (allocateNewVms (desiredSlotMap ch)) ?F"
    unfolding allocateNewVms_def using new same'
    by (intro allocate_loop_triple) (auto simp: jobs_free_def)
  have 4: "triple R ?F (applyJobVmAssignments (jobToVm ch) s) (\<lambda>_. True)" for s
  proof (cases "\<exists>(j, t) \<in> set (jobToVm ch). assignment_target s t = None")
    case True
    then show ?thesis by (auto simp: applyJobVmAssignments_def intro!: triple_throw)
  next
    case False
    then have "\<And>j t. (j, t) \<in> set (jobToVm ch) \<Longrightarrow> assignment_target s t \<noteq> None" by blast
    with jobs have "triple R ?F (tx_try (tx_bind (execQuery (assignments_stmt (jobToVm ch) s)) (\<lambda>_. tx_return (Inr ())))
        (failure_prefix m)) (\<lambda>_. True)" for m
      by (intro triple_exec) auto
    then show ?thesis
      unfolding applyJobVmAssignments_def assignments_stmt_def [symmetric] using False
      by (auto intro: triple_return)
  qed
  have 5: "triple R (\<lambda>_. True) (refreshPlanActivityTs i) (\<lambda>_. True)" for i
    unfolding refreshPlanActivityTs_def using plan by (auto intro!: triple_exec)
  have 6: "triple R Q (isSchedulingRelevant planId) Q"
    unfolding isSchedulingRelevant_def triple_def tx_bind_def tx_return_def execQuery_def newest_plans_def Let_def
    by (auto simp: rel_refl split: if_splits fault.splits)
  have 7: "triple R Q (tx_try (tx_bind (execQuery lock_plan) (\<lambda>_. tx_return (Inr ()))) (acquireLock_failure False)) Q"
    by (rule triple_exec) (auto simp: lock_plan_def rel_refl elim!: acquireLock_failure.elims split: if_splits)
  show ?thesis
    unfolding commitPlanChange_def acquireLock_def commit_locked_def
    by (rule run_txn_triple [where Q = Q and Q' = "\<lambda>_. True"], intro triple_bind [OF 7] triple_bind [OF 6])
       (auto intro!: triple_fail triple_bind [OF checkConflicts_triple] triple_bind [OF 1] triple_bind [OF 2]
          triple_bind [OF 3] triple_bind [OF 4] triple_bind [OF 5] triple_commit start)
qed

end

end
