(* ===== verification/History.thy ===== *)
theory History
  imports CommitRule
begin

text \<open>
  What no operation of the storage ever undoes: rows are not deleted, identifying and descriptive
  columns do not change, the logs and the lock table only grow, and a job in a final status is
  never touched again.
\<close>

section \<open>Statements, row by row\<close>

lemma update_vmsE:
  assumes "update_vms c a n d = Inr (rows, d')"
  obtains "d' = d\<lparr>t_vms := map (\<lambda>r. if c r then vm_trigger n r (a r) else r) (t_vms d),
      t_vm_log := t_vm_log d @ map (\<lambda>r. (vr_id r, vr_status (a r), n))
        (filter (\<lambda>r. vr_status r \<noteq> vr_status (a r)) (filter c (t_vms d)))\<rparr>"
    "\<forall>r \<in> set (t_vms d). c r \<longrightarrow> vm_row_ok (a r)" "rows = map a (filter c (t_vms d))"
  using assms by (auto simp: update_vms_def Let_def split: if_splits)

lemma update_jobsE:
  assumes "update_jobs c a n d = Inr (rows, d')"
  obtains "d' = d\<lparr>t_jobs := map (\<lambda>r. if c r then a r else r) (t_jobs d),
      t_job_log := t_job_log d @ map (\<lambda>r. (jr_id r, jr_status (a r), n))
        (filter (\<lambda>r. jr_status r \<noteq> jr_status (a r)) (filter c (t_jobs d)))\<rparr>"
    "\<forall>r \<in> set (t_jobs d). c r \<longrightarrow> job_row_ok (a r) \<and> job_fk_ok d (a r)" "rows = map a (filter c (t_jobs d))"
  using assms by (auto simp: update_jobs_def Let_def split: if_splits)

lemma release_stmtE:
  assumes "release_stmt ids n d = Inr (u, d')"
  obtains c a rows where "update_vms c a n d = Inr (rows, d')"
    "a = (\<lambda>r. r\<lparr>vr_cpu_idle := min (vr_cpu_idle r + freed jr_cpu ids (t_jobs d) (vr_id r)) (vr_cpu r),
               vr_ram_idle := min (vr_ram_idle r + freed jr_ram ids (t_jobs d) (vr_id r)) (vr_ram r)\<rparr>)"
  using assms by (auto simp: release_stmt_def split: sum.splits)

lemma insert_vmE:
  assumes "insert_vm s n d = Inr (i, d')"
  obtains "i = next_vm (seqs d)" "vm_row_ok (new_vm_row i s n)"
    "d' = d\<lparr>t_vms := t_vms d @ [new_vm_row i s n], t_vm_log := t_vm_log d @ [(i, PendingAllocation, n)],
            seqs := (seqs d)\<lparr>next_vm := i + 1\<rparr>\<rparr>"
  using assms by (auto simp: insert_vm_def Let_def split: if_splits)

lemma insert_taskE:
  assumes "insert_task jsonb tp n d = Inr (i, d')"
  obtains st where "i = next_task (seqs d)" "jsonb (settings tp) = Some st"
    "d' = d\<lparr>t_tasks := t_tasks d @ [new_task_row i tp st], seqs := (seqs d)\<lparr>next_task := i + 1\<rparr>\<rparr>"
  using assms by (auto simp: insert_task_def Let_def split: if_splits option.splits)

lemma insert_jobsE:
  assumes "insert_jobs jsonb tp i n d = Inr (ids, d')"
  obtains est opts where "interval_seconds (estimation tp) = Inr est" "jsonb_all jsonb (jobOptions tp) = Some opts"
    "ids = map jr_id (new_job_rows tp i est n opts (next_job (seqs d)))" "jobOptions tp \<noteq> []"
    "\<forall>r \<in> set (new_job_rows tp i est n opts (next_job (seqs d))). job_row_ok r \<and> job_fk_ok d r"
    "d' = d\<lparr>t_jobs := t_jobs d @ new_job_rows tp i est n opts (next_job (seqs d)),
           t_job_log := t_job_log d @ map (\<lambda>r. (jr_id r, Queued, n)) (new_job_rows tp i est n opts (next_job (seqs d))),
           seqs := (seqs d)\<lparr>next_job := next_job (seqs d) + int (length (new_job_rows tp i est n opts (next_job (seqs d))))\<rparr>\<rparr>"
  using assms by (auto simp: insert_jobs_def Let_def split: if_splits option.splits sum.splits)

lemma vm_trigger_simps [simp]:
  "vr_id (vm_trigger n r r') = vr_id r'" "vr_status (vm_trigger n r r') = vr_status r'"
  "vr_cpu (vm_trigger n r r') = vr_cpu r'" "vr_ram (vm_trigger n r r') = vr_ram r'"
  "vr_cpu_idle (vm_trigger n r r') = vr_cpu_idle r'" "vr_ram_idle (vm_trigger n r r') = vr_ram_idle r'"
  "vr_cloud_vm_id (vm_trigger n r r') = vr_cloud_vm_id r'" "vr_cloud_vm_type (vm_trigger n r r') = vr_cloud_vm_type r'"
  "vr_created (vm_trigger n r r') = vr_created r'" "vr_restart_count (vm_trigger n r r') = vr_restart_count r'"
  by (simp_all add: vm_trigger_def)

lemma set_idle_simps [simp]:
  "vr_id (set_idle m r) = vr_id r" "vr_status (set_idle m r) = vr_status r" "vr_cpu (set_idle m r) = vr_cpu r"
  "vr_ram (set_idle m r) = vr_ram r" "vr_created (set_idle m r) = vr_created r"
  "vr_cloud_vm_id (set_idle m r) = vr_cloud_vm_id r" "vr_cloud_vm_type (set_idle m r) = vr_cloud_vm_type r"
  "vr_restart_count (set_idle m r) = vr_restart_count r"
  by (simp_all add: set_idle_def split: option.splits)

lemma report_assign_simps [simp]:
  "jr_id (report_assign js n r) = jr_id r" "jr_status (report_assign js n r) = js_status js"
  "jr_task_id (report_assign js n r) = jr_task_id r" "jr_cpu (report_assign js n r) = jr_cpu r"
  "jr_ram (report_assign js n r) = jr_ram r" "jr_vm_id (report_assign js n r) = jr_vm_id r"
  "jr_created (report_assign js n r) = jr_created r" "jr_options (report_assign js n r) = jr_options r"
  "jr_estimation (report_assign js n r) = jr_estimation r" "jr_restart_count (report_assign js n r) = jr_restart_count r"
  by (simp_all add: report_assign_def Let_def)

lemma cancel_assign_simps [simp]:
  "jr_id (cancel_assign r) = jr_id r" "jr_task_id (cancel_assign r) = jr_task_id r" "jr_cpu (cancel_assign r) = jr_cpu r"
  "jr_ram (cancel_assign r) = jr_ram r" "jr_vm_id (cancel_assign r) = jr_vm_id r"
  "jr_created (cancel_assign r) = jr_created r" "jr_options (cancel_assign r) = jr_options r"
  "jr_estimation (cancel_assign r) = jr_estimation r" "jr_restart_count (cancel_assign r) = jr_restart_count r"
  by (simp_all add: cancel_assign_def)

lemma assign_job_simps [simp]:
  "jr_id (assign_job f r) = jr_id r" "jr_task_id (assign_job f r) = jr_task_id r" "jr_cpu (assign_job f r) = jr_cpu r"
  "jr_ram (assign_job f r) = jr_ram r" "jr_status (assign_job f r) = Scheduled" "jr_vm_id (assign_job f r) = f (jr_id r)"
  "jr_created (assign_job f r) = jr_created r" "jr_options (assign_job f r) = jr_options r"
  "jr_estimation (assign_job f r) = jr_estimation r" "jr_restart_count (assign_job f r) = jr_restart_count r"
  by (simp_all add: assign_job_def)

section \<open>Append-only history\<close>

definition vm_key :: "vm_row \<Rightarrow> VmId \<times> int \<times> int \<times> int" where
  "vm_key r = (vr_id r, vr_cpu r, vr_ram r, vr_created r)"

definition job_key :: "job_row \<Rightarrow> JobId \<times> TaskId \<times> int \<times> int \<times> int \<times> string \<times> int" where
  "job_key r = (jr_id r, jr_task_id r, jr_cpu r, jr_ram r, jr_estimation r, jr_options r, jr_created r)"

definition extends :: "db \<Rightarrow> db \<Rightarrow> bool" where
  "extends d d' \<longleftrightarrow> prefix (map vm_key (t_vms d)) (map vm_key (t_vms d')) \<and>
     prefix (map job_key (t_jobs d)) (map job_key (t_jobs d')) \<and> prefix (t_tasks d) (t_tasks d') \<and>
     prefix (t_vm_log d) (t_vm_log d') \<and> prefix (t_job_log d) (t_job_log d') \<and> prefix (t_locks d) (t_locks d') \<and>
     prefix (map pr_id (t_plan d)) (map pr_id (t_plan d'))"

lemma extends_update_vms:
  assumes "update_vms c a n d = Inr (rows, d')" and "\<And>r. vm_key (a r) = vm_key r"
  shows "extends d d'"
  using assms(1)
proof (rule update_vmsE)
  assume d': "d' = d\<lparr>t_vms := map (\<lambda>r. if c r then vm_trigger n r (a r) else r) (t_vms d),
      t_vm_log := t_vm_log d @ map (\<lambda>r. (vr_id r, vr_status (a r), n))
        (filter (\<lambda>r. vr_status r \<noteq> vr_status (a r)) (filter c (t_vms d)))\<rparr>"
  have "vm_key (vm_trigger n r (a r)) = vm_key r" for r using assms(2) [of r] by (simp add: vm_key_def)
  then have "map (vm_key \<circ> (\<lambda>r. if c r then vm_trigger n r (a r) else r)) (t_vms d) = map vm_key (t_vms d)" by simp
  then show ?thesis by (simp add: extends_def d' del: map_eq_conv)
qed

lemma extends_update_jobs:
  assumes "update_jobs c a n d = Inr (rows, d')" and "\<And>r. job_key (a r) = job_key r"
  shows "extends d d'"
  using assms(1)
proof (rule update_jobsE)
  assume d': "d' = d\<lparr>t_jobs := map (\<lambda>r. if c r then a r else r) (t_jobs d),
      t_job_log := t_job_log d @ map (\<lambda>r. (jr_id r, jr_status (a r), n))
        (filter (\<lambda>r. jr_status r \<noteq> jr_status (a r)) (filter c (t_jobs d)))\<rparr>"
  have "map (job_key \<circ> (\<lambda>r. if c r then a r else r)) (t_jobs d) = map job_key (t_jobs d)" using assms(2) by simp
  then show ?thesis by (simp add: extends_def d' del: map_eq_conv)
qed

lemma extends_insert_vm: "insert_vm s n d = Inr (i, d') \<Longrightarrow> extends d d'"
  by (erule insert_vmE) (simp add: extends_def)

interpretation hist_rel: db_relation extends
proof
  show "extends a b \<Longrightarrow> extends b c \<Longrightarrow> extends a c" for a b c
    unfolding extends_def by (meson prefix_order.trans)
qed (simp_all add: extends_def)

lemma extends_update_plan: "update_plan i n d = Inr (u, d') \<Longrightarrow> extends d d'"
proof -
  assume u: "update_plan i n d = Inr (u, d')"
  have "map (pr_id \<circ> (\<lambda>r. if pr_id r = i then r\<lparr>pr_updated := n\<rparr> else r)) (t_plan d) = map pr_id (t_plan d)"
    by simp
  then show ?thesis using u by (auto simp: update_plan_def extends_def simp del: map_eq_conv)
qed

lemma extends_commit: "extends (committed p) (committed (snd (commitPlanChange ch plan p)))"
  by (rule hist_rel.commit_rule [where Q = "\<lambda>_. True"])
     (auto intro: extends_update_vms extends_update_jobs extends_insert_vm extends_update_plan
        simp: vm_key_def job_key_def assignments_stmt_def)

lemma extends_release: "release_stmt ids n d = Inr (u, d') \<Longrightarrow> extends d d'"
  by (erule release_stmtE) (auto intro: extends_update_vms simp: vm_key_def)

interpretation hist: storage_relation extends "\<lambda>_ _. True"
proof
  show "stmt_keeps extends (insert_task jsonb tp)" for jsonb tp
    by (auto simp: stmt_keeps_def extends_def elim!: insert_taskE)
  show "stmt_keeps extends (insert_jobs jsonb tp i)" for jsonb tp i
    by (auto simp: stmt_keeps_def extends_def elim!: insert_jobsE)
  show "stmt_keeps extends (insert_lock k)" for k
    by (auto simp: stmt_keeps_def extends_def insert_lock_def split: if_splits)
  show "stmt_keeps extends (insert_plan b)" for b
    by (auto simp: stmt_keeps_def extends_def insert_plan_def Let_def split: if_splits)
qed (auto simp: stmt_keeps_def vm_key_def job_key_def extends_commit
      intro: extends_update_vms extends_update_jobs extends_release)

text \<open>
  C19. No operation of the storage, whatever fails during it, deletes a row, changes what a VM, a job
  or a task was created with, or rewrites a status log: each of these tables is a prefix of what it
  is afterwards, up to the columns that record progress.
\<close>

theorem storage_append_only: "extends (committed p) (committed (apply_op jsonb op p))"
  by (rule hist.apply_op_rel) (cases op; simp)

section \<open>Final jobs are frozen\<close>

text \<open>Every row of a job in a final status is still there, unchanged in every column.\<close>

definition frozen :: "db \<Rightarrow> db \<Rightarrow> bool" where
  "frozen d d' \<longleftrightarrow> (\<forall>r \<in> set (t_jobs d). jr_status r \<in> getFinalJobStatuses \<longrightarrow> r \<in> set (t_jobs d'))"

lemma frozen_update_jobs:
  assumes "update_jobs c a n d = Inr (rows, d')"
    and "\<And>r. r \<in> set (t_jobs d) \<Longrightarrow> c r \<Longrightarrow> jr_status r \<notin> getFinalJobStatuses"
  shows "frozen d d'"
  using assms(1) by (rule update_jobsE) (use assms(2) in \<open>auto simp: frozen_def\<close>)

lemma frozen_same_jobs: "t_jobs d' = t_jobs d \<Longrightarrow> frozen d d'"
  by (simp add: frozen_def)

lemma frozen_update_vms: "update_vms c a n d = Inr (rows, d') \<Longrightarrow> frozen d d'"
  by (erule update_vmsE) (simp add: frozen_def)

interpretation frozen_rel: db_relation frozen
  by unfold_locales (auto simp: frozen_def)

lemma frozen_commit: "frozen (committed p) (committed (snd (commitPlanChange ch plan p)))"
proof (rule frozen_rel.commit_rule [where Q = "\<lambda>_. True"])
  show "frozen d d'" if "assignments_stmt (jobToVm ch) s n d = Inr (r, d')" "jobs_free ch d" for s n d r d'
    using that unfolding assignments_stmt_def by (auto intro: frozen_update_jobs simp: jobs_free_def)
qed (auto intro: frozen_update_vms frozen_same_jobs simp: update_plan_def elim!: insert_vmE)

interpretation frozen: storage_relation frozen "\<lambda>_ _. True"
proof
  show "stmt_keeps frozen (insert_jobs jsonb tp i)" for jsonb tp i
    by (auto simp: stmt_keeps_def frozen_def elim!: insert_jobsE)
  show "stmt_keeps frozen (insert_task jsonb tp)" for jsonb tp
    by (auto simp: stmt_keeps_def frozen_def elim!: insert_taskE)
  show "stmt_keeps frozen (insert_lock k)" for k
    by (auto simp: stmt_keeps_def frozen_def insert_lock_def split: if_splits)
  show "stmt_keeps frozen (insert_plan b)" for b
    by (auto simp: stmt_keeps_def frozen_def insert_plan_def Let_def split: if_splits)
  show "stmt_keeps frozen (release_stmt ids)" for ids
    by (auto simp: stmt_keeps_def elim!: release_stmtE intro: frozen_update_vms)
  show "stmt_keeps frozen (update_jobs c a)" if "\<And>r. c r \<Longrightarrow> jr_status r \<in> {Scheduled, Running}" for c a
    using that by (fastforce simp: stmt_keeps_def status_sets intro: frozen_update_jobs)
  then show "stmt_keeps frozen (update_jobs c a)" if "\<And>r. c r \<Longrightarrow> jr_status r \<in> {Scheduled, Running}" for c a
    using that .
qed (auto simp: stmt_keeps_def frozen_commit intro: frozen_update_vms frozen_update_jobs)

text \<open>
  A job in one of the statuses the code calls final (completed, error, internal error,
  cancelled and cancelling) is never changed again by any operation of the storage.
\<close>

lemma final_jobs_frozen:
  assumes "r \<in> set (t_jobs (committed p))" and "jr_status r \<in> getFinalJobStatuses"
  shows "r \<in> set (t_jobs (committed (apply_op jsonb op p)))"
proof -
  have "frozen (committed p) (committed (apply_op jsonb op p))"
    by (rule frozen.apply_op_rel) (cases op; simp)
  with assms show ?thesis by (simp add: frozen_def)
qed

end
