(* ===== verification/Wellformed.thy ===== *)
theory Wellformed
  imports History
begin

text \<open>
  The well-formedness invariant of the database: keys are unique and below their sequences, foreign
  keys point somewhere, capacities are in range with idle below total, a VM that is allocated has
  the provider's identifier and type, and a job that is on its way has a VM. Every operation keeps
  it, provided a committed plan change stays within the totals of the VMs it changes.
\<close>

definition vm_ok :: "vm_row \<Rightarrow> bool" where
  "vm_ok r \<longleftrightarrow> vm_row_ok r \<and> 0 \<le> vr_cpu_idle r \<and> vr_cpu_idle r \<le> vr_cpu r \<and>
     0 \<le> vr_ram_idle r \<and> vr_ram_idle r \<le> vr_ram r \<and>
     (vr_status r \<in> {Allocated, AgentStarted} \<longrightarrow> vr_cloud_vm_id r \<noteq> None \<and> vr_cloud_vm_type r \<noteq> None)"

definition job_ok :: "job_row \<Rightarrow> bool" where
  "job_ok r \<longleftrightarrow> job_row_ok r \<and> 0 \<le> jr_cpu r \<and> 0 \<le> jr_ram r \<and>
     (jr_status r \<in> {Scheduled, Running, Cancelling} \<longrightarrow> jr_vm_id r \<noteq> None)"

definition db_wf :: "db \<Rightarrow> bool" where
  "db_wf d \<longleftrightarrow>
     distinct (map vr_id (t_vms d)) \<and> (\<forall>r \<in> set (t_vms d). vr_id r < next_vm (seqs d) \<and> vm_ok r) \<and>
     distinct (map tr_id (t_tasks d)) \<and> (\<forall>r \<in> set (t_tasks d). tr_id r < next_task (seqs d)) \<and>
     distinct (map jr_id (t_jobs d)) \<and> (\<forall>r \<in> set (t_jobs d). jr_id r < next_job (seqs d) \<and> job_ok r \<and> job_fk_ok d r) \<and>
     distinct (map pr_id (t_plan d)) \<and> (\<forall>r \<in> set (t_plan d). pr_id r < next_plan (seqs d)) \<and>
     distinct (t_locks d)"

definition seqs_le :: "sequences \<Rightarrow> sequences \<Rightarrow> bool" where
  "seqs_le s s' \<longleftrightarrow> next_vm s \<le> next_vm s' \<and> next_task s \<le> next_task s' \<and> next_job s \<le> next_job s' \<and>
     next_plan s \<le> next_plan s'"

definition wf_step :: "db \<Rightarrow> db \<Rightarrow> bool" where
  "wf_step d d' \<longleftrightarrow> (db_wf d \<longrightarrow> db_wf d' \<and> seqs_le (seqs d) (seqs d'))"

text \<open>What a plan change must satisfy in the database it is committed to.\<close>

definition change_ok :: "db \<Rightarrow> StateChange \<Rightarrow> bool" where
  "change_ok d ch \<longleftrightarrow>
     (\<forall>(v, c) \<in> set (updatedIdleCapacities ch). \<forall>r \<in> set (t_vms d). vr_id r = v \<longrightarrow>
        uint (cpu c) \<le> vr_cpu r \<and> uint (ram c) \<le> vr_ram r) \<and>
     (\<forall>(i, s) \<in> set (desiredSlotMap ch). fits (idle s) (total s))"

lemma seqs_le_refl [simp]: "seqs_le s s"
  by (simp add: seqs_le_def)

lemma empty_db_wf: "db_wf empty_db"
  by (simp add: db_wf_def empty_db_def)

lemma job_fk_ok_cong: "t_tasks d' = t_tasks d \<Longrightarrow> vr_id ` set (t_vms d') = vr_id ` set (t_vms d) \<Longrightarrow> job_fk_ok d' r = job_fk_ok d r"
  by (simp add: job_fk_ok_def split: option.splits)

lemma db_wf_seqs:
  assumes "db_wf d" and "seqs_le (seqs d) s"
  shows "db_wf (d\<lparr>seqs := s\<rparr>)"
proof -
  have "job_fk_ok (d\<lparr>seqs := s\<rparr>) r = job_fk_ok d r" for r by (rule job_fk_ok_cong) simp_all
  with assms show ?thesis unfolding db_wf_def seqs_le_def by (auto intro: order.strict_trans2)
qed

interpretation wf_rel: db_relation wf_step
proof
  show "wf_step a b \<Longrightarrow> wf_step b c \<Longrightarrow> wf_step a c" for a b c
    by (auto simp: wf_step_def seqs_le_def)
  show "wf_step d d' \<Longrightarrow> wf_step d (d\<lparr>seqs := seqs d'\<rparr>)" for d d'
    using db_wf_seqs by (auto simp: wf_step_def)
qed (simp add: wf_step_def)

section \<open>Row updates\<close>

lemma wf_update_vms:
  assumes up: "update_vms c a n d = Inr (rows, d')" and id: "\<And>r. vr_id (a r) = vr_id r"
    and ok: "\<And>r. db_wf d \<Longrightarrow> r \<in> set (t_vms d) \<Longrightarrow> c r \<Longrightarrow> vm_ok r \<Longrightarrow> vm_row_ok (a r) \<Longrightarrow> vm_ok (a r)"
  shows "wf_step d d'"
  using up
proof (rule update_vmsE)
  assume d': "d' = d\<lparr>t_vms := map (\<lambda>r. if c r then vm_trigger n r (a r) else r) (t_vms d),
      t_vm_log := t_vm_log d @ map (\<lambda>r. (vr_id r, vr_status (a r), n))
        (filter (\<lambda>r. vr_status r \<noteq> vr_status (a r)) (filter c (t_vms d)))\<rparr>"
    and row: "\<forall>r \<in> set (t_vms d). c r \<longrightarrow> vm_row_ok (a r)"
  let ?f = "\<lambda>r. if c r then vm_trigger n r (a r) else r"
  have ids: "map vr_id (map ?f (t_vms d)) = map vr_id (t_vms d)" by (simp add: id)
  have vms': "t_vms d' = map ?f (t_vms d)" by (simp add: d')
  have "set (map vr_id (map ?f (t_vms d))) = set (map vr_id (t_vms d))" by (simp only: ids)
  then have fk: "job_fk_ok d' r = job_fk_ok d r" for r
    using vms' by (intro job_fk_ok_cong) (simp add: d', simp only: set_map)
  have vm: "vm_ok (vm_trigger n r r') = vm_ok r'" for r r' by (simp add: vm_ok_def vm_row_ok_def)
  show ?thesis
    unfolding wf_step_def
  proof (intro impI conjI)
    assume wf: "db_wf d"
    have "vr_id (?f r) < next_vm (seqs d) \<and> vm_ok (?f r)" if "r \<in> set (t_vms d)" for r
      using wf that ok [OF wf that] row id vm by (auto simp: db_wf_def)
    then have "\<forall>r \<in> set (t_vms d'). vr_id r < next_vm (seqs d) \<and> vm_ok r" unfolding vms' set_map by blast
    moreover have "distinct (map vr_id (t_vms d'))" using wf unfolding db_wf_def vms' ids by blast
    moreover have "seqs d' = seqs d" "t_tasks d' = t_tasks d" "t_jobs d' = t_jobs d" "t_plan d' = t_plan d" "t_locks d' = t_locks d"
      by (simp_all add: d')
    ultimately show "db_wf d'" using wf fk unfolding db_wf_def by simp
  qed (simp add: d')
qed

lemma wf_update_jobs:
  assumes up: "update_jobs c a n d = Inr (rows, d')" and id: "\<And>r. jr_id (a r) = jr_id r"
    and ok: "\<And>r. db_wf d \<Longrightarrow> r \<in> set (t_jobs d) \<Longrightarrow> c r \<Longrightarrow> job_ok r \<Longrightarrow> job_row_ok (a r) \<Longrightarrow> job_ok (a r)"
  shows "wf_step d d'"
  using up
proof (rule update_jobsE)
  assume d': "d' = d\<lparr>t_jobs := map (\<lambda>r. if c r then a r else r) (t_jobs d),
      t_job_log := t_job_log d @ map (\<lambda>r. (jr_id r, jr_status (a r), n))
        (filter (\<lambda>r. jr_status r \<noteq> jr_status (a r)) (filter c (t_jobs d)))\<rparr>"
    and row: "\<forall>r \<in> set (t_jobs d). c r \<longrightarrow> job_row_ok (a r) \<and> job_fk_ok d (a r)"
  let ?f = "\<lambda>r. if c r then a r else r"
  have ids: "map jr_id (map ?f (t_jobs d)) = map jr_id (t_jobs d)" by (simp add: id)
  have jobs': "t_jobs d' = map ?f (t_jobs d)" by (simp add: d')
  have fk: "job_fk_ok d' r = job_fk_ok d r" for r by (intro job_fk_ok_cong) (simp_all add: d')
  show ?thesis
    unfolding wf_step_def
  proof (intro impI conjI)
    assume wf: "db_wf d"
    have "jr_id (?f r) < next_job (seqs d) \<and> job_ok (?f r) \<and> job_fk_ok d (?f r)" if "r \<in> set (t_jobs d)" for r
      using wf that ok [OF wf that] row id by (auto simp: db_wf_def)
    then have "\<forall>r \<in> set (t_jobs d'). jr_id r < next_job (seqs d) \<and> job_ok r \<and> job_fk_ok d' r"
      unfolding jobs' set_map fk by blast
    moreover have "distinct (map jr_id (t_jobs d'))" using wf unfolding db_wf_def jobs' ids by blast
    moreover have "seqs d' = seqs d" "t_tasks d' = t_tasks d" "t_vms d' = t_vms d" "t_plan d' = t_plan d" "t_locks d' = t_locks d"
      by (simp_all add: d')
    ultimately show "db_wf d'" using wf unfolding db_wf_def by simp
  qed (simp add: d')
qed

lemma freed_nonneg: "(\<And>r. r \<in> set js \<Longrightarrow> 0 \<le> f r) \<Longrightarrow> 0 \<le> freed f ids js v"
  by (auto simp: freed_def intro!: sum_list_nonneg)

lemma wf_release: "release_stmt ids n d = Inr (u, d') \<Longrightarrow> wf_step d d'"
proof (erule release_stmtE)
  fix c a rows
  assume up: "update_vms c a n d = Inr (rows, d')"
    and a: "a = (\<lambda>r. r\<lparr>vr_cpu_idle := min (vr_cpu_idle r + freed jr_cpu ids (t_jobs d) (vr_id r)) (vr_cpu r),
               vr_ram_idle := min (vr_ram_idle r + freed jr_ram ids (t_jobs d) (vr_id r)) (vr_ram r)\<rparr>)"
  have "0 \<le> freed jr_cpu ids (t_jobs d) v \<and> 0 \<le> freed jr_ram ids (t_jobs d) v" if "db_wf d" for v
    using that by (auto simp: db_wf_def job_ok_def intro!: freed_nonneg)
  then show ?thesis
    by (intro wf_update_vms [OF up]) (fastforce simp: a vm_ok_def)+
qed

lemma wf_insert_task: "insert_task jsonb tp n d = Inr (i, d') \<Longrightarrow> wf_step d d'"
proof (erule insert_taskE)
  fix st assume i: "i = next_task (seqs d)"
    and d': "d' = d\<lparr>t_tasks := t_tasks d @ [new_task_row i tp st], seqs := (seqs d)\<lparr>next_task := i + 1\<rparr>\<rparr>"
  have "job_fk_ok d r \<Longrightarrow> job_fk_ok d' r" for r by (auto simp: job_fk_ok_def d' split: option.splits)
  then show ?thesis
    using i by (fastforce simp: wf_step_def db_wf_def d' seqs_le_def new_task_row_def)
qed

lemma new_job_rows_spec:
  "map jr_id (new_job_rows tp i est n opts k) = map (\<lambda>j. k + int j) [0..<length opts] \<and>
   (\<forall>r \<in> set (new_job_rows tp i est n opts k). jr_status r = Queued \<and> jr_task_id r = i \<and> jr_vm_id r = None \<and>
      jr_cpu r = uint (cpu (tp_requiredCapacity tp)) \<and> jr_ram r = uint (ram (tp_requiredCapacity tp)) \<and>
      jr_estimation r = est \<and> jr_created r = n \<and> jr_restart_count r = 0)"
proof (induction opts arbitrary: k)
  case (Cons opt opts)
  have "map (\<lambda>j. k + int j) [0..<Suc (length opts)] = k # map (\<lambda>j. k + 1 + int j) [0..<length opts]"
    by (simp add: upt_conv_Cons map_Suc_upt [symmetric] comp_def add.assoc del: upt_Suc)
  with Cons [of "k + 1"] show ?case by simp
qed simp

lemma wf_insert_jobs: "insert_jobs jsonb tp i n d = Inr (ids, d') \<Longrightarrow> wf_step d d'"
proof (erule insert_jobsE)
  fix est opts
  let ?rows = "new_job_rows tp i est n opts (next_job (seqs d))"
  assume ok: "\<forall>r \<in> set ?rows. job_row_ok r \<and> job_fk_ok d r"
    and d': "d' = d\<lparr>t_jobs := t_jobs d @ ?rows, t_job_log := t_job_log d @ map (\<lambda>r. (jr_id r, Queued, n)) ?rows,
           seqs := (seqs d)\<lparr>next_job := next_job (seqs d) + int (length ?rows)\<rparr>\<rparr>"
  have ids: "map jr_id ?rows = map (\<lambda>j. next_job (seqs d) + int j) [0..<length opts]"
    and row: "\<And>r. r \<in> set ?rows \<Longrightarrow> jr_status r = Queued \<and> 0 \<le> jr_cpu r \<and> 0 \<le> jr_ram r"
    using new_job_rows_spec [of tp i est n opts "next_job (seqs d)"] by simp_all
  have len: "length ?rows = length opts" using ids by (metis length_map length_upt diff_zero)
  have bound: "next_job (seqs d) \<le> jr_id r \<and> jr_id r < next_job (seqs d) + int (length ?rows)" if "r \<in> set ?rows" for r
  proof -
    have "jr_id r \<in> set (map jr_id ?rows)" using that by simp
    then show ?thesis unfolding ids len by auto
  qed
  have dist: "distinct (map jr_id ?rows)" unfolding ids by (simp add: distinct_map inj_on_def)
  have fk: "job_fk_ok d' r = job_fk_ok d r" for r by (rule job_fk_ok_cong) (simp_all add: d')
  show ?thesis
    unfolding wf_step_def
  proof (intro impI conjI)
    assume wf: "db_wf d"
    have "jr_id ` set (t_jobs d) \<inter> jr_id ` set ?rows = {}" using wf bound by (fastforce simp: db_wf_def)
    then have "distinct (map jr_id (t_jobs d'))" using wf dist by (simp add: d' db_wf_def)
    moreover have "\<forall>r \<in> set (t_jobs d'). jr_id r < next_job (seqs d') \<and> job_ok r \<and> job_fk_ok d' r"
      using wf ok row bound unfolding fk by (fastforce simp: d' db_wf_def job_ok_def)
    ultimately show "db_wf d'" using wf unfolding db_wf_def by (simp add: d')
  qed (simp add: d' seqs_le_def)
qed

lemma wf_insert_vm:
  assumes "insert_vm s n d = Inr (i, d')" and "fits (idle s) (total s)"
  shows "wf_step d d'"
  using assms(1)
proof (rule insert_vmE)
  assume i: "i = next_vm (seqs d)" and ok: "vm_row_ok (new_vm_row i s n)"
    and d': "d' = d\<lparr>t_vms := t_vms d @ [new_vm_row i s n], t_vm_log := t_vm_log d @ [(i, PendingAllocation, n)],
            seqs := (seqs d)\<lparr>next_vm := i + 1\<rparr>\<rparr>"
  have "vm_ok (new_vm_row i s n)"
    using ok assms(2) by (simp add: vm_ok_def new_vm_row_def fits_def word_le_def)
  moreover have "job_fk_ok d r \<Longrightarrow> job_fk_ok d' r" for r by (auto simp: job_fk_ok_def d' split: option.splits)
  moreover have "vr_id (new_vm_row i s n) = i" by (simp add: new_vm_row_def)
  ultimately show ?thesis
    using i by (fastforce simp: wf_step_def db_wf_def d' seqs_le_def)
qed

lemma wf_insert_plan: "insert_plan b n d = Inr (i, d') \<Longrightarrow> wf_step d d'"
proof -
  assume "insert_plan b n d = Inr (i, d')"
  then have d': "d' = d\<lparr>t_plan := t_plan d @ [\<lparr>pr_id = next_plan (seqs d), pr_created = n, pr_updated = n, pr_backend_id = b\<rparr>],
      seqs := (seqs d)\<lparr>next_plan := next_plan (seqs d) + 1\<rparr>\<rparr>"
    by (auto simp: insert_plan_def Let_def split: if_splits)
  have "job_fk_ok d' r = job_fk_ok d r" for r by (rule job_fk_ok_cong) (simp_all add: d')
  then show ?thesis by (fastforce simp: wf_step_def db_wf_def d' seqs_le_def)
qed

lemma wf_insert_lock: "insert_lock k n d = Inr (u, d') \<Longrightarrow> wf_step d d'"
proof -
  assume "insert_lock k n d = Inr (u, d')"
  then have d': "d' = d\<lparr>t_locks := t_locks d @ [uint k]\<rparr>" and new: "uint k \<notin> set (t_locks d)"
    by (auto simp: insert_lock_def split: if_splits)
  have "job_fk_ok d' r = job_fk_ok d r" for r by (rule job_fk_ok_cong) (simp_all add: d')
  then show ?thesis using new by (simp add: wf_step_def db_wf_def d')
qed

lemma wf_update_plan: "update_plan i n d = Inr (u, d') \<Longrightarrow> wf_step d d'"
proof -
  assume "update_plan i n d = Inr (u, d')"
  then have d': "d' = d\<lparr>t_plan := map (\<lambda>r. if pr_id r = i then r\<lparr>pr_updated := n\<rparr> else r) (t_plan d)\<rparr>"
    by (auto simp: update_plan_def)
  have "job_fk_ok d' r = job_fk_ok d r" for r by (rule job_fk_ok_cong) (simp_all add: d')
  moreover have "map pr_id (t_plan d') = map pr_id (t_plan d)" by (simp add: d')
  then have "distinct (map pr_id (t_plan d'))" "\<forall>r \<in> set (t_plan d'). pr_id r < next_plan (seqs d)" if "db_wf d"
    using that by (simp add: db_wf_def) (use that in \<open>auto simp: db_wf_def d'\<close>)
  moreover have "seqs d' = seqs d" "t_tasks d' = t_tasks d" "t_vms d' = t_vms d" "t_jobs d' = t_jobs d" "t_locks d' = t_locks d"
    by (simp_all add: d')
  ultimately show ?thesis unfolding wf_step_def by (metis (no_types, lifting) db_wf_def seqs_le_refl)
qed

section \<open>Every operation keeps the invariant\<close>

lemma vm_ok_set_idle:
  assumes "vm_ok r" and "vm_row_ok (set_idle m r)"
    and "\<And>c. map_of m (vr_id r) = Some c \<Longrightarrow> uint (cpu c) \<le> vr_cpu r \<and> uint (ram c) \<le> vr_ram r"
  shows "vm_ok (set_idle m r)"
  using assms by (cases "map_of m (vr_id r)") (auto simp: vm_ok_def set_idle_def)

lemma change_ok_update_vms:
  assumes "update_vms c a n d = Inr (rows, d')" and "\<And>r. vr_id (a r) = vr_id r \<and> vr_cpu (a r) = vr_cpu r \<and> vr_ram (a r) = vr_ram r"
  shows "change_ok d ch \<Longrightarrow> change_ok d' ch"
  using assms(1)
proof (rule update_vmsE)
  assume ok: "change_ok d ch" and d': "d' = d\<lparr>t_vms := map (\<lambda>r. if c r then vm_trigger n r (a r) else r) (t_vms d),
      t_vm_log := t_vm_log d @ map (\<lambda>r. (vr_id r, vr_status (a r), n))
        (filter (\<lambda>r. vr_status r \<noteq> vr_status (a r)) (filter c (t_vms d)))\<rparr>"
  have "\<exists>r0 \<in> set (t_vms d). vr_id r = vr_id r0 \<and> vr_cpu r = vr_cpu r0 \<and> vr_ram r = vr_ram r0" if "r \<in> set (t_vms d')" for r
    using that assms(2) by (auto simp: d')
  with ok show ?thesis unfolding change_ok_def by fastforce
qed

text \<open>A VM inserted for a slot is not one of the VMs whose capacity the change updates.\<close>

definition change_now :: "StateChange \<Rightarrow> db \<Rightarrow> bool" where
  "change_now ch d \<longleftrightarrow> change_ok d ch \<and> (\<forall>v \<in> keys (updatedIdleCapacities ch). v < next_vm (seqs d))"

lemma change_ok_insert_vm:
  assumes "insert_vm s n d = Inr (i, d')" and "change_now ch d"
  shows "change_now ch d'"
  using assms(1)
proof (rule insert_vmE)
  assume i: "i = next_vm (seqs d)"
    and d': "d' = d\<lparr>t_vms := t_vms d @ [new_vm_row i s n], t_vm_log := t_vm_log d @ [(i, PendingAllocation, n)],
            seqs := (seqs d)\<lparr>next_vm := i + 1\<rparr>\<rparr>"
  show ?thesis
    using assms(2) i unfolding change_now_def change_ok_def
    by (fastforce simp: d' new_vm_row_def)
qed

lemma wf_set_idle:
  assumes "update_vms (\<lambda>r. vr_id r \<in> keys m) (set_idle m) n d = Inr (rows, d')" and "m = updatedIdleCapacities ch"
    and "change_ok d ch"
  shows "wf_step d d'"
proof (rule wf_update_vms [OF assms(1)])
  fix r assume "r \<in> set (t_vms d)" "vm_ok r" "vm_row_ok (set_idle m r)"
  then show "vm_ok (set_idle m r)"
    using assms(2,3) by (intro vm_ok_set_idle) (auto simp: change_ok_def dest!: map_of_SomeD)
qed simp

lemma wf_assignments:
  assumes "assignments_stmt m s n d = Inr (r, d')" and "\<And>j t. (j, t) \<in> set m \<Longrightarrow> assignment_target s t \<noteq> None"
  shows "wf_step d d'"
proof (rule wf_update_jobs [OF assms(1) [unfolded assignments_stmt_def]])
  fix r assume key: "jr_id r \<in> keys m" and ok: "job_ok r"
    "job_row_ok (assign_job (\<lambda>j. Option.bind (map_of m j) (assignment_target s)) r)"
  obtain t where "map_of m (jr_id r) = Some t" using keys_map_of [OF key] by blast
  then have "Option.bind (map_of m (jr_id r)) (assignment_target s) \<noteq> None"
    using assms(2) by (auto dest: map_of_SomeD)
  with ok show "job_ok (assign_job (\<lambda>j. Option.bind (map_of m j) (assignment_target s)) r)"
    by (simp add: job_ok_def)
qed simp

lemma wf_commit:
  assumes "change_now ch (committed p)"
  shows "wf_step (committed p) (committed (snd (commitPlanChange ch plan p)))"
proof (rule wf_rel.commit_rule [where Q = "change_now ch", OF _ _ _ _ _ assms])
  fix n d and r :: "vm_row list" and d'
  assume up: "update_vms (\<lambda>r. vr_id r \<in> set (vmsToTerminate ch)) (\<lambda>r. r\<lparr>vr_status := PendingTermination\<rparr>) n d = Inr (r, d')" and Q: "change_now ch d"
  have "seqs d' = seqs d" using up by (rule update_vmsE) simp
  then show "wf_step d d' \<and> change_now ch d'"
    using wf_update_vms [OF up] change_ok_update_vms [OF up] Q by (simp add: vm_ok_def vm_row_ok_def change_now_def)
next
  fix n d and r :: "vm_row list" and d'
  assume up: "update_vms (\<lambda>r. vr_id r \<in> keys (updatedIdleCapacities ch)) (set_idle (updatedIdleCapacities ch)) n d = Inr (r, d')"
    and Q: "change_now ch d"
  have "seqs d' = seqs d" using up by (rule update_vmsE) simp
  then show "wf_step d d' \<and> change_now ch d'"
    using wf_set_idle [OF up refl] change_ok_update_vms [OF up] Q by (simp add: change_now_def)
next
  fix i slot n d and r :: VmId and d'
  assume "(i, slot) \<in> set (desiredSlotMap ch)" and up: "insert_vm slot n d = Inr (r, d')" and Q: "change_now ch d"
  then show "wf_step d d' \<and> change_now ch d'"
    using wf_insert_vm [OF up] change_ok_insert_vm [OF up Q] by (fastforce simp: change_now_def change_ok_def)
qed (erule wf_assignments, blast, erule wf_update_plan)

interpretation wf: storage_relation wf_step "\<lambda>d ch. change_now ch d"
proof
  show "stmt_keeps wf_step (insert_task jsonb tp)" for jsonb tp by (auto simp: stmt_keeps_def wf_insert_task)
  show "stmt_keeps wf_step (insert_jobs jsonb tp i)" for jsonb tp i by (auto simp: stmt_keeps_def wf_insert_jobs)
  show "stmt_keeps wf_step (insert_lock k)" for k by (auto simp: stmt_keeps_def wf_insert_lock)
  show "stmt_keeps wf_step (insert_plan b)" for b by (auto simp: stmt_keeps_def wf_insert_plan)
  show "stmt_keeps wf_step (release_stmt ids)" for ids by (auto simp: stmt_keeps_def wf_release)
  show "wf_step (committed p) (committed (snd (commitPlanChange ch plan p)))" if "change_now ch (committed p)" for p ch plan
    using that by (rule wf_commit)
next
  fix c and s :: VmStatus and n d rows d'
  assume s: "s \<in> {Allocating, PendingTermination, Terminating, Terminated}"
    and up: "update_vms c (\<lambda>r. r\<lparr>vr_status := s\<rparr>) n d = Inr (rows, d')"
  show "wf_step d d'" by (rule wf_update_vms [OF up]) (use s in \<open>auto simp: vm_ok_def\<close>)
next
  fix cj :: "job_row \<Rightarrow> bool" and n d jrows d'
  assume c: "\<And>r. cj r \<Longrightarrow> jr_status r \<notin> getFinalJobStatuses" and up: "update_jobs cj cancel_assign n d = Inr (jrows, d')"
  have st: "s \<in> {Queued, Scheduled, Running}" if "s \<notin> getFinalJobStatuses" for s
    using that by (cases s) (simp_all add: status_sets)
  show "wf_step d d'"
  proof (rule wf_update_jobs [OF up])
    fix r assume "cj r" "job_ok r" "job_row_ok (cancel_assign r)"
    then show "job_ok (cancel_assign r)" using st [OF c, of r] by (auto simp: job_ok_def cancel_assign_def)
  qed simp
qed (unfold stmt_keeps_def, ((intro allI impI)?, erule wf_update_vms wf_update_jobs; force simp: vm_ok_def job_ok_def)+)

text \<open>
  The well-formedness of the database is kept by every operation, whatever fails during it, provided the
  plan change it commits (if it is a commit) gives no VM more idle capacity than its total.
\<close>

lemma storage_wf:
  assumes "db_wf (committed p)" and "op_ok (\<lambda>d ch. change_now ch d) (committed p) op"
  shows "db_wf (committed (apply_op jsonb op p))"
  using wf.apply_op_rel [OF assms(2), of jsonb] assms(1) by (simp add: wf_step_def)

definition ex_round :: pg where
  "ex_round = snd (startScheduling ''b'' 40 None \<lparr>committed = empty_db, pg_now = 100000000, faults = []\<rparr>)"

definition ex_grow :: StateChange where
  "ex_grow = \<lparr>jobToVm = [], desiredSlotMap = [(0, \<lparr>total = SlotCapacity 2 8, idle = SlotCapacity 1 4\<rparr>)],
     updatedIdleCapacities = [], vmsToTerminate = []\<rparr>"

end
