(* ===== verification/Scheduler.thy ===== *)
theory Scheduler
  imports VmAssigner Wellformed
begin

text \<open>
  \<^verbatim>\<open>Scheduler::schedule\<close> (\<^verbatim>\<open>libs/scheduler/impl/scheduler.cpp\<close>): start a scheduling round, read the state,
  compute an assignment, commit it. Between these calls other processes use the storage; what they
  do is the argument \<open>others\<close>.
\<close>

section \<open>The scheduling round\<close>

record SchedulerConfig =
  sc_vmAssignerType :: VmAssignerType
  sc_schedulingInterval :: int
  sc_complexVmAssignerConfig :: "ComplexVmAssignerConfig option"

text \<open>The checks of the constructor.\<close>

definition Scheduler_init :: "SlotCapacity list \<Rightarrow> SlotCapacity list result" where
  "Scheduler_init possibleSlots =
     (if possibleSlots = [] then Inl (RuntimeException ''Possible slots array is empty'')
      else if \<not> sorted possibleSlots then Inl (RuntimeException ''Possible slots array is not sorted'')
      else Inr possibleSlots)"

datatype outcome = Finished | Crashed | Hangs

text \<open>
  \<open>distLock\<close>: \<open>None\<close> when the scheduler runs without a distributed lock, otherwise what
  \<^verbatim>\<open>lockNumber()\<close> returns.
\<close>

definition schedule_commit ::
    "SchedulerConfig \<Rightarrow> SlotCapacity list \<Rightarrow> (pg \<Rightarrow> pg) \<Rightarrow> PlanId \<Rightarrow> State \<Rightarrow> pg \<Rightarrow> outcome \<times> pg" where
  "schedule_commit cfg possibleSlots others planId state p =
     (case createVmAssigner_assign (sc_vmAssignerType cfg) (sc_complexVmAssignerConfig cfg) possibleSlots state of
        None \<Rightarrow> (Hangs, p)
      | Some stateChange \<Rightarrow>
          (case commitPlanChange stateChange planId (others p) of
             (StdTerminate, p') \<Rightarrow> (Crashed, p')
           | (Returned _, p') \<Rightarrow> (Finished, p')))"

definition schedule ::
    "string \<Rightarrow> SchedulerConfig \<Rightarrow> SlotCapacity list \<Rightarrow> size_t option option \<Rightarrow> (pg \<Rightarrow> pg) \<Rightarrow> (pg \<Rightarrow> pg) \<Rightarrow> pg \<Rightarrow> outcome \<times> pg" where
  "schedule backendId cfg possibleSlots distLock others1 others2 p =
     (case distLock of
        Some None \<Rightarrow> (Finished, p)
      | _ \<Rightarrow>
          (case startScheduling backendId (sc_schedulingInterval cfg) (Option.bind distLock (\<lambda>n. n)) p of
             (StdTerminate, p1) \<Rightarrow> (Crashed, p1)
           | (Returned (Inl _), p1) \<Rightarrow> (Finished, p1)
           | (Returned (Inr planId), p1) \<Rightarrow>
               (case getCurrentState (others1 p1) of
                  (StdTerminate, p2) \<Rightarrow> (Crashed, p2)
                | (Returned (Inl _), p2) \<Rightarrow> (Finished, p2)
                | (Returned (Inr state), p2) \<Rightarrow> schedule_commit cfg possibleSlots others2 planId state p2)))"

section \<open>What a snapshot knows\<close>

lemma rows_map_Inr: "rows_map f xs = Inr ys \<Longrightarrow> list_all2 (\<lambda>x y. f x = Inr y) xs ys"
  by (induction xs arbitrary: ys) (auto split: sum.splits)

lemma rows_map_total: "\<forall>x \<in> set xs. f x = Inr (g x) \<Longrightarrow> rows_map f xs = Inr (map g xs)"
  by (induction xs) auto

lemma getCurrentState_reads:
  assumes "getCurrentState p = (Returned (Inr st), p')"
  shows "rows_map queued_of_row (filter (\<lambda>r. jr_status r = Queued) (t_jobs (committed p))) = Inr (queuedJobs st) \<and>
     rows_map active_of_row (filter (\<lambda>r. vr_status r \<in> getActiveVmStatuses) (t_vms (committed p))) = Inr (vms st)"
  using assms unfolding getCurrentState_def run_txn_def getQueuedJobs_def getActiveVms_def
  by (auto simp: tx_bind_result_def tx_bind_def tx_try_def tx_return_def tx_lift_def execQuery_def select_jobs_def
      select_vms_def begin_txn_def Let_def failure_prefix_def
      split: fault.splits prod.splits sum.splits if_splits)

end
