(* ===== verification/System.thy ===== *)
theory System
  imports Scheduler
begin

text \<open>
  The running system as a state machine: any number of processes share one database; schedulers go
  through their three calls with anything in between, every other call of the storage may happen at
  any time with any arguments, time passes, connections fail in any pattern and processes die.
  Reachability is an inductive predicate and the invariants are proved by rule induction.
\<close>

section \<open>The step relation\<close>

datatype sched_pc = Idle | Started PlanId | Planned PlanId State

type_synonym sys = "pg \<times> (nat \<Rightarrow> sched_pc)"

fun is_commit :: "storage_op \<Rightarrow> bool" where
  "is_commit (CommitPlanChange ch plan) = True"
| "is_commit _ = False"

definition assigner :: "SchedulerConfig \<Rightarrow> SlotCapacity list \<Rightarrow> State \<Rightarrow> StateChange option" where
  "assigner cfg possible = createVmAssigner_assign (sc_vmAssignerType cfg) (sc_complexVmAssignerConfig cfg) possible"

inductive sys_step ::
    "(string \<Rightarrow> string option) \<Rightarrow> SchedulerConfig \<Rightarrow> SlotCapacity list \<Rightarrow> sys \<Rightarrow> sys \<Rightarrow> bool"
  for jsonb cfg possible where
  sys_op: "\<not> is_commit op \<Longrightarrow> sys_step jsonb cfg possible (p, c) (apply_op jsonb op p, c)"
| sys_tick: "0 \<le> dt \<Longrightarrow> sys_step jsonb cfg possible (p, c) (p\<lparr>pg_now := pg_now p + dt, faults := fs\<rparr>, c)"
| sys_start: "startScheduling b (sc_schedulingInterval cfg) lock p = (Returned (Inr plan), p') \<Longrightarrow>
    sys_step jsonb cfg possible (p, c) (p', c(i := Started plan))"
| sys_read: "c i = Started plan \<Longrightarrow> getCurrentState p = (Returned (Inr st), p') \<Longrightarrow>
    sys_step jsonb cfg possible (p, c) (p', c(i := Planned plan st))"
| sys_commit: "c i = Planned plan st \<Longrightarrow> assigner cfg possible st = Some ch \<Longrightarrow>
    sys_step jsonb cfg possible (p, c) (snd (commitPlanChange ch plan p), c(i := Idle))"
| sys_die: "sys_step jsonb cfg possible (p, c) (p, c(i := Idle))"

inductive reachable :: "(string \<Rightarrow> string option) \<Rightarrow> SchedulerConfig \<Rightarrow> SlotCapacity list \<Rightarrow> sys \<Rightarrow> bool"
  for jsonb cfg possible where
  reach_init: "reachable jsonb cfg possible (\<lparr>committed = empty_db, pg_now = t, faults = fs\<rparr>, \<lambda>_. Idle)"
| reach_step: "reachable jsonb cfg possible s \<Longrightarrow> sys_step jsonb cfg possible s s' \<Longrightarrow> reachable jsonb cfg possible s'"

inductive_cases sys_stepE: "sys_step jsonb cfg possible (p, c) s'"

text \<open>The configuration: sizes are offered, all in range, and the strategy is not next fit.\<close>

definition config_ok :: "SchedulerConfig \<Rightarrow> SlotCapacity list \<Rightarrow> bool" where
  "config_ok cfg possible \<longleftrightarrow> possible \<noteq> [] \<and> (\<forall>s \<in> set possible. cap_ok s) \<and>
     (sc_vmAssignerType cfg = Complex \<longrightarrow> (case sc_complexVmAssignerConfig cfg of None \<Rightarrow> False
        | Some cc \<Rightarrow> allocationStrategy cc \<noteq> NextFitStrategy))"

lemma config_ok_usable:
  "config_ok cfg possible \<Longrightarrow> assigner_usable (sc_vmAssignerType cfg) (sc_complexVmAssignerConfig cfg) possible st"
  by (cases "sc_vmAssignerType cfg"; cases "sc_complexVmAssignerConfig cfg")
     (auto simp: config_ok_def complex_usable_def)

section \<open>What a snapshot knows about the database\<close>

definition row_of_vm :: "vm_row \<Rightarrow> ActiveVm \<Rightarrow> bool" where
  "row_of_vm r vm \<longleftrightarrow> vr_id r = avm_id vm \<and> vr_cpu r = uint (cpu (totalCapacity vm)) \<and> vr_ram r = uint (ram (totalCapacity vm))"

definition knows :: "db \<Rightarrow> State \<Rightarrow> bool" where
  "knows d st \<longleftrightarrow> state_ok st \<and> (\<forall>job \<in> set (queuedJobs st). cap_ok (requiredCapacity job)) \<and>
     (\<forall>vm \<in> set (vms st). fits (idleCapacity vm) (totalCapacity vm) \<and> (\<exists>r \<in> set (t_vms d). row_of_vm r vm))"

lemma knows_extends:
  assumes "extends d d'" and "knows d st"
  shows "knows d' st"
proof -
  have "\<exists>r' \<in> set (t_vms d'). row_of_vm r' vm" if "r \<in> set (t_vms d)" "row_of_vm r vm" for r vm
  proof -
    have "prefix (map vm_key (t_vms d)) (map vm_key (t_vms d'))" using assms(1) by (simp add: extends_def)
    then have "vm_key r \<in> set (map vm_key (t_vms d'))" using that(1) set_mono_prefix by fastforce
    then obtain r' where "r' \<in> set (t_vms d')" "vm_key r' = vm_key r" by auto
    with that(2) show ?thesis by (auto simp: row_of_vm_def vm_key_def)
  qed
  with assms(2) show ?thesis unfolding knows_def by meson
qed

lemma cap_of_row:
  assumes "row_capacity c r = Inr s" and "int4 c" and "int4 r"
  shows "cap_ok s \<and> uint (cpu s) = c \<and> uint (ram s) = r"
proof -
  have s: "s = SlotCapacity (of_int c) (of_int r)" and nn: "0 \<le> c" "0 \<le> r"
    using assms(1) by (auto simp: row_capacity_def as_size_t_def split: if_splits)
  have "uint (of_int c :: size_t) = c" "uint (of_int r :: size_t) = r"
    using assms(2,3) nn by (simp_all add: uint_word_of_int int4_def)
  moreover have "c < 2 ^ 31" "r < 2 ^ 31" using assms(2,3) by (simp_all add: int4_def)
  ultimately show ?thesis
    using nn by (auto simp: s cap_ok_def unat_eq_nat_uint)
qed

lemma queued_of_row_ok:
  assumes "queued_of_row r = Inr q" and "job_row_ok r"
  shows "qj_id q = jr_id r \<and> cap_ok (requiredCapacity q)"
  using assms cap_of_row [of "jr_cpu r" "jr_ram r"]
  by (auto simp: queued_of_row_def job_row_ok_def split: sum.splits)

lemma active_of_row_ok:
  assumes "active_of_row r = Inr v" and "vm_ok r"
  shows "row_of_vm r v \<and> cap_ok (idleCapacity v) \<and> fits (idleCapacity v) (totalCapacity v)"
proof -
  obtain t i where t: "row_capacity (vr_cpu r) (vr_ram r) = Inr t" and i: "row_capacity (vr_cpu_idle r) (vr_ram_idle r) = Inr i"
    and v: "v = \<lparr>avm_id = vr_id r, totalCapacity = t, idleCapacity = i\<rparr>"
    using assms(1) by (auto simp: active_of_row_def split: sum.splits)
  have r: "int4 (vr_cpu r)" "int4 (vr_ram r)" "int4 (vr_cpu_idle r)" "int4 (vr_ram_idle r)"
    "vr_cpu_idle r \<le> vr_cpu r" "vr_ram_idle r \<le> vr_ram r"
    using assms(2) by (simp_all add: vm_ok_def vm_row_ok_def)
  show ?thesis
    using cap_of_row [OF t r(1,2)] cap_of_row [OF i r(3,4)] r(5,6) by (simp add: v row_of_vm_def fits_def word_le_def)
qed

text \<open>A snapshot, row by row.\<close>

lemma getCurrentState_rows:
  assumes wf: "db_wf (committed p)" and run: "getCurrentState p = (Returned (Inr st), p')"
  defines "js \<equiv> filter (\<lambda>r. jr_status r = Queued) (t_jobs (committed p))"
    and "vs \<equiv> filter (\<lambda>r. vr_status r \<in> getActiveVmStatuses) (t_vms (committed p))"
  shows "list_all2 (\<lambda>r q. job_row_ok r \<and> queued_of_row r = Inr q) js (queuedJobs st)"
    and "list_all2 (\<lambda>r v. vm_ok r \<and> active_of_row r = Inr v) vs (vms st)"
    and "map qj_id (queuedJobs st) = map jr_id js" and "map avm_id (vms st) = map vr_id vs"
proof -
  note reads = getCurrentState_reads [OF run]
  have "list_all2 (\<lambda>x y. queued_of_row x = Inr y) js (queuedJobs st)" using reads rows_map_Inr unfolding js_def by blast
  moreover have "job_row_ok r" if "r \<in> set js" for r using wf that by (auto simp: js_def db_wf_def job_ok_def)
  ultimately show js: "list_all2 (\<lambda>r q. job_row_ok r \<and> queued_of_row r = Inr q) js (queuedJobs st)"
    by (simp add: list_all2_conv_all_nth)
  have "list_all2 (\<lambda>x y. active_of_row x = Inr y) vs (vms st)" using reads rows_map_Inr unfolding vs_def by blast
  moreover have "vm_ok r" if "r \<in> set vs" for r using wf that by (auto simp: vs_def db_wf_def)
  ultimately show vs: "list_all2 (\<lambda>r v. vm_ok r \<and> active_of_row r = Inr v) vs (vms st)"
    by (simp add: list_all2_conv_all_nth)
  show "map qj_id (queuedJobs st) = map jr_id js"
    using js by (induction rule: list_all2_induct) (simp_all add: queued_of_row_ok)
  show "map avm_id (vms st) = map vr_id vs"
    using vs by (induction rule: list_all2_induct) (use active_of_row_ok in \<open>auto simp: row_of_vm_def\<close>)
qed

lemma getCurrentState_knows:
  assumes wf: "db_wf (committed p)" and run: "getCurrentState p = (Returned (Inr st), p')"
  shows "knows (committed p) st"
proof -
  note rows = getCurrentState_rows [OF wf run]
  have "state_ok st" if "\<forall>vm \<in> set (vms st). cap_ok (idleCapacity vm)"
    using wf that rows(3,4) by (simp add: state_ok_def db_wf_def distinct_map_filter)
  moreover have "fits (idleCapacity v) (totalCapacity v) \<and> cap_ok (idleCapacity v) \<and> (\<exists>r \<in> set (t_vms (committed p)). row_of_vm r v)"
    if v: "v \<in> set (vms st)" for v
    using list_all2_source [OF rows(2) v] active_of_row_ok by fastforce
  moreover have "cap_ok (requiredCapacity q)" if q: "q \<in> set (queuedJobs st)" for q
    using list_all2_source [OF rows(1) q] queued_of_row_ok by blast
  ultimately show ?thesis by (simp add: knows_def)
qed

section \<open>The invariant\<close>

text \<open>The change computed from a snapshot fits the database, however old the snapshot is.\<close>

lemma assigned_change_now:
  assumes wf: "db_wf d" and know: "knows d st" and cfg: "config_ok cfg possible" and as: "assigner cfg possible st = Some ch"
  shows "change_now ch d"
proof -
  have use: "assigner_usable (sc_vmAssignerType cfg) (sc_complexVmAssignerConfig cfg) possible st"
    using cfg by (rule config_ok_usable)
  have ok: "state_ok st" using know by (simp add: knows_def)
  note as' = as [unfolded assigner_def]
  have valid: "valid_change st ch" using created.assign_valid [OF use ok] as' by auto
  have "fits (idle s) (total s)" if "(i, s) \<in> set (desiredSlotMap ch)" for i s
    using assign_slots_fit [OF use ok as' _ _ that] cfg know by (simp add: config_ok_def knows_def)
  moreover have upd: "v < next_vm (seqs d) \<and> (\<forall>r \<in> set (t_vms d). vr_id r = v \<longrightarrow> uint (cpu c) \<le> vr_cpu r \<and> uint (ram c) \<le> vr_ram r)"
    if vc: "(v, c) \<in> set (updatedIdleCapacities ch)" and dist: "distinct (map fst (updatedIdleCapacities ch))" for v c
  proof -
    obtain vm where vm: "vm \<in> set (vms st)" "avm_id vm = v"
      using valid vc by (force simp: valid_change_def balances_def)
    have "idle_after ch vm = c" using vc dist vm(2) by (simp add: idle_after_def)
    then have le: "ncpu c \<le> ncpu (idleCapacity vm)" "nram c \<le> nram (idleCapacity vm)"
      using valid vm(1) by (auto simp: valid_change_def balances_def)
    have "fits (idleCapacity vm) (totalCapacity vm)" using know vm(1) by (simp add: knows_def)
    then have fit: "fits c (totalCapacity vm)" using le by (simp add: fits_nat)
    obtain r0 where r0: "r0 \<in> set (t_vms d)" "row_of_vm r0 vm" using know vm(1) by (auto simp: knows_def)
    have "r = r0" if "r \<in> set (t_vms d)" "vr_id r = v" for r
      using wf that r0 vm(2) by (metis db_wf_def row_of_vm_def distinct_map inj_onD)
    moreover have "vr_id r0 < next_vm (seqs d)" using wf r0(1) by (simp add: db_wf_def)
    moreover have "vr_id r0 = v" "uint (cpu c) \<le> vr_cpu r0" "uint (ram c) \<le> vr_ram r0"
      using fit r0(2) vm(2) by (simp_all add: row_of_vm_def fits_def word_le_def)
    ultimately show ?thesis by blast
  qed
  moreover have "distinct (map fst (updatedIdleCapacities ch))" using assign_updates_distinct [OF as'] .
  ultimately show ?thesis
    unfolding change_now_def change_ok_def by (force simp: image_iff)
qed

fun sys_inv :: "sys \<Rightarrow> bool" where
  "sys_inv (p, c) = (db_wf (committed p) \<and> (\<forall>i plan st. c i = Planned plan st \<longrightarrow> knows (committed p) st))"

lemma sys_inv_db:
  assumes "sys_inv (p, c)" and "extends (committed p) (committed p')" and "wf_step (committed p) (committed p')"
    and "\<And>i plan st. c' i = Planned plan st \<Longrightarrow> c i = Planned plan st \<or> knows (committed p') st"
  shows "sys_inv (p', c')"
  using assms(1,3,4) knows_extends [OF assms(2)] unfolding wf_step_def sys_inv.simps by blast

lemma sys_inv_step:
  assumes "sys_step jsonb cfg possible s s'" and "sys_inv s" and cfg: "config_ok cfg possible"
  shows "sys_inv s'"
  using assms(1,2)
proof cases
  case (sys_op op p c)
  have "op_ok (\<lambda>d ch. change_now ch d) (committed p) op" using sys_op by (cases op) simp_all
  then have "wf_step (committed p) (committed (apply_op jsonb op p))"
    by (rule wf.apply_op_rel)
  moreover have "extends (committed p) (committed (apply_op jsonb op p))"
    by (rule hist.apply_op_rel) (cases op; simp)
  ultimately show ?thesis using sys_op assms(2) sys_inv_db [of p c _ c] by simp
next
  case (sys_tick dt p c fs)
  then show ?thesis using assms(2) by simp
next
  case (sys_start b lock p plan p' c i)
  have w: "wf_step (committed p) (committed p')" and e: "extends (committed p) (committed p')"
    using wf.startScheduling_rel [of p b "sc_schedulingInterval cfg" lock]
      hist.startScheduling_rel [of p b "sc_schedulingInterval cfg" lock] sys_start by simp_all
  have "sys_inv (p, c)" using sys_start(1) assms(2) by simp
  then have "sys_inv (p', c(i := Started plan))" by (rule sys_inv_db [OF _ e w]) (simp split: if_splits)
  then show ?thesis using sys_start(2) by simp
next
  case (sys_read c i plan p st p')
  have w: "wf_step (committed p) (committed p')" and ext: "extends (committed p) (committed p')"
    using wf_rel.getCurrentState_rel [of p] hist_rel.getCurrentState_rel [of p] sys_read by simp_all
  have k: "knows (committed p') st"
    using getCurrentState_knows sys_read assms(2) knows_extends [OF ext] by simp
  have "sys_inv (p, c)" using sys_read(1) assms(2) by simp
  then have "sys_inv (p', c(i := Planned plan st))"
    by (rule sys_inv_db [OF _ ext w]) (use k in \<open>auto split: if_splits\<close>)
  then show ?thesis using sys_read(2) by simp
next
  case (sys_commit c i plan st ch p)
  have "change_now ch (committed p)"
    using assigned_change_now [OF _ _ cfg sys_commit(4), of "committed p"] sys_commit(1,3) assms(2) by auto
  then have w: "wf_step (committed p) (committed (snd (commitPlanChange ch plan p)))" by (rule wf_commit)
  have "sys_inv (p, c)" using sys_commit(1) assms(2) by simp
  then have "sys_inv (snd (commitPlanChange ch plan p), c(i := Idle))"
    by (rule sys_inv_db [OF _ extends_commit w]) (simp split: if_splits)
  then show ?thesis using sys_commit(2) by simp
next
  case (sys_die p c i)
  then show ?thesis using assms(2) by (auto split: if_splits)
qed

lemma reachable_inv: "reachable jsonb cfg possible s \<Longrightarrow> config_ok cfg possible \<Longrightarrow> sys_inv s"
proof (induction rule: reachable.induct)
  case (reach_init t fs)
  then show ?case by (simp add: empty_db_wf)
next
  case (reach_step s s')
  then show ?case using sys_inv_step by blast
qed

text \<open>
  C1. In every state the running system can reach, from an empty database, under any interleaving of
  schedulers, other calls, passing time, failing connections and dying processes, the database is
  well-formed: keys are unique, references resolve, idle capacities lie between zero and the total,
  allocated VMs have their provider's identifier, and scheduled, running and cancelling jobs have a
  VM. (The offered sizes are in range and the strategy is not next fit.)
\<close>

theorem reachable_wf:
  assumes "reachable jsonb cfg possible (p, c)" and "config_ok cfg possible"
  shows "db_wf (committed p)"
  using reachable_inv [OF assms] by simp

definition ex_task :: TaskParameters where
  "ex_task = \<lparr>tp_requiredCapacity = SlotCapacity 1 4, estimation = 60, jobCount = 2, settings = ''{}'',
     imageVersion = ''v1'', clientId = ''me'', jobOptions = [''{}'', ''{}'']\<rparr>"

definition ex_cfg :: SchedulerConfig where
  "ex_cfg = \<lparr>sc_vmAssignerType = Complex, sc_schedulingInterval = 40, sc_complexVmAssignerConfig = Some ex_config\<rparr>"

definition ex_pg :: pg where
  "ex_pg = \<lparr>committed = empty_db, pg_now = 100000000, faults = []\<rparr>"

lemma ex_config_ok: "config_ok ex_cfg ex_possible"
  by (simp add: config_ok_def ex_cfg_def ex_possible_def cap_ok_def ex_config_def)

lemma ex_reachable: "reachable Some ex_cfg ex_possible (apply_op Some (AddTask ex_task) ex_pg, \<lambda>_. Idle)"
  unfolding ex_pg_def by (rule reach_step [OF reach_init sys_op]) simp

theorem reachable_wf_witness:
  "reachable Some ex_cfg ex_possible (apply_op Some (AddTask ex_task) ex_pg, \<lambda>_. Idle) \<and> config_ok ex_cfg ex_possible \<and>
   length (t_jobs (committed (apply_op Some (AddTask ex_task) ex_pg))) = 2 \<and>
   db_wf (committed (apply_op Some (AddTask ex_task) ex_pg))"
proof -
  have "length (t_jobs (committed (apply_op Some (AddTask ex_task) ex_pg))) = 2" by code_simp
  with reachable_wf [OF ex_reachable ex_config_ok] ex_reachable ex_config_ok show ?thesis by blast
qed

section \<open>A scheduling round is a run of the machine\<close>

text \<open>What the others do between two calls of process \<open>i\<close>: steps that leave its program counter alone.\<close>

definition others_ok :: "(string \<Rightarrow> string option) \<Rightarrow> SchedulerConfig \<Rightarrow> SlotCapacity list \<Rightarrow> (pg \<Rightarrow> pg) \<Rightarrow> bool" where
  "others_ok jsonb cfg possible f \<longleftrightarrow>
     (\<forall>p c. reachable jsonb cfg possible (p, c) \<longrightarrow> (\<exists>c'. reachable jsonb cfg possible (f p, c') \<and>
        (\<forall>i. c i \<noteq> Idle \<longrightarrow> c' i = c i)))"

lemma schedule_commit_reachable:
  assumes "reachable jsonb cfg possible (p, c)" and "c i = Planned plan st" and "others_ok jsonb cfg possible others"
    and "schedule_commit cfg possible others plan st p = (r, p')"
  shows "\<exists>c'. reachable jsonb cfg possible (p', c')"
proof (cases "assigner cfg possible st")
  case None
  then show ?thesis using assms(1,4) by (auto simp: schedule_commit_def assigner_def)
next
  case (Some ch)
  obtain c1 where c1: "reachable jsonb cfg possible (others p, c1)" "c1 i = Planned plan st"
    using assms(1-3) unfolding others_ok_def by (metis sched_pc.distinct(3))
  have "reachable jsonb cfg possible (snd (commitPlanChange ch plan (others p)), c1(i := Idle))"
    by (rule reach_step [OF c1(1)], rule sys_commit [where c = c1 and i = i]) (fact c1(2), fact Some)
  then show ?thesis
    using assms(4) Some by (auto simp: schedule_commit_def assigner_def split: prod.splits call.splits)
qed

text \<open>
  A call of \<^verbatim>\<open>Scheduler::schedule\<close>, with anything reachable happening between its calls of the
  storage, leads from a reachable state to a reachable state, however it ends. So the invariants of
  the machine hold after it.
\<close>

lemma schedule_reachable:
  assumes "reachable jsonb cfg possible (p, c)" and "others_ok jsonb cfg possible others1" and "others_ok jsonb cfg possible others2"
    and "schedule backendId cfg possible distLock others1 others2 p = (r, p')"
  shows "\<exists>c'. reachable jsonb cfg possible (p', c')"
proof (cases "distLock = Some None")
  case True
  then show ?thesis using assms(1,4) by (auto simp: schedule_def)
next
  case False
  define lock where "lock = Option.bind distLock (\<lambda>n. n)"
  obtain res p1 where start: "startScheduling backendId (sc_schedulingInterval cfg) lock p = (res, p1)"
    by (cases "startScheduling backendId (sc_schedulingInterval cfg) lock p")
  have "apply_op jsonb (StartScheduling backendId (sc_schedulingInterval cfg) lock) p = p1" using start by simp
  then have r1: "reachable jsonb cfg possible (p1, c)"
    using reach_step [OF assms(1) sys_op [of "StartScheduling backendId (sc_schedulingInterval cfg) lock"]] by simp
  show ?thesis
  proof (cases "\<exists>plan. res = Returned (Inr plan)")
    case False': False
    then have "p' = p1"
      using assms(4) start False by (auto simp: schedule_def lock_def split: call.splits sum.splits option.splits)
    with r1 show ?thesis by blast
  next
    case True
    then obtain plan where plan: "res = Returned (Inr plan)" by blast
    have "reachable jsonb cfg possible (p1, c(0 := Started plan))"
      by (rule reach_step [OF assms(1) sys_start]) (use start plan in simp)
    then obtain c2 where c2: "reachable jsonb cfg possible (others1 p1, c2)" "c2 0 = Started plan"
      using assms(2) unfolding others_ok_def by (metis fun_upd_same sched_pc.distinct(1))
    obtain q p2 where read: "getCurrentState (others1 p1) = (q, p2)" by (cases "getCurrentState (others1 p1)")
    have p2: "reachable jsonb cfg possible (p2, c2)"
      using reach_step [OF c2(1) sys_op [of GetCurrentState]] read by simp
    have sched: "schedule backendId cfg possible distLock others1 others2 p = (case (q, p2) of
        (StdTerminate, p2) \<Rightarrow> (Crashed, p2) | (Returned (Inl _), p2) \<Rightarrow> (Finished, p2)
      | (Returned (Inr state), p2) \<Rightarrow> schedule_commit cfg possible others2 plan state p2)"
      using False start plan read by (auto simp: schedule_def lock_def split: option.splits)
    show ?thesis
    proof (cases "\<exists>st. q = Returned (Inr st)")
      case True
      then obtain st where st: "q = Returned (Inr st)" by blast
      have "reachable jsonb cfg possible (p2, c2(0 := Planned plan st))"
        by (rule reach_step [OF c2(1)], rule sys_read [where c = c2 and i = 0]) (use c2(2) read st in simp_all)
      moreover have "schedule_commit cfg possible others2 plan st p2 = (r, p')" using st sched assms(4) by simp
      ultimately show ?thesis
        using schedule_commit_reachable [of jsonb cfg possible p2 "c2(0 := Planned plan st)" 0 plan st others2 r p'] assms(3)
        by simp
    next
      case False
      then have "p' = p2" using sched assms(4) by (auto split: call.splits sum.splits)
      with p2 show ?thesis by blast
    qed
  qed
qed

lemma others_ok_id: "others_ok jsonb cfg possible (\<lambda>p. p)"
  by (auto simp: others_ok_def)

lemma others_ok_op:
  assumes "\<not> is_commit op"
  shows "others_ok jsonb cfg possible (apply_op jsonb op)"
  using reach_step [OF _ sys_op [OF assms]] by (fastforce simp: others_ok_def)

end
