(* ===== verification/StorageSpec.thy ===== *)
theory StorageSpec
  imports System
begin

text \<open>
  What single operations of the storage do: their effect when they report success, and that they
  change nothing when they report a failure.
\<close>

section \<open>Reading a successful run backwards\<close>

lemma execQuery_success:
  assumes "execQuery q t = (Inr r, t')"
  shows "q (pg_now t) (work t) = Inr (r, work t') \<and> committed t' = committed t \<and> pg_now t' = pg_now t \<and>
     txn_status t = Active \<and> txn_status t' = Active"
  using assms by (auto simp: execQuery_def Let_def split: if_splits fault.splits sum.splits prod.splits)

lemma tx_commit_success:
  assumes "tx_commit t = (Inr u, t')"
  shows "committed t' = work t \<and> work t' = work t"
  using assms by (auto simp: tx_commit_def Let_def split: if_splits fault.splits)

lemma tx_bind_success:
  assumes "tx_bind m f t = (Inr y, t')"
  obtains x u where "m t = (Inr x, u)" "f x u = (Inr y, t')"
  using assms by (auto simp: tx_bind_def split: prod.splits sum.splits)

lemma tx_bind_result_success:
  assumes "tx_bind_result m f t = (Inr (Inr y), t')"
  obtains x u where "m t = (Inr (Inr x), u)" "f x u = (Inr (Inr y), t')"
  using assms by (auto simp: tx_bind_result_def tx_bind_def tx_return_def split: prod.splits sum.splits)

lemma tx_try_success:
  assumes "tx_try m h t = (Inr (Inr y), t')" and "\<And>e. h e \<noteq> Inr y"
  shows "m t = (Inr (Inr y), t')"
  using assms by (auto simp: tx_try_def split: prod.splits sum.splits)

lemma run_txn_success:
  assumes "run_txn h body p = (Returned (Inr y), p')" and "\<And>e. h e \<noteq> Inr y"
  obtains t where "body (begin_txn p) = (Inr (Inr y), t)" "p' = end_txn t"
  using assms by (auto simp: run_txn_def split: fault.splits prod.splits sum.splits)

lemma begin_txn_simps [simp]:
  "committed (begin_txn p) = committed p" "work (begin_txn p) = committed p" "pg_now (begin_txn p) = pg_now p"
  "txn_status (begin_txn p) = Active"
  by (simp_all add: begin_txn_def)

lemma acquireLock_failure_ne [simp]: "acquireLock_failure w e \<noteq> Inr y"
  by (cases e) (simp_all)

section \<open>A failed operation changes nothing\<close>

lemma set_tl: "x \<in> set (tl xs) \<Longrightarrow> x \<in> set xs"
  by (cases xs) auto

text \<open>The tables apart from the sequences, which a roll-back does not restore.\<close>

definition same_tables :: "db \<Rightarrow> db \<Rightarrow> bool" where
  "same_tables d d' \<longleftrightarrow> d' = d\<lparr>seqs := seqs d'\<rparr>"

lemma same_tablesD:
  assumes "same_tables d d'"
  shows "t_vms d' = t_vms d" "t_tasks d' = t_tasks d" "t_jobs d' = t_jobs d" "t_plan d' = t_plan d"
  using arg_cong [OF assms [unfolded same_tables_def], of t_vms] arg_cong [OF assms [unfolded same_tables_def], of t_tasks]
    arg_cong [OF assms [unfolded same_tables_def], of t_jobs] arg_cong [OF assms [unfolded same_tables_def], of t_plan] by simp_all

definition no_late_fault :: "fault list \<Rightarrow> bool" where
  "no_late_fault fs \<longleftrightarrow> (\<forall>e. ThrowsAfterCommit e \<notin> set fs)"

text \<open>
  \<open>late m\<close>: as long as \<open>m\<close> does not return a success, nothing is committed. \<open>quiet m\<close>: \<open>m\<close> commits
  nothing at all.
\<close>

definition quiet :: "'a tx \<Rightarrow> bool" where
  "quiet m \<longleftrightarrow> (\<forall>t r t'. m t = (r, t') \<longrightarrow> committed t' = committed t \<and> set (faults t') \<subseteq> set (faults t))"

definition late :: "'a result tx \<Rightarrow> bool" where
  "late m \<longleftrightarrow> (\<forall>t r t'. m t = (r, t') \<longrightarrow> no_late_fault (faults t) \<longrightarrow>
     committed t' = committed t \<or> (\<exists>x. r = Inr (Inr x)))"

lemma quiet_return: "quiet (tx_return x)"
  by (simp add: quiet_def tx_return_def)

lemma quiet_throw: "quiet (tx_throw e)"
  by (simp add: quiet_def tx_throw_def)

lemma quiet_lift: "quiet (tx_lift r)"
  by (simp add: quiet_def tx_lift_def)

lemma quiet_exec: "quiet (execQuery q)"
  unfolding quiet_def execQuery_def Let_def
  by (auto split: if_splits fault.splits sum.splits prod.splits dest: set_tl)

lemma quiet_bind: "quiet m \<Longrightarrow> (\<And>x. quiet (f x)) \<Longrightarrow> quiet (tx_bind m f)"
  unfolding quiet_def tx_bind_def by (fastforce split: prod.splits sum.splits)

lemma quiet_try: "quiet m \<Longrightarrow> quiet (tx_try m h)"
  unfolding quiet_def tx_try_def by (fastforce split: prod.splits sum.splits)

lemma quiet_bind_result: "quiet m \<Longrightarrow> (\<And>x. quiet (f x)) \<Longrightarrow> quiet (tx_bind_result m f)"
  unfolding tx_bind_result_def by (auto intro!: quiet_bind quiet_return split: sum.splits)

lemma late_quiet: "quiet m \<Longrightarrow> late m"
  unfolding late_def quiet_def by blast

lemma late_bind_result:
  assumes "quiet m" and "\<And>x. late (f x)"
  shows "late (tx_bind_result m f)"
  unfolding late_def
proof (intro allI impI)
  fix t r t'
  assume run: "tx_bind_result m f t = (r, t')" and nf: "no_late_fault (faults t)"
  obtain q u where m: "m t = (q, u)" by (cases "m t")
  have u: "committed u = committed t" "no_late_fault (faults u)"
    using assms(1) m nf unfolding quiet_def no_late_fault_def by blast+
  show "committed t' = committed t \<or> (\<exists>x. r = Inr (Inr x))"
  proof (cases "\<exists>x. q = Inr (Inr x)")
    case True
    then obtain x where "f x u = (r, t')" using run m by (auto simp: tx_bind_result_def tx_bind_def)
    then show ?thesis using assms(2) u unfolding late_def by metis
  next
    case False
    then have "t' = u" using run m
      by (auto simp: tx_bind_result_def tx_bind_def tx_return_def split: sum.splits)
    with u show ?thesis by simp
  qed
qed

lemma late_commit: "late (tx_try (tx_bind tx_commit (\<lambda>_. tx_return (Inr x))) h)"
  unfolding late_def tx_try_def tx_bind_def tx_return_def tx_commit_def next_fault_def no_late_fault_def Let_def
  by (auto split: if_splits fault.splits list.splits)

lemma run_txn_late:
  assumes "late body" and "no_late_fault (faults p)" and "run_txn h body p = (r, p')" and "\<And>x. r \<noteq> Returned (Inr x)"
  shows "same_tables (committed p) (committed p')"
proof -
  have "no_late_fault (faults (begin_txn p))"
    using assms(2) by (cases "faults p") (auto simp: no_late_fault_def begin_txn_def)
  then have "committed t = committed p" if "body (begin_txn p) = (q, t)" "\<And>x. q \<noteq> Inr (Inr x)" for q t
    using assms(1) that unfolding late_def by fastforce
  with assms(3,4) show ?thesis
    by (auto simp: run_txn_def same_tables_def end_txn_def split: fault.splits prod.splits sum.splits)
qed

text \<open>
  A run got through when it returned a success or, whatever it returned, committed something (the answer to
  the commit may be lost). Then every quiet step before the commit succeeded.
\<close>

definition went_through :: "pg_exn + 'a result \<Rightarrow> txn \<Rightarrow> txn \<Rightarrow> bool" where
  "went_through r t t' \<longleftrightarrow> (\<exists>x. r = Inr (Inr x)) \<or> committed t' \<noteq> committed t"

lemma went_through_bind:
  assumes "tx_bind_result m f t = (r, t')" and "went_through r t t'" and "quiet m"
  obtains x u where "m t = (Inr (Inr x), u)" "f x u = (r, t')" "went_through r u t'"
proof -
  obtain q u where m: "m t = (q, u)" by (cases "m t")
  have "committed u = committed t" using assms(3) m unfolding quiet_def by blast
  with assms(1,2) m that show thesis
    by (auto simp: tx_bind_result_def tx_bind_def tx_return_def went_through_def split: sum.splits)
qed

lemma went_through_commit:
  assumes "tx_try (tx_bind tx_commit (\<lambda>_. tx_return (Inr x))) (failure_prefix m) t = (r, t')" and "went_through r t t'"
  shows "committed t' = work t \<and> work t' = work t"
  using assms unfolding went_through_def
  by (auto simp: tx_try_def tx_bind_def tx_return_def tx_commit_def Let_def split: if_splits fault.splits)

lemma went_through_run:
  assumes "run_txn h body p = (r, p')" and "(\<exists>x. r = Returned (Inr x)) \<or> \<not> same_tables (committed p) (committed p')"
    and "\<And>e x. h e \<noteq> Inr x"
  obtains q t where "body (begin_txn p) = (q, t)" "p' = end_txn t" "went_through q (begin_txn p) t"
proof -
  have "same_tables (committed p) (committed (end_txn t))" if "committed t = committed p" for t
    using that by (simp add: same_tables_def end_txn_def)
  with assms that show thesis
    by (auto simp: run_txn_def went_through_def begin_txn_def same_tables_def split: fault.splits prod.splits sum.splits)
qed

lemma quiet_allocate_loop: "quiet (allocate_loop m acc)"
  by (induction m acc rule: allocate_loop.induct)
     (auto intro!: quiet_return quiet_bind_result quiet_try quiet_bind quiet_exec)

lemma quiet_checkConflicts: "quiet (checkConflicts ch)"
  unfolding checkConflicts_def getJobStatusesWithLock_def getVmStatusesWithLock_def
  by (auto intro!: quiet_try quiet_bind quiet_exec quiet_return)

lemmas quiet_rules = quiet_return quiet_throw quiet_lift quiet_exec quiet_bind quiet_try quiet_bind_result

text \<open>Unless a commit reports success, nothing changed, a lost answer to the server's commit apart.\<close>

lemma commit_unless_late:
  assumes "commitPlanChange ch plan p = (r, p')" and "r \<noteq> Returned (Inr ())" and "no_late_fault (faults p)"
  shows "same_tables (committed p) (committed p')"
proof -
  have "late (commit_locked ch plan)"
    unfolding commit_locked_def isSchedulingRelevant_def terminateVms_def updateVmCapacities_def allocateNewVms_def
      applyJobVmAssignments_def refreshPlanActivityTs_def
    by (auto intro!: late_bind_result late_commit late_quiet [OF quiet_return] quiet_rules quiet_checkConflicts
        quiet_allocate_loop)
  then have "late (tx_bind_result (tx_try (tx_bind (execQuery lock_plan) (\<lambda>_. tx_return (Inr ()))) (acquireLock_failure False))
      (\<lambda>_. commit_locked ch plan))"
    by (intro late_bind_result) (intro quiet_rules)
  moreover have "r \<noteq> Returned (Inr x)" for x using assms(2) by simp
  ultimately show ?thesis
    using run_txn_late [OF _ assms(3) assms(1) [unfolded commitPlanChange_def acquireLock_def]] by blast
qed

text \<open>Two queued jobs and a plan; the change puts both on one new VM.\<close>

definition ex_planned :: pg where
  "ex_planned = apply_op Some (StartScheduling ''b'' 40 None) (apply_op Some (AddTask ex_task) ex_pg)"

definition ex_place :: StateChange where
  "ex_place = \<lparr>jobToVm = [(1, DesiredVm 0), (2, DesiredVm 0)],
     desiredSlotMap = [(0, \<lparr>total = SlotCapacity 2 8, idle = SlotCapacity 0 0\<rparr>)], updatedIdleCapacities = [], vmsToTerminate = []\<rparr>"

definition ex_lost :: pg where
  "ex_lost = ex_planned\<lparr>faults := replicate 7 NoFault @ [Throws (sql_error ''connection lost'')]\<rparr>"

definition ex_late :: pg where
  "ex_late = ex_planned\<lparr>faults := replicate 7 NoFault @ [ThrowsAfterCommit (sql_error ''connection lost'')]\<rparr>"

section \<open>What a committed plan change does\<close>

lemma exec_try_success:
  assumes "tx_try (tx_bind (execQuery q) (\<lambda>x. tx_return (Inr (g x)))) (failure_prefix m) t = (Inr (Inr y), t')"
  shows "\<exists>r. q (pg_now t) (work t) = Inr (r, work t') \<and> y = g r \<and> committed t' = committed t \<and> pg_now t' = pg_now t"
proof -
  obtain x where x: "execQuery q t = (Inr x, t')" "y = g x"
    using tx_try_success [OF assms failure_prefix_ne]
    by (auto simp: tx_bind_def tx_return_def split: prod.splits sum.splits)
  then show ?thesis using execQuery_success [OF x(1)] by auto
qed

lemma terminateVms_success:
  assumes "terminateVms ids t = (Inr (Inr u), t')"
  shows "committed t' = committed t \<and> pg_now t' = pg_now t \<and> (\<exists>c rows.
     update_vms c (\<lambda>r. r\<lparr>vr_status := PendingTermination\<rparr>) (pg_now t) (work t) = Inr (rows, work t') \<and>
     (\<forall>r. c r \<longleftrightarrow> vr_id r \<in> set ids)) \<or> ids = [] \<and> t' = t"
proof (cases "ids = []")
  case True
  with assms show ?thesis by (simp add: terminateVms_def tx_return_def)
next
  case False
  then show ?thesis using assms exec_try_success [where t = t and t' = t' and g = "\<lambda>_. ()"] by (fastforce simp: terminateVms_def)
qed

lemma updateVmCapacities_success:
  assumes "updateVmCapacities m t = (Inr (Inr u), t')"
  shows "committed t' = committed t \<and> pg_now t' = pg_now t \<and> (\<exists>rows.
     update_vms (\<lambda>r. vr_id r \<in> keys m) (set_idle m) (pg_now t) (work t) = Inr (rows, work t')) \<or> m = [] \<and> t' = t"
proof (cases "m = []")
  case True
  with assms show ?thesis by (simp add: updateVmCapacities_def tx_return_def)
next
  case False
  then show ?thesis using assms exec_try_success [where t = t and t' = t' and g = "\<lambda>_. ()"] by (fastforce simp: updateVmCapacities_def)
qed

lemma applyJobVmAssignments_success:
  assumes "applyJobVmAssignments m s t = (Inr (Inr u), t')"
  shows "committed t' = committed t \<and> pg_now t' = pg_now t \<and> (\<forall>(j, x) \<in> set m. assignment_target s x \<noteq> None) \<and>
     (\<exists>rows. assignments_stmt m s (pg_now t) (work t) = Inr (rows, work t')) \<or> m = [] \<and> t' = t"
proof (cases "m = []")
  case True
  with assms show ?thesis by (simp add: applyJobVmAssignments_def tx_return_def)
next
  case False
  then have "\<not> (\<exists>(j, x) \<in> set m. assignment_target s x = None)"
    using assms by (auto simp: applyJobVmAssignments_def tx_throw_def split: if_splits)
  then show ?thesis
    using False assms exec_try_success [where t = t and t' = t' and g = "\<lambda>_. ()"]
    unfolding applyJobVmAssignments_def assignments_stmt_def [symmetric] by fastforce
qed

text \<open>The rows created for the new slots, given the identifiers they got.\<close>

definition new_vms :: "(DesiredSlotId, VmId) umap \<Rightarrow> int \<Rightarrow> DesiredSlotMap \<Rightarrow> vm_row list" where
  "new_vms s now m = map (\<lambda>(i, slot). new_vm_row (the (map_of s i)) slot now) m"

lemma allocate_loop_success:
  assumes "allocate_loop m acc t = (Inr (Inr acc'), t')" and "distinct (map fst m)" and "keys acc \<inter> keys m = {}"
  shows "committed t' = committed t \<and> pg_now t' = pg_now t \<and> t_jobs (work t') = t_jobs (work t) \<and>
     t_plan (work t') = t_plan (work t) \<and> t_vms (work t') = t_vms (work t) @ new_vms acc' (pg_now t) m \<and>
     (\<forall>i. if i \<in> keys m then map_of acc' i \<noteq> None else map_of acc' i = map_of acc i)"
  using assms
proof (induction m acc arbitrary: t rule: allocate_loop.induct)
  case (1 acc)
  then show ?case by (simp add: tx_return_def new_vms_def)
next
  case (2 i slot rest acc)
  from "2.prems"(1) obtain acc1 u where
    one: "tx_try (tx_bind (execQuery (insert_vm slot)) (\<lambda>v. tx_return (Inr (umap_emplace i v acc))))
       (failure_prefix ''Unexpected exception while inserting new vm row: '') t = (Inr (Inr acc1), u)"
    and rest: "allocate_loop rest acc1 u = (Inr (Inr acc'), t')"
    unfolding allocate_loop.simps by (rule tx_bind_result_success) blast
  obtain v where v: "insert_vm slot (pg_now t) (work t) = Inr (v, work u)" "acc1 = umap_emplace i v acc"
    "committed u = committed t" "pg_now u = pg_now t"
    using exec_try_success [OF one] by blast
  have ins: "t_vms (work u) = t_vms (work t) @ [new_vm_row v slot (pg_now t)]" "t_jobs (work u) = t_jobs (work t)"
    "t_plan (work u) = t_plan (work t)"
    using v(1) by (auto elim!: insert_vmE)
  have i: "i \<notin> keys acc" "i \<notin> keys rest" using "2.prems"(2,3) by auto
  have acc1: "map_of acc1 = (map_of acc)(i \<mapsto> v)" using i(1) v(2) by (simp add: map_of_umap_emplace)
  have "keys acc1 \<inter> keys rest = {}" using "2.prems"(3) i(2) v(2) by auto
  note IH = "2.IH" [OF rest _ this]
  have "map_of acc' i = Some v" using IH i(2) acc1 "2.prems"(2) by (auto split: if_splits)
  with IH ins v(3,4) acc1 "2.prems"(2) show ?case by (auto simp: new_vms_def split: if_splits)
qed

interpretation any_rel: db_relation "\<lambda>_ _. True"
  by unfold_locales simp_all

lemma isSchedulingRelevant_success:
  assumes "isSchedulingRelevant plan t = (Inr (Inr b), t')"
  shows "work t' = work t \<and> committed t' = committed t \<and> pg_now t' = pg_now t \<and>
     (b \<longrightarrow> map pr_id (filter (\<lambda>r. pr_updated r = last_updated (work t)) (t_plan (work t))) = [plan])"
proof -
  obtain ids where ids: "execQuery newest_plans t = (Inr ids, t')" "length ids = 1" "b = (hd ids = plan)"
    using assms by (auto simp: isSchedulingRelevant_def tx_bind_def tx_return_def split: prod.splits sum.splits if_splits)
  have "ids = [hd ids]" using ids(2) by (cases ids) auto
  with execQuery_success [OF ids(1)] ids(3) show ?thesis by (auto simp: newest_plans_def)
qed

lemma checkConflicts_success:
  assumes "checkConflicts ch t = (Inr (Inr u), t')"
  shows "work t' = work t \<and> committed t' = committed t \<and> pg_now t' = pg_now t \<and> jobs_free ch (work t)"
proof -
  have "work t' = work t \<and> committed t' = committed t \<and> pg_now t' = pg_now t"
    using assms unfolding checkConflicts_def getJobStatusesWithLock_def getVmStatusesWithLock_def
    by (auto simp: tx_try_def tx_bind_def tx_return_def execQuery_def select_jobs_def select_vms_def Let_def failure_prefix_def
        split: if_splits fault.splits prod.splits sum.splits)
  moreover have "jobs_free ch (work t')"
    using any_rel.checkConflicts_triple [of "\<lambda>_. True" ch] assms unfolding triple_def by blast
  ultimately show ?thesis by simp
qed

lemma update_vms_frame:
  assumes "update_vms c a n d = Inr (rows, d')" and "\<And>r. vr_id (a r) = vr_id r"
  shows "t_jobs d' = t_jobs d \<and> map vr_id (t_vms d') = map vr_id (t_vms d)"
  using assms(1) by (rule update_vmsE) (simp add: assms(2))

lemma refreshPlanActivityTs_success:
  assumes "refreshPlanActivityTs plan t = (Inr (Inr u), t')"
  shows "work t' = (work t)\<lparr>t_plan := map (\<lambda>r. if pr_id r = plan then r\<lparr>pr_updated := pg_now t\<rparr> else r) (t_plan (work t))\<rparr>"
proof -
  have "\<exists>r. update_plan plan (pg_now t) (work t) = Inr (r, work t')"
    using exec_try_success [where t = t and t' = t' and g = "\<lambda>_. ()"] assms unfolding refreshPlanActivityTs_def by fastforce
  then show ?thesis by (simp add: update_plan_def)
qed

text \<open>What a change does to a row of a VM and to a row of a job, where the new slots got the identifiers \<open>s\<close>.\<close>

definition vm_planned :: "StateChange \<Rightarrow> vm_row \<Rightarrow> vm_row \<Rightarrow> bool" where
  "vm_planned ch r r' \<longleftrightarrow> vm_key r' = vm_key r \<and> vr_cpu_idle r' = vr_cpu_idle (set_idle (updatedIdleCapacities ch) r) \<and>
     vr_ram_idle r' = vr_ram_idle (set_idle (updatedIdleCapacities ch) r) \<and>
     vr_status r' = (if vr_id r \<in> set (vmsToTerminate ch) then PendingTermination else vr_status r)"

definition job_planned :: "StateChange \<Rightarrow> (DesiredSlotId, VmId) umap \<Rightarrow> job_row \<Rightarrow> job_row" where
  "job_planned ch s r = (if jr_id r \<in> keys (jobToVm ch)
     then assign_job (\<lambda>j. Option.bind (map_of (jobToVm ch) j) (assignment_target s)) r else r)"

text \<open>The tables a change was committed to, and those it made of them.\<close>

definition plan_applied :: "StateChange \<Rightarrow> PlanId \<Rightarrow> int \<Rightarrow> (DesiredSlotId, VmId) umap \<Rightarrow> db \<Rightarrow> db \<Rightarrow> bool" where
  "plan_applied ch plan now s d d' \<longleftrightarrow>
     map pr_id (filter (\<lambda>r. pr_updated r = last_updated d) (t_plan d)) = [plan] \<and> jobs_free ch d \<and>
     (\<forall>i. i \<in> keys (desiredSlotMap ch) \<longleftrightarrow> map_of s i \<noteq> None) \<and>
     (\<forall>(j, x) \<in> set (jobToVm ch). assignment_target s x \<noteq> None) \<and>
     (\<exists>vs. list_all2 (vm_planned ch) (t_vms d) vs \<and> t_vms d' = vs @ new_vms s now (desiredSlotMap ch)) \<and>
     t_jobs d' = map (job_planned ch s) (t_jobs d) \<and>
     (\<forall>r \<in> set (t_jobs d). jr_id r \<in> keys (jobToVm ch) \<longrightarrow> jr_vm_id (job_planned ch s r) \<in> Some ` vr_id ` set (t_vms d')) \<and>
     t_plan d' = map (\<lambda>r. if pr_id r = plan then r\<lparr>pr_updated := now\<rparr> else r) (t_plan d)"

lemma set_idle_other: "vr_id r \<notin> keys m \<Longrightarrow> set_idle m r = r"
  by (simp add: set_idle_def map_of_eq_None_iff [THEN iffD2])

lemma planned_vms:
  assumes "terminateVms (vmsToTerminate ch) t = (Inr (Inr ()), u)" and "updateVmCapacities (updatedIdleCapacities ch) u = (Inr (Inr ()), w)"
  shows "pg_now w = pg_now t \<and> t_jobs (work w) = t_jobs (work t) \<and> t_plan (work w) = t_plan (work t) \<and>
     list_all2 (vm_planned ch) (t_vms (work t)) (t_vms (work w))"
proof -
  let ?S = "\<lambda>r r'. vm_key r' = vm_key r \<and> vr_cpu_idle r' = vr_cpu_idle r \<and> vr_ram_idle r' = vr_ram_idle r \<and>
      vr_status r' = (if vr_id r \<in> set (vmsToTerminate ch) then PendingTermination else vr_status r)"
  let ?C = "\<lambda>r r'. vm_key r' = vm_key r \<and> vr_cpu_idle r' = vr_cpu_idle (set_idle (updatedIdleCapacities ch) r) \<and>
      vr_ram_idle r' = vr_ram_idle (set_idle (updatedIdleCapacities ch) r) \<and> vr_status r' = vr_status r"
  have u: "pg_now u = pg_now t" "t_jobs (work u) = t_jobs (work t)" "t_plan (work u) = t_plan (work t)"
    "list_all2 ?S (t_vms (work t)) (t_vms (work u))"
    using terminateVms_success [OF assms(1)]
    by (auto elim!: update_vmsE simp: list_all2_map2 list.rel_map list_all2_same vm_key_def)
  have w: "pg_now w = pg_now u" "t_jobs (work w) = t_jobs (work u)" "t_plan (work w) = t_plan (work u)"
    "list_all2 ?C (t_vms (work u)) (t_vms (work w))"
    using updateVmCapacities_success [OF assms(2)]
    by (auto elim!: update_vmsE simp: list.rel_map list_all2_same vm_key_def set_idle_other)
  have "vm_planned ch x z" if "?S x y" "?C y z" for x y z
    using that by (simp add: vm_planned_def set_idle_def vm_key_def split: option.splits)
  from list_all2_trans [OF this u(4) w(4)] show ?thesis using u(1-3) w(1-3) by simp
qed

lemma planned_jobs:
  assumes "applyJobVmAssignments (jobToVm ch) s t = (Inr (Inr ()), u)"
  shows "pg_now u = pg_now t \<and> t_vms (work u) = t_vms (work t) \<and> t_plan (work u) = t_plan (work t) \<and>
     t_jobs (work u) = map (job_planned ch s) (t_jobs (work t)) \<and> (\<forall>(j, x) \<in> set (jobToVm ch). assignment_target s x \<noteq> None) \<and>
     (\<forall>r \<in> set (t_jobs (work t)). jr_id r \<in> keys (jobToVm ch) \<longrightarrow> jr_vm_id (job_planned ch s r) \<in> Some ` vr_id ` set (t_vms (work t)))"
  using applyJobVmAssignments_success [OF assms]
proof (elim disjE conjE exE)
  fix rows
  assume up: "assignments_stmt (jobToVm ch) s (pg_now t) (work t) = Inr (rows, work u)" and now: "pg_now u = pg_now t"
    and tgt: "\<forall>(j, x) \<in> set (jobToVm ch). assignment_target s x \<noteq> None"
  have "jr_vm_id (job_planned ch s r) \<in> Some ` vr_id ` set (t_vms (work t))"
    if fk: "job_fk_ok (work t) (job_planned ch s r)" and key: "jr_id r \<in> keys (jobToVm ch)" for r
  proof -
    obtain x where x: "map_of (jobToVm ch) (jr_id r) = Some x" using keys_map_of [OF key] by blast
    then obtain v where "assignment_target s x = Some v" using tgt by (fastforce dest: map_of_SomeD)
    with x fk key show ?thesis by (simp add: job_planned_def job_fk_ok_def)
  qed
  moreover have "job_fk_ok (work t) (job_planned ch s r)" if "r \<in> set (t_jobs (work t))" "jr_id r \<in> keys (jobToVm ch)" for r
    using up that unfolding assignments_stmt_def by (auto elim!: update_jobsE simp: job_planned_def)
  moreover have "t_vms (work u) = t_vms (work t)" "t_plan (work u) = t_plan (work t)" "t_jobs (work u) = map (job_planned ch s) (t_jobs (work t))"
    using up unfolding assignments_stmt_def by (auto elim!: update_jobsE simp: job_planned_def)
  ultimately show ?thesis using now tgt by blast
qed (simp add: job_planned_def map_idI)

text \<open>A commit either leaves the tables as they are or goes through all of its steps.\<close>

lemma commit_steps:
  assumes run: "commitPlanChange ch plan p = (r, p')"
    and thru: "r = Returned (Inr ()) \<or> \<not> same_tables (committed p) (committed p')"
  obtains t0 ta tb tc td te tf tg s where "work t0 = committed p" "pg_now t0 = pg_now p"
    "isSchedulingRelevant plan t0 = (Inr (Inr True), ta)" "checkConflicts ch ta = (Inr (Inr ()), tb)"
    "terminateVms (vmsToTerminate ch) tb = (Inr (Inr ()), tc)" "updateVmCapacities (updatedIdleCapacities ch) tc = (Inr (Inr ()), td)"
    "allocateNewVms (desiredSlotMap ch) td = (Inr (Inr s), te)" "applyJobVmAssignments (jobToVm ch) s te = (Inr (Inr ()), tf)"
    "refreshPlanActivityTs plan tf = (Inr (Inr ()), tg)" "committed p' = work tg"
proof -
  have q: "quiet (isSchedulingRelevant plan)" "quiet (terminateVms ids)" "quiet (updateVmCapacities m)" "quiet (allocateNewVms slots)"
    "quiet (applyJobVmAssignments asg s)" "quiet (refreshPlanActivityTs plan)" for ids m slots asg s
    unfolding isSchedulingRelevant_def terminateVms_def updateVmCapacities_def allocateNewVms_def applyJobVmAssignments_def
      refreshPlanActivityTs_def by (auto intro!: quiet_rules quiet_allocate_loop)
  obtain x t where t: "tx_bind_result (tx_try (tx_bind (execQuery lock_plan) (\<lambda>_. tx_return (Inr ()))) (acquireLock_failure False))
      (\<lambda>_. commit_locked ch plan) (begin_txn p) = (x, t)" and p': "p' = end_txn t" "went_through x (begin_txn p) t"
    using run thru unfolding commitPlanChange_def acquireLock_def
    by (elim went_through_run) (auto intro: acquireLock_failure_ne)
  obtain t0 where lock: "tx_try (tx_bind (execQuery lock_plan) (\<lambda>_. tx_return (Inr ()))) (acquireLock_failure False)
        (begin_txn p) = (Inr (Inr ()), t0)" and t1: "commit_locked ch plan t0 = (x, t)" "went_through x t0 t"
    using t p'(2) by (rule went_through_bind) (auto intro: quiet_rules)
  have t0: "work t0 = committed p" "pg_now t0 = pg_now p"
    using tx_try_success [OF lock acquireLock_failure_ne]
    by (auto simp: tx_bind_def tx_return_def lock_plan_def split: prod.splits sum.splits dest!: execQuery_success)
  obtain ta tb tc td te tf tg s where steps: "isSchedulingRelevant plan t0 = (Inr (Inr True), ta)"
    "checkConflicts ch ta = (Inr (Inr ()), tb)"
    "terminateVms (vmsToTerminate ch) tb = (Inr (Inr ()), tc)" "updateVmCapacities (updatedIdleCapacities ch) tc = (Inr (Inr ()), td)"
    "allocateNewVms (desiredSlotMap ch) td = (Inr (Inr s), te)"
    "applyJobVmAssignments (jobToVm ch) s te = (Inr (Inr ()), tf)"
    "refreshPlanActivityTs plan tf = (Inr (Inr ()), tg)"
    and h: "tx_try (tx_bind tx_commit (\<lambda>_. tx_return (Inr ())))
         (failure_prefix ''Unexpected exception while committing plan change: '') tg = (x, t)" "went_through x tg t"
    using t1 unfolding commit_locked_def
    by (auto simp: tx_return_def went_through_def q quiet_checkConflicts split: if_splits elim!: went_through_bind)
  have "committed p' = work tg" using went_through_commit [OF h] by (simp add: p' end_txn_def)
  with that [OF t0 steps] show thesis .
qed

lemma commit_applied:
  assumes run: "commitPlanChange ch plan p = (r, p')" and slots: "distinct (map fst (desiredSlotMap ch))"
    and thru: "r = Returned (Inr ()) \<or> \<not> same_tables (committed p) (committed p')"
  shows "\<exists>s. plan_applied ch plan (pg_now p) s (committed p) (committed p')"
proof -
  obtain t0 ta tb tc td te tf tg s where t0: "work t0 = committed p" "pg_now t0 = pg_now p"
    and a: "isSchedulingRelevant plan t0 = (Inr (Inr True), ta)"
    and b: "checkConflicts ch ta = (Inr (Inr ()), tb)"
    and c: "terminateVms (vmsToTerminate ch) tb = (Inr (Inr ()), tc)" "updateVmCapacities (updatedIdleCapacities ch) tc = (Inr (Inr ()), td)"
    and e: "allocateNewVms (desiredSlotMap ch) td = (Inr (Inr s), te)"
    and f: "applyJobVmAssignments (jobToVm ch) s te = (Inr (Inr ()), tf)"
    and g: "refreshPlanActivityTs plan tf = (Inr (Inr ()), tg)" and h: "committed p' = work tg"
    using run thru by (rule commit_steps)
  note A = isSchedulingRelevant_success [OF a]
  note B = checkConflicts_success [OF b]
  note C = planned_vms [OF c]
  note E = allocate_loop_success [OF e [unfolded allocateNewVms_def] slots]
  note F = planned_jobs [OF f]
  note G = refreshPlanActivityTs_success [OF g]
  have d': "t_vms (committed p') = t_vms (work te)" "t_jobs (committed p') = t_jobs (work tf)"
    "t_plan (committed p') = map (\<lambda>r. if pr_id r = plan then r\<lparr>pr_updated := pg_now tf\<rparr> else r) (t_plan (work tf))"
    using F G by (simp_all add: h)
  show ?thesis
    unfolding plan_applied_def d' using t0 A B C E F by (intro exI [of _ s]) (auto split: if_splits)
qed

text \<open>Where a job of a change must be after the commit.\<close>

definition placed_at :: "StateChange \<Rightarrow> int \<Rightarrow> db \<Rightarrow> JobId \<Rightarrow> VmId \<Rightarrow> bool" where
  "placed_at ch now d j v \<longleftrightarrow> v \<in> vr_id ` set (t_vms d) \<and>
     (case map_of (jobToVm ch) j of None \<Rightarrow> False
      | Some (ExistingVm w) \<Rightarrow> v = w
      | Some (DesiredVm i) \<Rightarrow> (\<forall>slot. map_of (desiredSlotMap ch) i = Some slot \<longrightarrow> new_vm_row v slot now \<in> set (t_vms d)))"

lemma applied_placed:
  assumes ap: "plan_applied ch plan now s d d'" and r: "r \<in> set (t_jobs d)" "jr_id r \<in> keys (jobToVm ch)"
  obtains v where "job_planned ch s r = r\<lparr>jr_status := Scheduled, jr_vm_id := Some v\<rparr>" "placed_at ch now d' (jr_id r) v"
proof -
  obtain x where x: "map_of (jobToVm ch) (jr_id r) = Some x" using keys_map_of [OF r(2)] by blast
  then obtain v where v: "assignment_target s x = Some v" using ap by (fastforce simp: plan_applied_def dest: map_of_SomeD)
  have row: "job_planned ch s r = r\<lparr>jr_status := Scheduled, jr_vm_id := Some v\<rparr>" using x v r(2) by (simp add: job_planned_def assign_job_def)
  then have "v \<in> vr_id ` set (t_vms d')" using ap r by (fastforce simp: plan_applied_def)
  moreover have "new_vm_row v slot now \<in> set (t_vms d')" if "x = DesiredVm i" "map_of (desiredSlotMap ch) i = Some slot" for i slot
  proof -
    have "(i, slot) \<in> set (desiredSlotMap ch)" using that(2) by (rule map_of_SomeD)
    then have "new_vm_row (the (map_of s i)) slot now \<in> set (new_vms s now (desiredSlotMap ch))" by (force simp: new_vms_def)
    then show ?thesis using ap v that(1) by (auto simp: plan_applied_def)
  qed
  ultimately have "placed_at ch now d' (jr_id r) v" using x v by (cases x) (auto simp: placed_at_def)
  with row that show thesis by blast
qed

lemma commit_effect:
  assumes "commitPlanChange ch plan p = (Returned (Inr ()), p')" and "distinct (map fst (desiredSlotMap ch))"
  shows "map pr_id (filter (\<lambda>r. pr_updated r = last_updated (committed p)) (t_plan (committed p))) = [plan] \<and>
     (\<forall>r \<in> set (t_jobs (committed p)).
        if jr_id r \<in> keys (jobToVm ch)
        then jr_status r \<notin> getFinalJobStatuses \<and> (\<exists>v. placed_at ch (pg_now p) (committed p') (jr_id r) v \<and>
           r\<lparr>jr_status := Scheduled, jr_vm_id := Some v\<rparr> \<in> set (t_jobs (committed p')))
        else r \<in> set (t_jobs (committed p')))"
proof -
  obtain s where ap: "plan_applied ch plan (pg_now p) s (committed p) (committed p')" using commit_applied [OF assms] by blast
  have jobs: "job_planned ch s r \<in> set (t_jobs (committed p'))" if "r \<in> set (t_jobs (committed p))" for r
    using ap that by (simp add: plan_applied_def)
  have "if jr_id r \<in> keys (jobToVm ch)
        then jr_status r \<notin> getFinalJobStatuses \<and> (\<exists>v. placed_at ch (pg_now p) (committed p') (jr_id r) v \<and>
           r\<lparr>jr_status := Scheduled, jr_vm_id := Some v\<rparr> \<in> set (t_jobs (committed p')))
        else r \<in> set (t_jobs (committed p'))" if r: "r \<in> set (t_jobs (committed p))" for r
  proof (cases "jr_id r \<in> keys (jobToVm ch)")
    case True
    obtain v where "job_planned ch s r = r\<lparr>jr_status := Scheduled, jr_vm_id := Some v\<rparr>" "placed_at ch (pg_now p) (committed p') (jr_id r) v"
      using applied_placed [OF ap r True] by blast
    moreover have "jr_status r \<notin> getFinalJobStatuses" using ap r True by (simp add: plan_applied_def jobs_free_def)
    ultimately show ?thesis using jobs [OF r] True by auto
  next
    case False
    then show ?thesis using jobs [OF r] by (simp add: job_planned_def)
  qed
  moreover have "map pr_id (filter (\<lambda>r. pr_updated r = last_updated (committed p)) (t_plan (committed p))) = [plan]"
    using ap by (simp add: plan_applied_def)
  ultimately show ?thesis by blast
qed

text \<open>
  C5. When committing a plan change reports success, the plan was the newest one; every job row the
  change names was in no final status and is now scheduled on the VM the change chose, which exists:
  the given VM, or the row created for its slot, with the slot's size, in status pending allocation;
  and every other job row is as it was.
\<close>

theorem commitPlanChange_effect:
  assumes "commitPlanChange ch plan p = (Returned (Inr ()), p')" and "distinct (map fst (desiredSlotMap ch))"
  shows "map pr_id (filter (\<lambda>r. pr_updated r = last_updated (committed p)) (t_plan (committed p))) = [plan] \<and>
     (\<forall>r \<in> set (t_jobs (committed p)).
        if jr_id r \<in> keys (jobToVm ch)
        then jr_status r \<notin> getFinalJobStatuses \<and> (\<exists>v. placed_at ch (pg_now p) (committed p') (jr_id r) v \<and>
           r\<lparr>jr_status := Scheduled, jr_vm_id := Some v\<rparr> \<in> set (t_jobs (committed p')))
        else r \<in> set (t_jobs (committed p')))"
  by (rule commit_effect [OF assms])

theorem commitPlanChange_effect_witness:
  "let d = committed ex_planned; d' = committed (snd (commitPlanChange ex_place 1 ex_planned)) in
   fst (commitPlanChange ex_place 1 ex_planned) = Returned (Inr ()) \<and>
   (\<exists>v. placed_at ex_place 100000000 d' 2 v \<and> (hd (tl (t_jobs d)))\<lparr>jr_status := Scheduled, jr_vm_id := Some v\<rparr> \<in> set (t_jobs d'))"
proof -
  have run: "fst (commitPlanChange ex_place 1 ex_planned) = Returned (Inr ())"
    and now: "pg_now ex_planned = 100000000" and row: "map jr_id (t_jobs (committed ex_planned)) = [1, 2]" by code_simp+
  have two: "hd (tl (t_jobs (committed ex_planned))) \<in> set (t_jobs (committed ex_planned))"
    "jr_id (hd (tl (t_jobs (committed ex_planned)))) = 2"
    using row by (cases "t_jobs (committed ex_planned)"; cases "tl (t_jobs (committed ex_planned))"; auto)+
  have "commitPlanChange ex_place 1 ex_planned = (Returned (Inr ()), snd (commitPlanChange ex_place 1 ex_planned))"
    using run by (metis prod.collapse)
  from commitPlanChange_effect [OF this] two run now show ?thesis
    unfolding Let_def by (fastforce simp: ex_place_def)
qed

text \<open>
  The whole of a change, made to the tables: the named jobs are scheduled where the change put them, the VMs it
  gives up wait for their termination, the idle capacities it states are recorded, the plan is the one just
  updated; jobs that are not named and the sizes of the VMs stay.
\<close>

definition change_made :: "StateChange \<Rightarrow> PlanId \<Rightarrow> int \<Rightarrow> db \<Rightarrow> db \<Rightarrow> bool" where
  "change_made ch plan now d d' \<longleftrightarrow>
     map jr_id (t_jobs d') = map jr_id (t_jobs d) \<and>
     (\<forall>r \<in> set (t_jobs d). if jr_id r \<in> keys (jobToVm ch)
        then \<exists>v. placed_at ch now d' (jr_id r) v \<and> r\<lparr>jr_status := Scheduled, jr_vm_id := Some v\<rparr> \<in> set (t_jobs d')
        else r \<in> set (t_jobs d')) \<and>
     length (t_vms d') = length (t_vms d) + length (desiredSlotMap ch) \<and>
     (\<forall>i < length (t_vms d). let r = t_vms d ! i; r' = t_vms d' ! i in
        vr_id r' = vr_id r \<and> vr_cpu r' = vr_cpu r \<and> vr_ram r' = vr_ram r \<and>
        vr_status r' = (if vr_id r \<in> set (vmsToTerminate ch) then PendingTermination else vr_status r) \<and>
        (vr_cpu_idle r', vr_ram_idle r') = (case map_of (updatedIdleCapacities ch) (vr_id r) of
           None \<Rightarrow> (vr_cpu_idle r, vr_ram_idle r) | Some c \<Rightarrow> (uint (cpu c), uint (ram c)))) \<and>
     t_plan d' = map (\<lambda>r. if pr_id r = plan then r\<lparr>pr_updated := now\<rparr> else r) (t_plan d)"

lemma applied_made:
  assumes ap: "plan_applied ch plan now s d d'"
  shows "change_made ch plan now d d'"
proof -
  have jobs: "t_jobs d' = map (job_planned ch s) (t_jobs d)" using ap by (simp add: plan_applied_def)
  obtain vs where vs: "list_all2 (vm_planned ch) (t_vms d) vs" "t_vms d' = vs @ new_vms s now (desiredSlotMap ch)"
    using ap by (auto simp: plan_applied_def)
  have "vm_planned ch (t_vms d ! i) (t_vms d' ! i)" if "i < length (t_vms d)" for i
    using vs that by (simp add: nth_append list_all2_conv_all_nth)
  moreover have "length (t_vms d') = length (t_vms d) + length (desiredSlotMap ch)"
    using vs by (simp add: new_vms_def list_all2_lengthD)
  moreover have "map jr_id (t_jobs d') = map jr_id (t_jobs d)" by (simp add: jobs job_planned_def)
  moreover have "if jr_id r \<in> keys (jobToVm ch)
      then \<exists>v. placed_at ch now d' (jr_id r) v \<and> r\<lparr>jr_status := Scheduled, jr_vm_id := Some v\<rparr> \<in> set (t_jobs d')
      else r \<in> set (t_jobs d')" if r: "r \<in> set (t_jobs d)" for r
  proof (cases "jr_id r \<in> keys (jobToVm ch)")
    case True
    from applied_placed [OF ap r True] show ?thesis using True r jobs by (metis image_eqI image_set)
  next
    case False
    then have "job_planned ch s r = r" by (simp add: job_planned_def)
    with False r jobs show ?thesis by (metis image_eqI image_set)
  qed
  moreover have "t_plan d' = map (\<lambda>r. if pr_id r = plan then r\<lparr>pr_updated := now\<rparr> else r) (t_plan d)"
    using ap by (simp add: plan_applied_def)
  ultimately show ?thesis
    unfolding change_made_def by (auto simp: vm_planned_def vm_key_def set_idle_def Let_def split: option.splits)
qed

text \<open>
  C6. Committing a plan change is all or nothing. Whatever query fails, whatever conflict is found, and also
  when the process dies in it: either no table changes or the whole change is made, and the latter only for
  the newest plan. The change is made when success is reported; when it is not, nothing changes, with one
  exception: the answer to the server's own commit is lost, and then the change may be there in full.
\<close>

theorem commitPlanChange_atomic:
  assumes "commitPlanChange ch plan p = (r, p')" and "distinct (map fst (desiredSlotMap ch))"
  shows "(same_tables (committed p) (committed p') \<or>
      change_made ch plan (pg_now p) (committed p) (committed p') \<and>
      map pr_id (filter (\<lambda>r. pr_updated r = last_updated (committed p)) (t_plan (committed p))) = [plan]) \<and>
    (r = Returned (Inr ()) \<longrightarrow> change_made ch plan (pg_now p) (committed p) (committed p')) \<and>
    (r \<noteq> Returned (Inr ()) \<longrightarrow> no_late_fault (faults p) \<longrightarrow> same_tables (committed p) (committed p'))"
proof (intro conjI impI)
  have "map pr_id (filter (\<lambda>r. pr_updated r = last_updated (committed p)) (t_plan (committed p))) = [plan]"
    if "plan_applied ch plan (pg_now p) s (committed p) (committed p')" for s using that by (simp add: plan_applied_def)
  then show "same_tables (committed p) (committed p') \<or>
      change_made ch plan (pg_now p) (committed p) (committed p') \<and>
      map pr_id (filter (\<lambda>r. pr_updated r = last_updated (committed p)) (t_plan (committed p))) = [plan]"
    using commit_applied [OF assms] applied_made by blast
  show "change_made ch plan (pg_now p) (committed p) (committed p')" if "r = Returned (Inr ())"
    using commit_applied [OF assms] that applied_made by blast
  show "same_tables (committed p) (committed p')" if "r \<noteq> Returned (Inr ())" "no_late_fault (faults p)"
    by (rule commit_unless_late [OF assms(1) that])
qed

theorem commitPlanChange_atomic_witness:
  "let failed = Returned (Inl (PgException ''Unexpected exception while committing plan change: connection lost'')) in
   fst (commitPlanChange ex_place 1 ex_lost) = failed \<and>
   same_tables (committed ex_lost) (committed (snd (commitPlanChange ex_place 1 ex_lost))) \<and>
   fst (commitPlanChange ex_place 1 ex_late) = failed \<and>
   change_made ex_place 1 (pg_now ex_late) (committed ex_late) (committed (snd (commitPlanChange ex_place 1 ex_late)))"
proof -
  let ?failed = "Returned (Inl (PgException ''Unexpected exception while committing plan change: connection lost''))"
  have run: "fst (commitPlanChange ex_place 1 ex_lost) = ?failed" "fst (commitPlanChange ex_place 1 ex_late) = ?failed" by code_simp+
  have slots: "distinct (map fst (desiredSlotMap ex_place))" by code_simp
  have "no_late_fault (faults ex_lost)" by (simp add: no_late_fault_def ex_lost_def)
  then have lost: "same_tables (committed ex_lost) (committed (snd (commitPlanChange ex_place 1 ex_lost)))"
    using run commitPlanChange_atomic [OF prod.collapse [symmetric] slots, where plan = 1 and p = ex_lost] by simp
  have "map jr_status (t_jobs (committed ex_late)) \<noteq> map jr_status (t_jobs (committed (snd (commitPlanChange ex_place 1 ex_late))))"
    by code_simp
  then have "\<not> same_tables (committed ex_late) (committed (snd (commitPlanChange ex_place 1 ex_late)))"
    using same_tablesD(3) by metis
  then have "change_made ex_place 1 (pg_now ex_late) (committed ex_late) (committed (snd (commitPlanChange ex_place 1 ex_late)))"
    using commitPlanChange_atomic [OF prod.collapse [symmetric] slots, where plan = 1 and p = ex_late] by simp
  with run lost show ?thesis unfolding Let_def by blast
qed

end
