(* ===== verification/StorageClientSpec.thy ===== *)
theory StorageClientSpec
  imports StorageSpec
begin

text \<open>
  What the clients and the agents get from the storage: a task that was added is there with all its
  jobs or not at all, cancelling, and the effect of an agent's report.
\<close>

section \<open>Runs without faults\<close>

lemma next_fault_Nil [simp]: "next_fault [] = NoFault"
  by (simp add: next_fault_def)

lemma execQuery_ok:
  assumes "faults t = []" and "txn_status t = Active"
  shows "execQuery q t = (case q (pg_now t) (work t) of
     Inl m \<Rightarrow> (Inl (sql_error m), t\<lparr>txn_status := Aborted\<rparr>) | Inr (r, d) \<Rightarrow> (Inr r, t\<lparr>work := d\<rparr>))"
  using assms by (simp add: execQuery_def split: sum.splits)

lemma tx_commit_ok:
  assumes "faults t = []" and "txn_status t = Active"
  shows "tx_commit t = (Inr (), t\<lparr>committed := work t, txn_status := Closed\<rparr>)"
  using assms by (simp add: tx_commit_def)

lemma run_txn_ok:
  assumes "faults p = []"
  shows "run_txn h body p = (case body (begin_txn p) of
     (Inl e, t) \<Rightarrow> (StdTerminate, end_txn t) | (Inr x, t) \<Rightarrow> (Returned x, end_txn t))"
  using assms by (simp add: run_txn_def)

lemma begin_txn_faults [simp]: "faults p = [] \<Longrightarrow> faults (begin_txn p) = []"
  by (simp add: begin_txn_def)

lemmas tx_run = run_txn_ok try_txn_def tx_try_def tx_bind_def tx_return_def execQuery_ok tx_commit_ok

section \<open>Adding a task\<close>

lemma late_bind:
  assumes "quiet m" and "\<And>x. late (f x)"
  shows "late (tx_bind m f)"
  unfolding late_def
proof (intro allI impI)
  fix t r t'
  assume run: "tx_bind m f t = (r, t')" and nf: "no_late_fault (faults t)"
  obtain q u where m: "m t = (q, u)" by (cases "m t")
  have u: "committed u = committed t" "no_late_fault (faults u)"
    using assms(1) m nf unfolding quiet_def no_late_fault_def by blast+
  show "committed t' = committed t \<or> (\<exists>x. r = Inr (Inr x))"
  proof (cases q)
    case (Inl e)
    then show ?thesis using run m u by (simp add: tx_bind_def)
  next
    case (Inr x)
    then have "f x u = (r, t')" using run m by (simp add: tx_bind_def)
    then show ?thesis using assms(2) u unfolding late_def by metis
  qed
qed

lemma late_commit_return: "late (tx_bind tx_commit (\<lambda>_. tx_return (Inr x)))"
  unfolding late_def tx_bind_def tx_return_def tx_commit_def next_fault_def no_late_fault_def Let_def
  by (auto split: if_splits fault.splits list.splits)

lemma late_try: "late m \<Longrightarrow> (\<And>e x. h e \<noteq> Inr x) \<Longrightarrow> late (tx_try m h)"
  unfolding late_def tx_try_def by (fastforce split: prod.splits sum.splits)

lemma addTask_unless_late:
  assumes "addTask jsonb tp p = (r, p')" and "\<And>c. r \<noteq> Returned (Inr c)" and "no_late_fault (faults p)"
  shows "same_tables (committed p) (committed p')"
proof -
  have "late (tx_try (tx_bind (execQuery (insert_task jsonb tp)) (\<lambda>taskId.
        tx_bind (execQuery (insert_jobs jsonb tp taskId)) (\<lambda>jobIds.
        tx_bind tx_commit (\<lambda>_. tx_return (Inr \<lparr>cj_taskId = taskId, cj_jobIds = jobIds\<rparr>)))))
      (failure_prefix ''Unexpected exception while inserting new job: ''))"
    by (intro late_try late_bind quiet_exec late_commit_return) simp
  then show ?thesis
    using run_txn_late [OF _ assms(3) assms(1) [unfolded addTask_def try_txn_def]] assms(2) by blast
qed

lemma exec_bind_through:
  assumes "tx_bind (execQuery q) f t = (r, t')" and "went_through r t t'"
  obtains x u where "q (pg_now t) (work t) = Inr (x, work u)" "pg_now u = pg_now t" "f x u = (r, t')" "went_through r u t'"
proof -
  obtain y u where m: "execQuery q t = (y, u)" by (cases "execQuery q t")
  have "committed u = committed t" using quiet_exec [of q] m unfolding quiet_def by blast
  then obtain x where "y = Inr x" "f x u = (r, t')" "went_through r u t'"
    using assms m by (auto simp: tx_bind_def went_through_def split: sum.splits)
  with execQuery_success [of q t x u] m that show thesis by auto
qed

text \<open>The task and all of its jobs, one per entry of the options, and no other row.\<close>

definition task_made :: "(string \<Rightarrow> string option) \<Rightarrow> TaskParameters \<Rightarrow> int \<Rightarrow> db \<Rightarrow> db \<Rightarrow> bool" where
  "task_made jsonb tp now d d' \<longleftrightarrow> t_vms d' = t_vms d \<and> t_plan d' = t_plan d \<and>
     (\<exists>task jobs. t_tasks d' = t_tasks d @ [task] \<and> t_jobs d' = t_jobs d @ jobs \<and>
        tr_id task = next_task (seqs d) \<and> jsonb (settings tp) = Some (tr_settings task) \<and>
        map Some (map jr_options jobs) = map jsonb (jobOptions tp) \<and> jobOptions tp \<noteq> [] \<and>
        map jr_id jobs = map (\<lambda>k. next_job (seqs d) + int k) [0..<length (jobOptions tp)] \<and>
        (\<forall>r \<in> set jobs. jr_task_id r = tr_id task \<and> jr_status r = Queued \<and> jr_vm_id r = None \<and> jr_created r = now \<and>
           jr_cpu r = uint (cpu (tp_requiredCapacity tp)) \<and> jr_ram r = uint (ram (tp_requiredCapacity tp))))"

lemma jsonb_all_map: "jsonb_all jsonb ss = Some ts \<Longrightarrow> map Some ts = map jsonb ss"
  by (induction ss arbitrary: ts) (auto split: option.splits)

lemma new_job_rows_made:
  "map jr_options (new_job_rows tp i est n opts k) = opts \<and>
   map jr_id (new_job_rows tp i est n opts k) = map (\<lambda>m. k + int m) [0..<length opts] \<and>
   (\<forall>r \<in> set (new_job_rows tp i est n opts k). jr_task_id r = i \<and> jr_status r = Queued \<and> jr_vm_id r = None \<and> jr_created r = n \<and>
      jr_cpu r = uint (cpu (tp_requiredCapacity tp)) \<and> jr_ram r = uint (ram (tp_requiredCapacity tp)))"
  by (induction opts arbitrary: k) (auto simp: upt_conv_Cons map_Suc_upt [symmetric] comp_def simp del: upt_Suc)

lemma inserted_made:
  assumes "insert_task jsonb tp n d = Inr (i, d1)" and "insert_jobs jsonb tp i n d1 = Inr (ids, d2)"
  shows "task_made jsonb tp n d d2"
proof -
  obtain st where i: "i = next_task (seqs d)" and st: "jsonb (settings tp) = Some st"
    and d1: "d1 = d\<lparr>t_tasks := t_tasks d @ [new_task_row i tp st], seqs := (seqs d)\<lparr>next_task := i + 1\<rparr>\<rparr>"
    using assms(1) by (rule insert_taskE)
  obtain est opts where opts: "jsonb_all jsonb (jobOptions tp) = Some opts" "jobOptions tp \<noteq> []"
    and d2: "d2 = d1\<lparr>t_jobs := t_jobs d1 @ new_job_rows tp i est n opts (next_job (seqs d1)),
           t_job_log := t_job_log d1 @ map (\<lambda>r. (jr_id r, Queued, n)) (new_job_rows tp i est n opts (next_job (seqs d1))),
           seqs := (seqs d1)\<lparr>next_job := next_job (seqs d1) + int (length (new_job_rows tp i est n opts (next_job (seqs d1))))\<rparr>\<rparr>"
    using assms(2) by (rule insert_jobsE)
  have m: "map Some opts = map jsonb (jobOptions tp)" using jsonb_all_map [OF opts(1)] .
  then have "length opts = length (jobOptions tp)" by (metis length_map)
  with m i st opts(2) new_job_rows_made [of tp i est n opts "next_job (seqs d)"] show ?thesis
    unfolding task_made_def d2 d1
    by (intro conjI exI [of _ "new_task_row i tp st"] exI [of _ "new_job_rows tp i est n opts (next_job (seqs d))"])
       (simp_all add: new_task_row_def)
qed

lemma addTask_through:
  assumes run: "addTask jsonb tp p = (r, p')"
    and thru: "(\<exists>c. r = Returned (Inr c)) \<or> \<not> same_tables (committed p) (committed p')"
  shows "task_made jsonb tp (pg_now p) (committed p) (committed p')"
proof -
  let ?h = "failure_prefix ''Unexpected exception while inserting new job: ''"
  let ?body = "tx_bind (execQuery (insert_task jsonb tp)) (\<lambda>taskId. tx_bind (execQuery (insert_jobs jsonb tp taskId)) (\<lambda>jobIds.
        tx_bind tx_commit (\<lambda>_. tx_return (Inr \<lparr>cj_taskId = taskId, cj_jobIds = jobIds\<rparr>))))"
  obtain x t where t: "tx_try ?body ?h (begin_txn p) = (x, t)" and p': "p' = end_txn t" and w: "went_through x (begin_txn p) t"
    using run thru unfolding addTask_def try_txn_def by (elim went_through_run) (auto simp: failure_prefix_ne)
  obtain y where y: "?body (begin_txn p) = (y, t)" "went_through y (begin_txn p) t"
    using t w by (auto simp: tx_try_def went_through_def failure_prefix_ne split: prod.splits sum.splits)
  obtain i u where u: "insert_task jsonb tp (pg_now (begin_txn p)) (work (begin_txn p)) = Inr (i, work u)"
    "pg_now u = pg_now (begin_txn p)" and y1: "tx_bind (execQuery (insert_jobs jsonb tp i)) (\<lambda>jobIds.
        tx_bind tx_commit (\<lambda>_. tx_return (Inr \<lparr>cj_taskId = i, cj_jobIds = jobIds\<rparr>))) u = (y, t)" "went_through y u t"
    using y by (rule exec_bind_through)
  obtain ids v where v: "insert_jobs jsonb tp i (pg_now u) (work u) = Inr (ids, work v)"
    and y2: "tx_bind tx_commit (\<lambda>_. tx_return (Inr \<lparr>cj_taskId = i, cj_jobIds = ids\<rparr>)) v = (y, t)" "went_through y v t"
    using y1 by (rule exec_bind_through)
  have "committed t = work v \<and> work t = work v"
    using y2 unfolding went_through_def by (auto simp: tx_bind_def tx_return_def tx_commit_def Let_def split: if_splits fault.splits)
  moreover have "task_made jsonb tp (pg_now p) (committed p) (work v)"
    using inserted_made [OF u(1)] v u(2) by simp
  ultimately show ?thesis by (simp add: p' end_txn_def task_made_def)
qed

text \<open>
  C15. Adding a task is all or nothing: whatever fails, and also when the process dies in it, either no
  table changes or the task is there with every one of its jobs, queued and of the required size; never a
  task without its jobs. Reported success means it is there. Otherwise nothing changed, with one
  exception: the answer to the server's own commit is lost, and then the whole task may be there.
\<close>

theorem addTask_atomic:
  assumes "addTask jsonb tp p = (r, p')"
  shows "(same_tables (committed p) (committed p') \<or> task_made jsonb tp (pg_now p) (committed p) (committed p')) \<and>
    ((\<exists>c. r = Returned (Inr c)) \<longrightarrow> task_made jsonb tp (pg_now p) (committed p) (committed p')) \<and>
    ((\<nexists>c. r = Returned (Inr c)) \<longrightarrow> no_late_fault (faults p) \<longrightarrow> same_tables (committed p) (committed p'))"
  using addTask_through [OF assms] addTask_unless_late [OF assms] by blast

text \<open>A \<^verbatim>\<open>jsonb\<close> reader that knows one text only, and a task with one text it rejects.\<close>

definition ex_jsonb :: "string \<Rightarrow> string option" where
  "ex_jsonb s = (if s = ''{}'' then Some s else None)"

definition bad_task :: TaskParameters where
  "bad_task = ex_task\<lparr>jobOptions := [''{}'', ''x'']\<rparr>"

definition ex_add_late :: pg where
  "ex_add_late = ex_pg\<lparr>faults := [NoFault, NoFault, NoFault, ThrowsAfterCommit (sql_error ''connection lost'')]\<rparr>"

theorem addTask_atomic_witness:
  "fst (addTask ex_jsonb bad_task ex_pg) =
     Returned (Inl (PgException ''Unexpected exception while inserting new job: invalid input syntax for type json'')) \<and>
   same_tables (committed ex_pg) (committed (snd (addTask ex_jsonb bad_task ex_pg))) \<and>
   fst (addTask Some ex_task ex_add_late) =
     Returned (Inl (PgException ''Unexpected exception while inserting new job: connection lost'')) \<and>
   task_made Some ex_task (pg_now ex_add_late) (committed ex_add_late) (committed (snd (addTask Some ex_task ex_add_late)))"
proof -
  have run: "fst (addTask ex_jsonb bad_task ex_pg) =
     Returned (Inl (PgException ''Unexpected exception while inserting new job: invalid input syntax for type json''))"
    "fst (addTask Some ex_task ex_add_late) =
     Returned (Inl (PgException ''Unexpected exception while inserting new job: connection lost''))" by code_simp+
  have "no_late_fault (faults ex_pg)" by (simp add: no_late_fault_def ex_pg_def)
  then have "same_tables (committed ex_pg) (committed (snd (addTask ex_jsonb bad_task ex_pg)))"
    using run(1) addTask_atomic [where jsonb = ex_jsonb and tp = bad_task and p = ex_pg, OF prod.collapse [symmetric]] by simp
  moreover have "t_jobs (committed ex_add_late) = []" "map jr_id (t_jobs (committed (snd (addTask Some ex_task ex_add_late)))) \<noteq> []"
    by code_simp+
  then have "\<not> same_tables (committed ex_add_late) (committed (snd (addTask Some ex_task ex_add_late)))"
    using same_tablesD(3) by fastforce
  then have "task_made Some ex_task (pg_now ex_add_late) (committed ex_add_late) (committed (snd (addTask Some ex_task ex_add_late)))"
    using addTask_atomic [where jsonb = Some and tp = ex_task and p = ex_add_late, OF prod.collapse [symmetric]] by simp
  ultimately show ?thesis using run by blast
qed

text \<open>What the server accepts: texts it reads as \<^verbatim>\<open>jsonb\<close>, numbers that fit the columns, at least one job.\<close>

definition jobs_valid :: "(string \<Rightarrow> string option) \<Rightarrow> TaskParameters \<Rightarrow> db \<Rightarrow> bool" where
  "jobs_valid jsonb tp d \<longleftrightarrow> (\<forall>opt \<in> set (jobOptions tp). jsonb opt \<noteq> None) \<and>
     jobOptions tp \<noteq> [] \<and> int4 (estimation tp) \<and>
     int4 (uint (cpu (tp_requiredCapacity tp))) \<and> int4 (uint (ram (tp_requiredCapacity tp))) \<and>
     0 \<le> next_job (seqs d) \<and> int4 (next_job (seqs d) + int (length (jobOptions tp)))"

definition task_valid :: "(string \<Rightarrow> string option) \<Rightarrow> TaskParameters \<Rightarrow> db \<Rightarrow> bool" where
  "task_valid jsonb tp d \<longleftrightarrow> jsonb (settings tp) \<noteq> None \<and> int4 (uint (jobCount tp)) \<and> int4 (next_task (seqs d)) \<and>
     jobs_valid jsonb tp d"

lemma jsonb_all_total: "\<forall>s \<in> set ss. jsonb s \<noteq> None \<Longrightarrow> \<exists>ts. jsonb_all jsonb ss = Some ts \<and> length ts = length ss"
  by (induction ss) auto

lemma filter_new_jobs:
  assumes "\<forall>r \<in> set js. jr_task_id r \<noteq> i" and "\<forall>r \<in> set new. jr_task_id r = i"
  shows "filter (\<lambda>r. jr_task_id r = i) (js @ new) = new"
  using assms by (simp add: filter_empty_conv filter_id_conv)

lemma new_job_rows_states:
  "map job_state_of_row (new_job_rows tp i est n opts k) =
   replicate (length opts) \<lparr>js_status = Queued, resultUrl = Some ''''\<rparr>"
  by (induction opts arbitrary: k) (simp_all add: job_state_of_row_def)

lemma insert_jobs_ok:
  assumes valid: "jobs_valid jsonb tp d" and i: "i \<in> tr_id ` set (t_tasks d)"
  shows "\<exists>est opts. length opts = length (jobOptions tp) \<and>
     insert_jobs jsonb tp i n d = Inr (map (\<lambda>k. next_job (seqs d) + int k) [0..<length (jobOptions tp)],
       d\<lparr>t_jobs := t_jobs d @ new_job_rows tp i est n opts (next_job (seqs d)),
         t_job_log := t_job_log d @ map (\<lambda>r. (jr_id r, Queued, n)) (new_job_rows tp i est n opts (next_job (seqs d))),
         seqs := (seqs d)\<lparr>next_job := next_job (seqs d) + int (length (jobOptions tp))\<rparr>\<rparr>)"
proof -
  obtain opts where opts: "jsonb_all jsonb (jobOptions tp) = Some opts" "length opts = length (jobOptions tp)"
    using valid jsonb_all_total [of "jobOptions tp" jsonb] by (auto simp: jobs_valid_def)
  define rows where "rows = new_job_rows tp i (seconds (estimation tp)) n opts (next_job (seqs d))"
  have ids: "map jr_id rows = map (\<lambda>k. next_job (seqs d) + int k) [0..<length opts]"
    and row: "\<And>r. r \<in> set rows \<Longrightarrow> jr_task_id r = i \<and> jr_vm_id r = None \<and> jr_cpu r = uint (cpu (tp_requiredCapacity tp)) \<and>
      jr_ram r = uint (ram (tp_requiredCapacity tp)) \<and> jr_restart_count r = 0"
    using new_job_rows_spec [of tp i "seconds (estimation tp)" n opts "next_job (seqs d)"] by (auto simp: rows_def)
  have len: "length rows = length (jobOptions tp)" using ids opts(2) by (metis length_map length_upt diff_zero)
  have "int4 (jr_id r)" if "r \<in> set rows" for r
  proof -
    have "jr_id r \<in> set (map jr_id rows)" using that by simp
    then have "next_job (seqs d) \<le> jr_id r" "jr_id r < next_job (seqs d) + int (length opts)" unfolding ids by auto
    with valid opts(2) show ?thesis by (auto simp: jobs_valid_def int4_def)
  qed
  then have ok: "\<forall>r \<in> set rows. job_row_ok r" using row valid by (auto simp: job_row_ok_def jobs_valid_def int4_def)
  have fk: "\<forall>r \<in> set rows. job_fk_ok d r" using row i by (simp add: job_fk_ok_def)
  have "interval_seconds (estimation tp) = Inr (seconds (estimation tp))" "jobOptions tp \<noteq> []"
    using valid by (simp_all add: interval_seconds_def jobs_valid_def)
  then show ?thesis
    using opts ok fk ids len by (intro exI [of _ "seconds (estimation tp)"] exI [of _ opts])
      (simp add: insert_jobs_def rows_def Let_def)
qed

lemma addTask_run:
  assumes "faults p = []" and "db_wf (committed p)" and "task_valid jsonb tp (committed p)"
  shows "\<exists>p'. addTask jsonb tp p =
       (Returned (Inr \<lparr>cj_taskId = next_task (seqs (committed p)),
          cj_jobIds = map (\<lambda>k. next_job (seqs (committed p)) + int k) [0..<length (jobOptions tp)]\<rparr>), p') \<and>
     fst (getJobStates (next_task (seqs (committed p))) p') =
       Returned (Inr (replicate (length (jobOptions tp)) \<lparr>js_status = Queued, resultUrl = Some ''''\<rparr>))"
proof -
  define d i n where "d = committed p" and "i = next_task (seqs d)" and "n = pg_now p"
  obtain st where st: "jsonb (settings tp) = Some st" using assms(3) by (auto simp: task_valid_def)
  define d1 where "d1 = d\<lparr>t_tasks := t_tasks d @ [new_task_row i tp st], seqs := (seqs d)\<lparr>next_task := i + 1\<rparr>\<rparr>"
  have task: "insert_task jsonb tp n d = Inr (i, d1)"
    using assms(3) st by (simp add: insert_task_def task_valid_def d1_def i_def d_def Let_def)
  have i: "i \<in> tr_id ` set (t_tasks d1)" by (simp add: d1_def new_task_row_def)
  have "jobs_valid jsonb tp d1" using assms(3) by (simp add: task_valid_def jobs_valid_def d1_def d_def)
  from insert_jobs_ok [OF this i, of n] obtain est opts d2 where len: "length opts = length (jobOptions tp)"
    and jobs: "insert_jobs jsonb tp i n d1 = Inr (map (\<lambda>k. next_job (seqs d) + int k) [0..<length (jobOptions tp)], d2)"
    and d2: "t_jobs d2 = t_jobs d @ new_job_rows tp i est n opts (next_job (seqs d))"
    by (auto simp: d1_def)
  define p' where "p' = \<lparr>committed = d2, pg_now = n, faults = []\<rparr>"
  have "addTask jsonb tp p = (Returned (Inr \<lparr>cj_taskId = i,
      cj_jobIds = map (\<lambda>k. next_job (seqs d) + int k) [0..<length (jobOptions tp)]\<rparr>), p')"
    using assms(1) task jobs by (simp add: addTask_def tx_run begin_txn_def end_txn_def d_def n_def p'_def)
  moreover have "\<forall>r \<in> set (t_jobs d). jr_task_id r \<noteq> i"
    using assms(2) by (fastforce simp: db_wf_def job_fk_ok_def d_def i_def)
  then have "filter (\<lambda>r. jr_task_id r = i) (t_jobs d2) = new_job_rows tp i est n opts (next_job (seqs d))"
    unfolding d2 by (rule filter_new_jobs) (use new_job_rows_spec [of tp i est n opts] in blast)
  then have "fst (getJobStates i p') = Returned (Inr (replicate (length (jobOptions tp)) \<lparr>js_status = Queued, resultUrl = Some ''''\<rparr>))"
    by (simp add: getJobStates_def tx_run select_jobs_def begin_txn_def p'_def new_job_rows_states len)
  ultimately show ?thesis unfolding i_def d_def by blast
qed

text \<open>
  C14. Without faults, adding a valid task reports success with a fresh task identifier and one
  consecutive job identifier per entry of the options; asking for the task's job states then gives
  exactly that many jobs, all queued, without a result.
\<close>

theorem addTask_roundtrip:
  assumes "faults p = []" and "db_wf (committed p)" and "task_valid jsonb tp (committed p)"
  shows "\<exists>p'. addTask jsonb tp p =
       (Returned (Inr \<lparr>cj_taskId = next_task (seqs (committed p)),
          cj_jobIds = map (\<lambda>k. next_job (seqs (committed p)) + int k) [0..<length (jobOptions tp)]\<rparr>), p') \<and>
     fst (getJobStates (next_task (seqs (committed p))) p') =
       Returned (Inr (replicate (length (jobOptions tp)) \<lparr>js_status = Queued, resultUrl = Some ''''\<rparr>))"
  by (rule addTask_run [OF assms])

theorem addTask_roundtrip_witness:
  "\<exists>p'. addTask ex_jsonb ex_task ex_pg = (Returned (Inr \<lparr>cj_taskId = 1, cj_jobIds = [1, 2]\<rparr>), p') \<and>
     fst (getJobStates 1 p') = Returned (Inr (replicate 2 \<lparr>js_status = Queued, resultUrl = Some ''''\<rparr>))"
proof -
  have "task_valid ex_jsonb ex_task (committed ex_pg)" by code_simp
  moreover have "faults ex_pg = []" "db_wf (committed ex_pg)" by (simp_all add: ex_pg_def empty_db_wf)
  moreover have "map (\<lambda>k. next_job (seqs (committed ex_pg)) + int k) [0..<length (jobOptions ex_task)] = [1, 2]"
    "next_task (seqs (committed ex_pg)) = 1" "length (jobOptions ex_task) = 2" by code_simp+
  ultimately show ?thesis using addTask_roundtrip [of ex_pg ex_jsonb ex_task] by metis
qed

end
