(* ===== verification/StorageAgentSpec.thy ===== *)
theory StorageAgentSpec
  imports StorageClientSpec
begin

text \<open>
  What the storage does for the agents and the allocator when no connection fails: the effect of a
  report, of cancelling a task, of taking VMs to allocate and of giving VMs back that could not be
  allocated.
\<close>

section \<open>Statements that succeed\<close>

lemma update_jobs_ok:
  assumes "\<And>r. r \<in> set (t_jobs d) \<Longrightarrow> c r \<Longrightarrow> job_row_ok (a r) \<and> job_fk_ok d (a r)"
  shows "update_jobs c a n d = Inr (map a (filter c (t_jobs d)),
     d\<lparr>t_jobs := map (\<lambda>r. if c r then a r else r) (t_jobs d),
       t_job_log := t_job_log d @ map (\<lambda>r. (jr_id r, jr_status (a r), n))
         (filter (\<lambda>r. jr_status r \<noteq> jr_status (a r)) (filter c (t_jobs d)))\<rparr>)"
  using assms by (auto simp: update_jobs_def Let_def)

lemma update_vms_ok:
  assumes "\<And>r. r \<in> set (t_vms d) \<Longrightarrow> c r \<Longrightarrow> vm_row_ok (a r)"
  shows "update_vms c a n d = Inr (map a (filter c (t_vms d)),
     d\<lparr>t_vms := map (\<lambda>r. if c r then vm_trigger n r (a r) else r) (t_vms d),
       t_vm_log := t_vm_log d @ map (\<lambda>r. (vr_id r, vr_status (a r), n))
         (filter (\<lambda>r. vr_status r \<noteq> vr_status (a r)) (filter c (t_vms d)))\<rparr>)"
  using assms by (auto simp: update_vms_def Let_def)

text \<open>A VM row after the given jobs gave their capacity back.\<close>

definition give_back :: "JobId list \<Rightarrow> job_row list \<Rightarrow> vm_row \<Rightarrow> vm_row" where
  "give_back ids js r =
     (if \<exists>j \<in> set js. jr_id j \<in> set ids \<and> jr_vm_id j = Some (vr_id r)
      then r\<lparr>vr_cpu_idle := min (vr_cpu_idle r + freed jr_cpu ids js (vr_id r)) (vr_cpu r),
             vr_ram_idle := min (vr_ram_idle r + freed jr_ram ids js (vr_id r)) (vr_ram r)\<rparr>
      else r)"

lemma release_ok:
  assumes "\<And>r. r \<in> set (t_vms d) \<Longrightarrow> vm_ok r" and "\<And>j. j \<in> set (t_jobs d) \<Longrightarrow> 0 \<le> jr_cpu j \<and> 0 \<le> jr_ram j"
  shows "release_stmt ids n d = Inr ((), d\<lparr>t_vms := map (give_back ids (t_jobs d)) (t_vms d)\<rparr>)"
proof -
  let ?c = "\<lambda>r. \<exists>j \<in> set (t_jobs d). jr_id j \<in> set ids \<and> jr_vm_id j = Some (vr_id r)"
  let ?a = "\<lambda>r. r\<lparr>vr_cpu_idle := min (vr_cpu_idle r + freed jr_cpu ids (t_jobs d) (vr_id r)) (vr_cpu r),
               vr_ram_idle := min (vr_ram_idle r + freed jr_ram ids (t_jobs d) (vr_id r)) (vr_ram r)\<rparr>"
  have nn: "0 \<le> freed jr_cpu ids (t_jobs d) v" "0 \<le> freed jr_ram ids (t_jobs d) v" for v
    using assms(2) by (auto intro!: freed_nonneg)
  have "vm_row_ok (?a r)" if "r \<in> set (t_vms d)" for r
  proof -
    have "vm_ok r" using assms(1) that .
    moreover have "int4 (min (a + b) t)" if "0 \<le> a" "0 \<le> b" "int4 t" "0 \<le> t" for a b t
      using that by (auto simp: int4_def min_def)
    ultimately show ?thesis using nn by (simp add: vm_ok_def vm_row_ok_def)
  qed
  then have "update_vms ?c ?a n d = Inr (map ?a (filter ?c (t_vms d)),
     d\<lparr>t_vms := map (\<lambda>r. if ?c r then vm_trigger n r (?a r) else r) (t_vms d),
       t_vm_log := t_vm_log d @ map (\<lambda>r. (vr_id r, vr_status (?a r), n))
         (filter (\<lambda>r. vr_status r \<noteq> vr_status (?a r)) (filter ?c (t_vms d)))\<rparr>)"
    by (intro update_vms_ok)
  then show ?thesis by (simp add: release_stmt_def give_back_def vm_trigger_def cong: if_cong)
qed

text \<open>Giving back the capacity of one job.\<close>

definition give_back_one :: "job_row \<Rightarrow> VmId \<Rightarrow> vm_row \<Rightarrow> vm_row" where
  "give_back_one j v r = (if vr_id r = v
     then r\<lparr>vr_cpu_idle := min (vr_cpu_idle r + jr_cpu j) (vr_cpu r), vr_ram_idle := min (vr_ram_idle r + jr_ram j) (vr_ram r)\<rparr>
     else r)"

lemma give_back_single:
  assumes "distinct (map jr_id js)" and "j \<in> set js" and "jr_vm_id j = Some v"
  shows "give_back [jr_id j] js r = give_back_one j v r"
proof -
  have "(\<exists>k \<in> set js. jr_id k \<in> set [jr_id j] \<and> jr_vm_id k = Some (vr_id r)) \<longleftrightarrow> vr_id r = v"
    using assms by (auto simp: eq_key_imp_eq_value dest: inj_onD [OF assms(1) [unfolded distinct_map, THEN conjunct2]])
  moreover have "filter (\<lambda>k. jr_id k \<in> set [jr_id j] \<and> jr_vm_id k = Some v) js = [j]"
    using filter_key [OF assms(1,2), of "\<lambda>k. jr_vm_id k = Some v"] assms(3) by simp
  ultimately show ?thesis by (simp add: give_back_def give_back_one_def freed_def)
qed

section \<open>An agent's report\<close>

definition job_of :: "VmId \<Rightarrow> JobId \<Rightarrow> job_row \<Rightarrow> bool" where
  "job_of v j r \<longleftrightarrow> jr_vm_id r = Some v \<and> jr_id r = j"

text \<open>The tables after a report that is not ignored.\<close>

definition after_report :: "VmId \<Rightarrow> job_row \<Rightarrow> JobState \<Rightarrow> int \<Rightarrow> db \<Rightarrow> db \<Rightarrow> bool" where
  "after_report v r js now d d' \<longleftrightarrow>
     t_jobs d' = map (\<lambda>q. if jr_id q = jr_id r \<and> jr_status q \<notin> getFinalJobStatuses then report_assign js now q else q) (t_jobs d) \<and>
     t_vms d' = (if js_status js \<in> getFinalJobStatuses then map (give_back_one r v) (t_vms d) else t_vms d)"

lemma updateJobState_run:
  assumes nf: "faults p = []" and wf: "db_wf (committed p)" and r: "r \<in> set (t_jobs (committed p))" "jr_vm_id r = Some v"
    and go: "\<not> (jr_status r = Cancelling \<and> js_status js \<noteq> Cancelled)"
  shows "\<exists>p'. updateJobState v (jr_id r) js p = (Returned (Inr ()), p') \<and>
     after_report v r js (pg_now p) (committed p) (committed p')"
proof -
  define d n where "d = committed p" and "n = pg_now p"
  let ?c = "\<lambda>q. jr_vm_id q = Some v \<and> jr_id q = jr_id r \<and> jr_status q \<notin> getFinalJobStatuses"
  have dist: "distinct (map jr_id (t_jobs d))" using wf by (simp add: db_wf_def d_def)
  have sel: "filter (\<lambda>q. jr_vm_id q = Some v \<and> jr_id q = jr_id r) (t_jobs d) = [r]"
    using filter_key [OF dist, of r "\<lambda>q. jr_vm_id q = Some v"] r by (simp add: d_def conj_commute)
  have same: "q = r" if "q \<in> set (t_jobs d)" "jr_id q = jr_id r" for q
    using dist r(1) that unfolding distinct_map d_def inj_on_def by blast
  let ?log = "t_job_log d @ map (\<lambda>r. (jr_id r, jr_status (report_assign js n r), n))
       (filter (\<lambda>r. jr_status r \<noteq> jr_status (report_assign js n r)) (filter ?c (t_jobs d)))"
  define d1 where "d1 = d\<lparr>t_jobs := map (\<lambda>q. if ?c q then report_assign js n q else q) (t_jobs d), t_job_log := ?log\<rparr>"
  have up: "update_jobs ?c (report_assign js n) n d = Inr (map (report_assign js n) (filter ?c (t_jobs d)), d1)"
    unfolding d1_def using wf
    by (intro update_jobs_ok) (auto simp: db_wf_def job_ok_def job_row_ok_def job_fk_ok_def d_def)
  have jobs1: "t_jobs d1 = map (\<lambda>q. if jr_id q = jr_id r \<and> jr_status q \<notin> getFinalJobStatuses then report_assign js n q else q) (t_jobs d)"
    using same r(2) by (auto simp: d1_def)
  have gb: "give_back [jr_id r] (t_jobs d1) w = give_back_one r v w" for w
  proof -
    let ?r = "if jr_status r \<notin> getFinalJobStatuses then report_assign js n r else r"
    have "map jr_id (t_jobs d1) = map jr_id (t_jobs d)" by (simp add: d1_def)
    then have "distinct (map jr_id (t_jobs d1))" using dist by simp
    moreover have "?r \<in> set (t_jobs d1)" unfolding jobs1 using r(1) by (force simp: d_def)
    moreover have "jr_id ?r = jr_id r" "jr_vm_id ?r = Some v" "jr_cpu ?r = jr_cpu r" "jr_ram ?r = jr_ram r" using r(2) by auto
    ultimately show ?thesis using give_back_single [of "t_jobs d1" ?r v w] by (simp add: give_back_one_def)
  qed
  have rel: "release_stmt [jr_id r] n d1 = Inr ((), d1\<lparr>t_vms := map (give_back_one r v) (t_vms d1)\<rparr>)"
  proof -
    have "vm_ok w" if "w \<in> set (t_vms d1)" for w using that wf by (simp add: d1_def d_def db_wf_def)
    moreover have "0 \<le> jr_cpu q \<and> 0 \<le> jr_ram q" if "q \<in> set (t_jobs d1)" for q
      using that wf by (auto simp: d1_def d_def db_wf_def job_ok_def)
    moreover have "give_back [jr_id r] (t_jobs d1) = give_back_one r v" by (rule ext) (rule gb)
    ultimately show ?thesis using release_ok [of d1 "[jr_id r]" n] by simp
  qed
  define d2 where "d2 = (if js_status js \<in> getFinalJobStatuses then d1\<lparr>t_vms := map (give_back_one r v) (t_vms d1)\<rparr> else d1)"
  have "updateJobState v (jr_id r) js p = (Returned (Inr ()), \<lparr>committed = d2, pg_now = n, faults = []\<rparr>)"
    using nf sel go up rel unfolding updateJobState_def
    by (auto simp: tx_run begin_txn_def end_txn_def select_jobs_def releaseVmResources_def d_def n_def d2_def)
  moreover have "after_report v r js n d d2"
    using jobs1 by (simp add: after_report_def d2_def d1_def)
  ultimately show ?thesis by (simp add: d_def n_def)
qed

text \<open>
  C16. Without faults, an agent's report on a job of its VM that is in no final status succeeds and
  does exactly this: the job row gets the reported status and result and, when the status is final, now as its
  end, else now as its start unless it has one already; every other column and every other job row stays; when the reported status is final, the VM gets the job's capacity back (at most
  up to its total) and no other VM changes, otherwise no VM changes at all.
\<close>

theorem updateJobState_report:
  assumes "faults p = []" and "db_wf (committed p)" and "r \<in> set (t_jobs (committed p))" and "jr_vm_id r = Some v"
    and "jr_status r \<notin> getFinalJobStatuses"
  shows "\<exists>p'. updateJobState v (jr_id r) js p = (Returned (Inr ()), p') \<and>
     t_jobs (committed p') = map (\<lambda>q. if jr_id q \<noteq> jr_id r then q
        else if js_status js \<in> getFinalJobStatuses
          then q\<lparr>jr_status := js_status js, jr_result_url := resultUrl js, jr_finished := Some (pg_now p)\<rparr>
          else q\<lparr>jr_status := js_status js, jr_result_url := resultUrl js,
                 jr_started := Some (case jr_started q of None \<Rightarrow> pg_now p | Some s \<Rightarrow> s)\<rparr>) (t_jobs (committed p)) \<and>
     t_vms (committed p') = map (\<lambda>w. if vr_id w = v \<and> js_status js \<in> getFinalJobStatuses
         then w\<lparr>vr_cpu_idle := min (vr_cpu_idle w + jr_cpu r) (vr_cpu w), vr_ram_idle := min (vr_ram_idle w + jr_ram r) (vr_ram w)\<rparr>
         else w) (t_vms (committed p))"
proof -
  have "\<not> (jr_status r = Cancelling \<and> js_status js \<noteq> Cancelled)" using assms(5) by (auto simp: status_sets)
  from updateJobState_run [OF assms(1-4) this] obtain p' where
    run: "updateJobState v (jr_id r) js p = (Returned (Inr ()), p')"
    and after: "after_report v r js (pg_now p) (committed p) (committed p')" by blast
  have "distinct (map jr_id (t_jobs (committed p)))" using assms(2) by (simp add: db_wf_def)
  then have "jr_status q \<notin> getFinalJobStatuses" if "q \<in> set (t_jobs (committed p))" "jr_id q = jr_id r" for q
    using assms(3,5) that unfolding distinct_map inj_on_def by blast
  then have "t_jobs (committed p') = map (\<lambda>q. if jr_id q \<noteq> jr_id r then q
        else if js_status js \<in> getFinalJobStatuses
          then q\<lparr>jr_status := js_status js, jr_result_url := resultUrl js, jr_finished := Some (pg_now p)\<rparr>
          else q\<lparr>jr_status := js_status js, jr_result_url := resultUrl js,
                 jr_started := Some (case jr_started q of None \<Rightarrow> pg_now p | Some s \<Rightarrow> s)\<rparr>) (t_jobs (committed p))"
    using after by (auto simp: after_report_def report_assign_def Let_def split: option.splits)
  moreover have "t_vms (committed p') = map (\<lambda>w. if vr_id w = v \<and> js_status js \<in> getFinalJobStatuses
         then w\<lparr>vr_cpu_idle := min (vr_cpu_idle w + jr_cpu r) (vr_cpu w), vr_ram_idle := min (vr_ram_idle w + jr_ram r) (vr_ram w)\<rparr>
         else w) (t_vms (committed p))"
    using after by (cases "js_status js \<in> getFinalJobStatuses") (auto simp: after_report_def give_back_one_def)
  ultimately show ?thesis using run by blast
qed

text \<open>A database in which job 1 is on VM 1, with job 2 queued: the plan of two jobs, committed.\<close>

definition ex_scheduled :: pg where
  "ex_scheduled = apply_op Some (CommitPlanChange (ex_place\<lparr>jobToVm := [(1, DesiredVm 0)],
     desiredSlotMap := [(0, \<lparr>total = SlotCapacity 2 8, idle = SlotCapacity 1 4\<rparr>)]\<rparr>) 1) ex_planned"

lemma ex_scheduled_wf: "db_wf (committed ex_scheduled)" and ex_scheduled_faults: "faults ex_scheduled = []"
  by code_simp+

definition ex_open :: job_row where
  "ex_open = hd (t_jobs (committed ex_scheduled))"

lemma ex_open_in: "ex_open \<in> set (t_jobs (committed ex_scheduled))"
  and ex_open_vm: "jr_vm_id ex_open = Some 1" and ex_open_id: "jr_id ex_open = 1"
  by code_simp+

definition completed :: JobState where
  "completed = \<lparr>js_status = Completed, resultUrl = Some ''url''\<rparr>"

theorem updateJobState_report_witness:
  "\<exists>p'. updateJobState 1 1 completed ex_scheduled = (Returned (Inr ()), p') \<and>
     map jr_status (t_jobs (committed p')) = [Completed, Queued] \<and> map jr_result_url (t_jobs (committed p')) = [Some ''url'', None] \<and>
     map jr_finished (t_jobs (committed p')) = [Some 100000000, None] \<and> map vr_cpu_idle (t_vms (committed p')) = [2]"
proof -
  have open_job: "jr_status ex_open \<notin> getFinalJobStatuses" and final: "js_status completed \<in> getFinalJobStatuses"
    and now: "pg_now ex_scheduled = 100000000"
    and rows: "map (\<lambda>q. (jr_id q, jr_status q, jr_result_url q, jr_finished q)) (t_jobs (committed ex_scheduled)) =
      [(1, Scheduled, None, None), (2, Queued, None, None)]"
    and vm: "map (\<lambda>w. (vr_id w, min (vr_cpu_idle w + jr_cpu ex_open) (vr_cpu w))) (t_vms (committed ex_scheduled)) = [(1, 2)]"
    by code_simp+
  obtain j1 j2 where jobs: "t_jobs (committed ex_scheduled) = [j1, j2]" "jr_id j1 = 1" "jr_id j2 = 2" "jr_status j2 = Queued"
    "jr_result_url j2 = None" "jr_finished j2 = None" using rows by (auto simp: Cons_eq_map_conv map_eq_Cons_conv)
  obtain w where vms: "t_vms (committed ex_scheduled) = [w]" "vr_id w = 1" "min (vr_cpu_idle w + jr_cpu ex_open) (vr_cpu w) = 2"
    using vm by (auto simp: map_eq_Cons_conv)
  from updateJobState_report [OF ex_scheduled_faults ex_scheduled_wf ex_open_in ex_open_vm open_job, of completed]
  show ?thesis using final jobs vms now by (auto simp: ex_open_id completed_def)
qed

lemma updateJobState_no_effect:
  assumes "faults p = []"
    and "(\<forall>r \<in> set (t_jobs (committed p)). \<not> (jr_vm_id r = Some v \<and> jr_id r = j)) \<or>
      (\<forall>r \<in> set (t_jobs (committed p)). jr_vm_id r = Some v \<and> jr_id r = j \<longrightarrow>
         jr_status r = Cancelling \<and> js_status js \<noteq> Cancelled)"
  shows "updateJobState v j js p =
     (Returned (if \<exists>r \<in> set (t_jobs (committed p)). jr_vm_id r = Some v \<and> jr_id r = j then Inr ()
                else Inl (JobNotFoundException (job_not_found v j))), p)"
proof -
  let ?hit = "filter (\<lambda>r. jr_vm_id r = Some v \<and> jr_id r = j) (t_jobs (committed p))"
  have p: "end_txn (begin_txn p\<lparr>work := committed p\<rparr>) = p" using assms(1) by (simp add: begin_txn_def end_txn_def)
  show ?thesis
  proof (cases ?hit)
    case Nil
    then have "\<not> (\<exists>r \<in> set (t_jobs (committed p)). jr_vm_id r = Some v \<and> jr_id r = j)" by (auto simp: filter_empty_conv)
    with Nil show ?thesis using assms(1) p unfolding updateJobState_def by (simp add: tx_run select_jobs_def)
  next
    case (Cons r rs)
    then have r: "r \<in> set (t_jobs (committed p))" "jr_vm_id r = Some v \<and> jr_id r = j" by (auto simp: filter_eq_Cons_iff)
    then have "jr_status r = Cancelling \<and> js_status js \<noteq> Cancelled" using assms(2) by blast
    with Cons r show ?thesis using assms(1) p unfolding updateJobState_def by (auto simp: tx_run select_jobs_def)
  qed
qed

text \<open>
  A final report about a job that is already in a final status (a repeated report, or the
  cancellation an agent confirms) leaves every job row alone, and in particular does not turn
  cancelling into cancelled, but gives the job's capacity back to the VM again.
\<close>

lemma updateJobState_repeated:
  assumes "faults p = []" and "db_wf (committed p)" and "r \<in> set (t_jobs (committed p))" and "jr_vm_id r = Some v"
    and "jr_status r \<in> getFinalJobStatuses" and "js_status js \<in> getFinalJobStatuses"
    and "jr_status r = Cancelling \<Longrightarrow> js_status js = Cancelled"
  shows "\<exists>p'. updateJobState v (jr_id r) js p = (Returned (Inr ()), p') \<and> t_jobs (committed p') = t_jobs (committed p) \<and>
     t_vms (committed p') = map (give_back_one r v) (t_vms (committed p))"
proof -
  from updateJobState_run [OF assms(1-4), of js] assms(7) obtain p' where
    run: "updateJobState v (jr_id r) js p = (Returned (Inr ()), p')"
    and after: "after_report v r js (pg_now p) (committed p) (committed p')" by blast
  have "distinct (map jr_id (t_jobs (committed p)))" using assms(2) by (simp add: db_wf_def)
  then have "jr_status q \<in> getFinalJobStatuses" if "q \<in> set (t_jobs (committed p))" "jr_id q = jr_id r" for q
    using assms(3,5) that unfolding distinct_map inj_on_def by blast
  then have "map (\<lambda>q. if jr_id q = jr_id r \<and> jr_status q \<notin> getFinalJobStatuses then report_assign js (pg_now p) q else q)
      (t_jobs (committed p)) = t_jobs (committed p)" by (intro map_idI) auto
  with run after assms(6) show ?thesis by (auto simp: after_report_def)
qed

end
