(* ===== verification/StorageVmSpec.thy ===== *)
theory StorageVmSpec
  imports StorageAgentSpec
begin

text \<open>
  What the storage promises the allocator and the clients when no connection fails: cancelling
  reaches every open job of a task, a VM to allocate is handed out once, and VMs that could not be
  allocated go back to the queue or, once their attempts are used up, free their jobs.
\<close>

section \<open>Cancelling a task\<close>

lemma cancelJobs_run:
  assumes nf: "faults p = []" and wf: "db_wf (committed p)"
  shows "\<exists>p'. cancelJobs c p = (Returned (Inr ()), p') \<and> faults p' = [] \<and>
     t_jobs (committed p') = map (\<lambda>r. if c (pg_now p) r then cancel_assign r else r) (t_jobs (committed p))"
proof -
  define d n where "d = committed p" and "n = pg_now p"
  define d1 where "d1 = d\<lparr>t_jobs := map (\<lambda>r. if c n r then cancel_assign r else r) (t_jobs d),
       t_job_log := t_job_log d @ map (\<lambda>r. (jr_id r, jr_status (cancel_assign r), n))
         (filter (\<lambda>r. jr_status r \<noteq> jr_status (cancel_assign r)) (filter (c n) (t_jobs d)))\<rparr>"
  have up: "update_jobs (c n) cancel_assign n d = Inr (map cancel_assign (filter (c n) (t_jobs d)), d1)"
    unfolding d1_def using wf
    by (intro update_jobs_ok) (auto simp: db_wf_def job_ok_def job_row_ok_def job_fk_ok_def d_def)
  have "vm_ok w" if "w \<in> set (t_vms d1)" for w using that wf by (simp add: d1_def d_def db_wf_def)
  moreover have "0 \<le> jr_cpu q \<and> 0 \<le> jr_ram q" if "q \<in> set (t_jobs d1)" for q
    using that wf by (auto simp: d1_def d_def db_wf_def job_ok_def)
  ultimately have rel: "release_stmt ids n d1 = Inr ((), d1\<lparr>t_vms := map (give_back ids (t_jobs d1)) (t_vms d1)\<rparr>)" for ids
    by (rule release_ok)
  show ?thesis
    using nf up rel unfolding cancelJobs_def
    by (auto simp: tx_run begin_txn_def end_txn_def releaseVmResources_def d_def n_def d1_def Let_def)
qed

text \<open>
  C17. Without faults, cancelling a task succeeds: every job of the task that is in no final status
  becomes cancelled when it was queued and cancelling otherwise, and every other job row stays.
  Afterwards the task has no job that is queued, scheduled or running.
\<close>

theorem cancelTask_effect:
  assumes "faults p = []" and "db_wf (committed p)"
  shows "\<exists>p'. cancelTask t p = (Returned (Inr ()), p') \<and>
     t_jobs (committed p') = map (\<lambda>r. if jr_task_id r = t \<and> jr_status r \<notin> getFinalJobStatuses
        then r\<lparr>jr_status := if jr_status r = Queued then Cancelled else Cancelling\<rparr> else r) (t_jobs (committed p)) \<and>
     (\<forall>r \<in> set (t_jobs (committed p')). jr_task_id r = t \<longrightarrow> jr_status r \<in> getFinalJobStatuses)"
proof -
  obtain p' where "cancelTask t p = (Returned (Inr ()), p')"
    and jobs: "t_jobs (committed p') = map (\<lambda>r. if jr_task_id r = t \<and> jr_status r \<notin> getFinalJobStatuses
        then cancel_assign r else r) (t_jobs (committed p))"
    using cancelJobs_run [OF assms] unfolding cancelTask_def by blast
  moreover have "jr_status r \<in> getFinalJobStatuses" if r: "r \<in> set (t_jobs (committed p'))" "jr_task_id r = t" for r
  proof -
    obtain q where "r = (if jr_task_id q = t \<and> jr_status q \<notin> getFinalJobStatuses then cancel_assign q else q)"
      using r(1) unfolding jobs set_map by blast
    with r(2) show ?thesis
      by (cases "jr_status q \<in> getFinalJobStatuses") (auto simp: cancel_assign_def getFinalJobStatuses_def split: if_splits)
  qed
  ultimately show ?thesis unfolding cancel_assign_def by blast
qed

theorem cancelTask_effect_witness:
  "\<exists>p'. cancelTask 1 ex_scheduled = (Returned (Inr ()), p') \<and>
     list_all (\<lambda>r. jr_status r \<in> getFinalJobStatuses) (filter (\<lambda>r. jr_task_id r = 1) (t_jobs (committed p')))"
  using cancelTask_effect [OF ex_scheduled_faults ex_scheduled_wf, of 1] by (auto simp: list_all_iff)

section \<open>Handing out VMs to allocate\<close>

definition pending_ids :: "db \<Rightarrow> VmId list" where
  "pending_ids d = map vr_id (filter (\<lambda>r. vr_status r = PendingAllocation) (t_vms d))"

lemma pending_ids_iff: "v \<in> set (pending_ids d) \<longleftrightarrow> (\<exists>r \<in> set (t_vms d). vr_id r = v \<and> vr_status r = PendingAllocation)"
  by (auto simp: pending_ids_def)

lemma row_capacity_ok: "0 \<le> c \<Longrightarrow> 0 \<le> r \<Longrightarrow> row_capacity c r = Inr (SlotCapacity (of_int c) (of_int r))"
  by (simp add: row_capacity_def as_size_t_def)

text \<open>What the inner \<^verbatim>\<open>SELECT\<close> with its limit picks.\<close>

lemma select_limit_distinct: "distinct (select_limit scan s n d)"
  by (simp add: select_limit_def)

lemma select_limit_pending: "set (select_limit scan PendingAllocation n d) \<subseteq> set scan \<inter> set (pending_ids d)"
  by (auto simp: select_limit_def pending_ids_iff dest!: in_set_takeD)

lemma select_limit_pending_ids:
  "select_limit scan PendingAllocation n d = take (unat n) (filter (\<lambda>v. v \<in> set (pending_ids d)) (remdups scan))"
  by (simp add: select_limit_def pending_ids_iff)

lemma select_limit_row:
  assumes "v \<in> set (select_limit scan PendingAllocation n d)"
  obtains r where "r \<in> set (t_vms d)" "vr_id r = v" "vr_status r = PendingAllocation"
  using assms by (auto simp: select_limit_def dest!: in_set_takeD)

lemma select_limit_length:
  "length (select_limit scan PendingAllocation n d) = min (unat n) (card (set scan \<inter> set (pending_ids d)))"
proof -
  have "length (filter P (remdups scan)) = card (set scan \<inter> {v. P v})" for P
    using distinct_card [of "filter P (remdups scan)"] by (simp add: Int_def)
  then show ?thesis by (simp add: select_limit_def pending_ids_iff [symmetric] min.commute)
qed

lemma returned_rows_map:
  assumes "\<And>r. vr_id (a r) = vr_id r"
  shows "returned_rows ids (map a (filter (\<lambda>r. vr_id r \<in> set ids) xs)) = map a (returned_rows ids xs)"
proof -
  have "filter (\<lambda>r. vr_id r = v) (map a (filter (\<lambda>r. vr_id r \<in> set ids) xs)) = map a (filter (\<lambda>r. vr_id r = v) xs)"
    if "v \<in> set ids" for v
    using that assms by (induction xs) auto
  then show ?thesis unfolding returned_rows_def map_concat map_map by (intro arg_cong [where f = concat] map_cong) auto
qed

lemma returned_rows_ids:
  assumes "distinct (map vr_id xs)" and "set ids \<subseteq> vr_id ` set xs"
  shows "map vr_id (returned_rows ids xs) = ids"
  using assms(2)
proof (induction ids)
  case (Cons v ids)
  then obtain r where r: "r \<in> set xs" "v = vr_id r" by auto
  with Cons filter_key [OF assms(1) r(1), of "\<lambda>_. True"] show ?case by (simp add: returned_rows_def)
qed (simp add: returned_rows_def)

lemma returned_rowsD: "r \<in> set (returned_rows ids xs) \<Longrightarrow> r \<in> set xs"
  by (auto simp: returned_rows_def)

text \<open>The table once the VMs \<open>ids\<close> are taken.\<close>

definition taken_vms :: "VmId list \<Rightarrow> int \<Rightarrow> db \<Rightarrow> vm_row list" where
  "taken_vms ids now d = map (\<lambda>r. if vr_id r \<in> set ids
     then r\<lparr>vr_status := Allocating, vr_last_status_update := now\<rparr> else r) (t_vms d)"

lemma take_pending:
  fixes scan n d
  defines "ids \<equiv> select_limit scan PendingAllocation n d"
  assumes wf: "db_wf d" and n: "uint n < 2 ^ 63"
  shows "\<exists>d'. take_vms scan PendingAllocation Allocating n now d =
       Inr (map (\<lambda>r. r\<lparr>vr_status := Allocating\<rparr>) (returned_rows ids (t_vms d)), d') \<and> t_vms d' = taken_vms ids now d"
proof -
  let ?a = "\<lambda>r::vm_row. r\<lparr>vr_status := Allocating\<rparr>"
  have dist: "distinct (map vr_id (t_vms d))" using wf by (simp add: db_wf_def)
  have st: "vr_status r = PendingAllocation" if r: "r \<in> set (t_vms d)" "vr_id r \<in> set ids" for r
  proof -
    obtain q where "q \<in> set (t_vms d)" "vr_id q = vr_id r" "vr_status q = PendingAllocation"
      using r(2) unfolding ids_def by (rule select_limit_row)
    with r(1) dist show ?thesis by (metis distinct_map inj_onD)
  qed
  have "vm_row_ok (?a r)" if "r \<in> set (t_vms d)" for r using wf that by (auto simp: db_wf_def vm_ok_def vm_row_ok_def)
  then obtain d' where up: "update_vms (\<lambda>r. vr_id r \<in> set ids) ?a now d = Inr (map ?a (filter (\<lambda>r. vr_id r \<in> set ids) (t_vms d)), d')"
    and d': "t_vms d' = map (\<lambda>r. if vr_id r \<in> set ids then vm_trigger now r (?a r) else r) (t_vms d)"
    using update_vms_ok [of d "\<lambda>r. vr_id r \<in> set ids" ?a now] by auto
  have "int8 (uint n)" using n uint_ge_0 [of n] unfolding int8_def by linarith
  then have "take_vms scan PendingAllocation Allocating n now d = Inr (map ?a (returned_rows ids (t_vms d)), d')"
    using up returned_rows_map [of ?a ids "t_vms d"] by (simp add: take_vms_def Let_def ids_def [symmetric])
  moreover have "t_vms d' = taken_vms ids now d"
    unfolding d' taken_vms_def using st by (intro map_cong [OF refl]) (simp add: vm_trigger_def)
  ultimately show ?thesis by blast
qed

lemma taken_pending:
  assumes "t_vms d' = taken_vms ids now d"
  shows "pending_ids d' = filter (\<lambda>v. v \<notin> set ids) (pending_ids d)"
proof -
  have "map vr_id (filter (\<lambda>r. vr_status r = PendingAllocation) (map (\<lambda>r. if vr_id r \<in> set ids
      then r\<lparr>vr_status := Allocating, vr_last_status_update := now\<rparr> else r) xs)) =
      filter (\<lambda>v. v \<notin> set ids) (map vr_id (filter (\<lambda>r. vr_status r = PendingAllocation) xs))" for xs
    by (induction xs) auto
  then show ?thesis unfolding pending_ids_def assms taken_vms_def .
qed

definition pending_info :: "vm_row \<Rightarrow> AllocationPendingVmInfo" where
  "pending_info r = \<lparr>ap_id = vr_id r, ap_capacity = SlotCapacity (of_int (vr_cpu r)) (of_int (vr_ram r))\<rparr>"

lemma pending_read:
  assumes "db_wf d"
  shows "rows_map pending_of_row (map (\<lambda>r. r\<lparr>vr_status := Allocating\<rparr>) (returned_rows ids (t_vms d))) =
    Inr (map pending_info (returned_rows ids (t_vms d)))"
proof -
  let ?a = "\<lambda>r::vm_row. r\<lparr>vr_status := Allocating\<rparr>" and ?rows = "returned_rows ids (t_vms d)"
  have "pending_of_row (?a r) = Inr (pending_info (?a r))" if r: "r \<in> set ?rows" for r
  proof -
    have "vm_ok r" using assms returned_rowsD [OF r] by (simp add: db_wf_def)
    then have "0 \<le> vr_cpu r" "0 \<le> vr_ram r" by (simp_all add: vm_ok_def)
    then show ?thesis by (simp add: pending_of_row_def row_capacity_ok pending_info_def)
  qed
  then have "rows_map pending_of_row (map ?a ?rows) = Inr (map pending_info (map ?a ?rows))"
    by (intro rows_map_total) auto
  then show ?thesis by (simp add: comp_def pending_info_def)
qed

lemma getVmsToAllocate_run:
  assumes "faults p = []" and wf: "db_wf (committed p)" and n: "uint n < 2 ^ 63"
  shows "\<exists>infos p'. getVmsToAllocate scan n p = (Returned (Inr infos), p') \<and> faults p' = [] \<and>
     map ap_id infos = select_limit scan PendingAllocation n (committed p) \<and>
     (\<forall>info \<in> set infos. \<exists>r \<in> set (t_vms (committed p)). vr_id r = ap_id info \<and>
        ap_capacity info = SlotCapacity (of_int (vr_cpu r)) (of_int (vr_ram r))) \<and>
     t_vms (committed p') = map (\<lambda>r. if vr_id r \<in> ap_id ` set infos
        then r\<lparr>vr_status := Allocating, vr_last_status_update := pg_now p\<rparr> else r) (t_vms (committed p)) \<and>
     pending_ids (committed p') = filter (\<lambda>v. v \<notin> ap_id ` set infos) (pending_ids (committed p))"
proof -
  let ?d = "committed p"
  define ids where "ids = select_limit scan PendingAllocation n ?d"
  let ?infos = "map pending_info (returned_rows ids (t_vms ?d))"
  obtain d' where stmt: "take_vms scan PendingAllocation Allocating n (pg_now p) ?d =
      Inr (map (\<lambda>r. r\<lparr>vr_status := Allocating\<rparr>) (returned_rows ids (t_vms ?d)), d')"
    and d': "t_vms d' = taken_vms ids (pg_now p) ?d"
    using take_pending [OF wf n] unfolding ids_def by blast
  have run: "getVmsToAllocate scan n p = (Returned (Inr ?infos), \<lparr>committed = d', pg_now = pg_now p, faults = []\<rparr>)"
    using assms(1) stmt pending_read [OF wf]
    by (simp add: getVmsToAllocate_def execWritableQuery_def read_rows_def tx_run begin_txn_def end_txn_def)
  have "distinct (map vr_id (t_vms ?d))" using wf by (simp add: db_wf_def)
  moreover have "set ids \<subseteq> vr_id ` set (t_vms ?d)"
    unfolding ids_def by (blast elim: select_limit_row)
  ultimately have ids: "map ap_id ?infos = ids" by (simp add: comp_def pending_info_def returned_rows_ids)
  then have "ap_id ` set ?infos = set ids" by (metis list.set_map)
  with run ids d' taken_pending [OF d'] show ?thesis unfolding ids_def [symmetric]
    by (intro exI [of _ ?infos] exI [of _ "\<lparr>committed = d', pg_now = pg_now p, faults = []\<rparr>"])
       (auto simp: taken_vms_def pending_info_def dest!: returned_rowsD)
qed

text \<open>
  C18. Without faults, asking for at most \<open>n\<close> VMs to allocate succeeds, whatever rows the server's scan
  comes across and in whatever order: it returns \<open>n\<close> different VMs of those that wait and are not
  locked, or all of them when there are fewer, with the sizes of their rows; it marks exactly these as allocating
  and leaves every other row alone. So what it returned no longer waits, and asking again returns other VMs only.
\<close>

theorem getVmsToAllocate_once:
  assumes "faults p = []" and "db_wf (committed p)" and "uint n < 2 ^ 63"
  shows "\<exists>infos p'. getVmsToAllocate scan n p = (Returned (Inr infos), p') \<and>
     distinct (map ap_id infos) \<and> ap_id ` set infos \<subseteq> set scan \<inter> set (pending_ids (committed p)) \<and>
     length infos = min (unat n) (card (set scan \<inter> set (pending_ids (committed p)))) \<and>
     (\<forall>info \<in> set infos. \<exists>r \<in> set (t_vms (committed p)). vr_id r = ap_id info \<and>
        ap_capacity info = SlotCapacity (of_int (vr_cpu r)) (of_int (vr_ram r))) \<and>
     t_vms (committed p') = map (\<lambda>r. if vr_id r \<in> ap_id ` set infos
        then r\<lparr>vr_status := Allocating, vr_last_status_update := pg_now p\<rparr> else r) (t_vms (committed p)) \<and>
     pending_ids (committed p') = filter (\<lambda>v. v \<notin> ap_id ` set infos) (pending_ids (committed p))"
proof -
  obtain infos p' where run: "getVmsToAllocate scan n p = (Returned (Inr infos), p')"
    and ids: "map ap_id infos = select_limit scan PendingAllocation n (committed p)"
    and rest: "\<forall>info \<in> set infos. \<exists>r \<in> set (t_vms (committed p)). vr_id r = ap_id info \<and>
        ap_capacity info = SlotCapacity (of_int (vr_cpu r)) (of_int (vr_ram r))"
      "t_vms (committed p') = map (\<lambda>r. if vr_id r \<in> ap_id ` set infos
        then r\<lparr>vr_status := Allocating, vr_last_status_update := pg_now p\<rparr> else r) (t_vms (committed p))"
      "pending_ids (committed p') = filter (\<lambda>v. v \<notin> ap_id ` set infos) (pending_ids (committed p))"
    using getVmsToAllocate_run [OF assms] by blast
  have "distinct (map ap_id infos)" unfolding ids by (rule select_limit_distinct)
  moreover have "ap_id ` set infos \<subseteq> set scan \<inter> set (pending_ids (committed p))"
    using select_limit_pending [of scan n "committed p"] unfolding ids [symmetric] by simp
  moreover have "length infos = min (unat n) (card (set scan \<inter> set (pending_ids (committed p))))"
    using select_limit_length [of scan n "committed p"] unfolding ids [symmetric] by simp
  ultimately show ?thesis using run rest by blast
qed

theorem getVmsToAllocate_once_witness:
  "\<exists>infos p'. getVmsToAllocate [2, 1] 5 ex_scheduled = (Returned (Inr infos), p') \<and> map ap_id infos = [1] \<and>
     pending_ids (committed p') = []"
proof -
  have pend: "pending_ids (committed ex_scheduled) = [1]" by code_simp
  from getVmsToAllocate_once [OF ex_scheduled_faults ex_scheduled_wf, of 5 "[2, 1]"] obtain infos p' where
    run: "getVmsToAllocate [2, 1] 5 ex_scheduled = (Returned (Inr infos), p')" and
    ids: "ap_id ` set infos \<subseteq> set [2, 1] \<inter> set (pending_ids (committed ex_scheduled))"
      "length infos = min (unat (5 :: size_t)) (card (set [2, 1] \<inter> set (pending_ids (committed ex_scheduled))))" and
    left: "pending_ids (committed p') = filter (\<lambda>v. v \<notin> ap_id ` set infos) (pending_ids (committed ex_scheduled))"
    by auto
  have "length infos = 1" using ids(2) unfolding pend by simp
  then obtain info where "infos = [info]" by (cases infos) auto
  with run ids(1) left pend show ?thesis by simp
qed

end
