(* ===== verification/PlanRounds.thy ===== *)
theory PlanRounds
  imports StorageSpec
begin

text \<open>
  Rounds of several schedulers on one database: who writes the plans, and when a round starts.
\<close>

section \<open>Who writes the plan table\<close>

definition plan_kept :: "db \<Rightarrow> db \<Rightarrow> bool" where
  "plan_kept d d' \<longleftrightarrow> t_plan d' = t_plan d \<and> next_plan (seqs d') = next_plan (seqs d)"

interpretation plan_rel: write_relation plan_kept
proof
  show "plan_kept d d" for d by (simp add: plan_kept_def)
  show "plan_kept a b \<Longrightarrow> plan_kept b c \<Longrightarrow> plan_kept a c" for a b c by (simp add: plan_kept_def)
  show "plan_kept d d' \<Longrightarrow> plan_kept d (d\<lparr>seqs := seqs d'\<rparr>)" for d d' by (simp add: plan_kept_def)
qed (auto simp: stmt_keeps_def plan_kept_def elim!: update_vmsE update_jobsE release_stmtE insert_taskE insert_jobsE)

section \<open>Starting a round\<close>

lemma checkLeader_plan:
  assumes "checkLeader n t = (r, t')" and "txn_status t' = Active"
  shows "t_plan (work t') = t_plan (work t) \<and> seqs (work t') = seqs (work t) \<and> pg_now t' = pg_now t"
  using assms unfolding checkLeader_def
  by (auto simp: tx_try_def tx_bind_def tx_return_def tx_lift_def execQuery_def max_lock_def insert_lock_def Let_def
      split: if_splits fault.splits prod.splits sum.splits)

lemma planWasRecentlyUpdated_success:
  assumes "planWasRecentlyUpdated interval t = (Inr (Inr b), t')"
  shows "work t' = work t \<and> pg_now t' = pg_now t \<and> txn_status t = Active \<and>
     (b \<longleftrightarrow> last_updated (work t) + seconds interval > pg_now t)"
  using assms unfolding planWasRecentlyUpdated_def
  by (auto simp: tx_try_def tx_bind_def tx_return_def execQuery_def last_activity_def Let_def failure_prefix_def
      split: if_splits fault.splits prod.splits sum.splits)

lemma insertNewPlanRecord_success:
  assumes "insertNewPlanRecord b t = (Inr (Inr plan), t')"
  shows "plan = next_plan (seqs (work t)) \<and> t_plan (committed t') = t_plan (work t) @
     [\<lparr>pr_id = plan, pr_created = pg_now t, pr_updated = pg_now t, pr_backend_id = b\<rparr>]"
  using assms unfolding insertNewPlanRecord_def
  by (auto simp: tx_try_def tx_bind_def tx_return_def tx_commit_def execQuery_def insert_plan_def Let_def failure_prefix_def
      split: if_splits fault.splits prod.splits sum.splits)

lemma startScheduling_success:
  assumes "startScheduling b interval lock p = (Returned (Inr plan), p')"
  shows "last_updated (committed p) + seconds interval \<le> pg_now p \<and> plan = next_plan (seqs (committed p)) \<and>
     t_plan (committed p') = t_plan (committed p) @
       [\<lparr>pr_id = plan, pr_created = pg_now p, pr_updated = pg_now p, pr_backend_id = b\<rparr>]"
proof -
  let ?rest = "\<lambda>recent. if recent
        then tx_bind tx_commit (\<lambda>_. tx_return (Inl (SchedulingCancelled
               ''The plan was recently updated, new scheduling is not needed yet'')))
        else insertNewPlanRecord b"
  let ?leader = "case lock of Some n \<Rightarrow> checkLeader n | None \<Rightarrow> tx_return (Inr ())"
  obtain t where t: "tx_bind_result (tx_try (tx_bind (execQuery lock_plan) (\<lambda>_. tx_return (Inr ()))) (acquireLock_failure (lock = None)))
      (\<lambda>_. tx_bind ?leader (\<lambda>_. tx_bind_result (planWasRecentlyUpdated interval) ?rest)) (begin_txn p) = (Inr (Inr plan), t)"
    and p': "p' = end_txn t"
    using assms unfolding startScheduling_def acquireLock_def by (rule run_txn_success) auto
  obtain t0 where lk: "tx_try (tx_bind (execQuery lock_plan) (\<lambda>_. tx_return (Inr ()))) (acquireLock_failure (lock = None))
        (begin_txn p) = (Inr (Inr ()), t0)"
    and t1: "tx_bind ?leader (\<lambda>_. tx_bind_result (planWasRecentlyUpdated interval) ?rest) t0 = (Inr (Inr plan), t)"
    using t by (rule tx_bind_result_success) simp
  have t0: "work t0 = committed p" "pg_now t0 = pg_now p"
    using tx_try_success [OF lk acquireLock_failure_ne]
    by (auto simp: tx_bind_def tx_return_def lock_plan_def split: prod.splits sum.splits dest!: execQuery_success)
  obtain x u where lead: "?leader t0 = (Inr x, u)" and
    rest: "tx_bind_result (planWasRecentlyUpdated interval) ?rest u = (Inr (Inr plan), t)"
    using t1 by (rule tx_bind_success)
  obtain recent w where rec: "planWasRecentlyUpdated interval u = (Inr (Inr recent), w)" and ins: "?rest recent w = (Inr (Inr plan), t)"
    using rest by (rule tx_bind_result_success)
  note W = planWasRecentlyUpdated_success [OF rec]
  have u: "t_plan (work u) = t_plan (work t0)" "seqs (work u) = seqs (work t0)" "pg_now u = pg_now t0"
    using lead checkLeader_plan [of _ t0] W by (auto simp: tx_return_def split: option.splits)
  have "\<not> recent" using ins by (auto simp: tx_bind_def tx_return_def split: prod.splits sum.splits if_splits)
  with ins have "insertNewPlanRecord b w = (Inr (Inr plan), t)" by simp
  from insertNewPlanRecord_success [OF this] W u t0 \<open>\<not> recent\<close> show ?thesis
    by (simp add: p' end_txn_def last_updated_def)
qed

text \<open>
  C29. A round starts only when the plan was last touched at least one scheduling interval ago, and it
  adds exactly one plan, with a new number and the time of the start.
\<close>

theorem startScheduling_paced:
  assumes "startScheduling b interval lock p = (Returned (Inr plan), p')"
  shows "last_updated (committed p) + seconds interval \<le> pg_now p \<and> plan = next_plan (seqs (committed p)) \<and>
     t_plan (committed p') = t_plan (committed p) @
       [\<lparr>pr_id = plan, pr_created = pg_now p, pr_updated = pg_now p, pr_backend_id = b\<rparr>]"
  by (rule startScheduling_success [OF assms])

theorem startScheduling_paced_witness:
  "\<exists>p'. startScheduling ''b'' 40 (Some 7) ex_pg = (Returned (Inr 1), p') \<and>
     t_plan (committed p') = [\<lparr>pr_id = 1, pr_created = 100000000, pr_updated = 100000000, pr_backend_id = ''b''\<rparr>]"
proof -
  have run: "fst (startScheduling ''b'' 40 (Some 7) ex_pg) = Returned (Inr 1)" by code_simp
  then obtain p' where p': "startScheduling ''b'' 40 (Some 7) ex_pg = (Returned (Inr 1), p')" by (metis prod.collapse)
  from startScheduling_paced [OF this] have "t_plan (committed p') =
      [\<lparr>pr_id = 1, pr_created = 100000000, pr_updated = 100000000, pr_backend_id = ''b''\<rparr>]"
    by (simp add: ex_pg_def empty_db_def)
  with p' show ?thesis by blast
qed

section \<open>The newest plan\<close>

lemma last_updated_snoc:
  assumes "\<forall>r \<in> set (t_plan d). pr_updated r \<le> n" and "t_plan d' = t_plan d @ [r]" and "pr_updated r = n"
  shows "last_updated d' = n"
proof -
  have "fold max us (u::int) \<le> n" if "u \<le> n" "\<forall>x \<in> set us. x \<le> n" for u us
    using that by (induction us arbitrary: u) (simp_all add: max_def)
  then have "fold max (map pr_updated rs) (pr_updated q) \<le> n" if "t_plan d = q # rs" for q rs
    using assms(1) that by simp
  then show ?thesis
    using assms by (cases "t_plan d") (auto simp: last_updated_def max_def)
qed

end
