(* ===== verification/SchedulingProgress.thy ===== *)
theory SchedulingProgress
  imports PlanRounds StorageAgentSpec
begin

text \<open>
  Progress: a scheduling round that nothing disturbs does its work. The steps of the round are
  taken as total-correctness triples, so that the round is shown to return, to commit, and to leave
  no queued job behind.
\<close>

section \<open>Steps that succeed\<close>

text \<open>
  From working tables with \<open>Q\<close>, and without faults, \<open>m\<close> returns a value \<open>x\<close>, leaves the transaction open
  and the working tables in \<open>Q' x\<close>.
\<close>

definition delivers :: "int \<Rightarrow> (db \<Rightarrow> bool) \<Rightarrow> 'a result tx \<Rightarrow> ('a \<Rightarrow> db \<Rightarrow> bool) \<Rightarrow> bool" where
  "delivers now Q m Q' \<longleftrightarrow> (\<forall>t. faults t = [] \<longrightarrow> txn_status t = Active \<longrightarrow> pg_now t = now \<longrightarrow> Q (work t) \<longrightarrow>
     (\<exists>x t'. m t = (Inr (Inr x), t') \<and> faults t' = [] \<and> txn_status t' = Active \<and> pg_now t' = now \<and> Q' x (work t')))"

lemma delivers_bind:
  assumes "delivers now Q m Q1" and "\<And>x. delivers now (Q1 x) (f x) Q2"
  shows "delivers now Q (tx_bind_result m f) Q2"
  using assms unfolding delivers_def tx_bind_result_def tx_bind_def by fastforce

lemma delivers_exec:
  assumes "\<And>d. Q d \<Longrightarrow> \<exists>r d'. q now d = Inr (r, d') \<and> Q' (g r) d'"
  shows "delivers now Q (tx_try (tx_bind (execQuery q) (\<lambda>x. tx_return (Inr (g x)))) h) Q'"
  unfolding delivers_def
proof (intro allI impI)
  fix t :: txn assume t: "faults t = []" "txn_status t = Active" "pg_now t = now" "Q (work t)"
  obtain r d' where "q (pg_now t) (work t) = Inr (r, d')" "Q' (g r) d'" using assms [OF t(4)] t(3) by blast
  with t show "\<exists>x t'. tx_try (tx_bind (execQuery q) (\<lambda>x. tx_return (Inr (g x)))) h t = (Inr (Inr x), t') \<and>
      faults t' = [] \<and> txn_status t' = Active \<and> pg_now t' = now \<and> Q' x (work t')"
    by (simp add: tx_run)
qed

lemma delivers_return: "(\<And>d. Q d \<Longrightarrow> Q' x d) \<Longrightarrow> delivers now Q (tx_return (Inr x)) Q'"
  by (simp add: delivers_def tx_return_def)

lemma delivers_weaken:
  assumes "delivers now P m P'" and "\<And>d. Q d \<Longrightarrow> P d" and "\<And>x d d0. Q d0 \<Longrightarrow> P' x d \<Longrightarrow> Q' x d"
  shows "delivers now Q m Q'"
  using assms unfolding delivers_def by metis

text \<open>The same for what ends the transaction.\<close>

definition completes :: "int \<Rightarrow> (db \<Rightarrow> bool) \<Rightarrow> 'a result tx \<Rightarrow> bool" where
  "completes now Q m \<longleftrightarrow> (\<forall>t. faults t = [] \<longrightarrow> txn_status t = Active \<longrightarrow> pg_now t = now \<longrightarrow> Q (work t) \<longrightarrow>
     (\<exists>x t'. m t = (Inr (Inr x), t') \<and> faults t' = []))"

lemma completes_bind:
  assumes "delivers now Q m Q1" and "\<And>x. completes now (Q1 x) (f x)"
  shows "completes now Q (tx_bind_result m f)"
  using assms unfolding completes_def delivers_def tx_bind_result_def tx_bind_def by fastforce

lemma completes_commit: "completes now Q (tx_try (tx_bind tx_commit (\<lambda>_. tx_return (Inr x))) h)"
  by (simp add: completes_def tx_run)

lemma completes_run:
  assumes "completes (pg_now p) Q body" and "faults p = []" and "Q (committed p)"
  shows "\<exists>x p'. run_txn h body p = (Returned (Inr x), p') \<and> faults p' = []"
proof -
  obtain x t where "body (begin_txn p) = (Inr (Inr x), t)" "faults t = []"
    using assms unfolding completes_def by (metis begin_txn_faults begin_txn_simps)
  then show ?thesis using assms(2) by (simp add: run_txn_ok end_txn_def)
qed

section \<open>Committing a plan\<close>

text \<open>What the commit of a change relies on in the tables it works on.\<close>

definition room_for :: "nat \<Rightarrow> db \<Rightarrow> bool" where
  "room_for k d \<longleftrightarrow> 0 \<le> next_vm (seqs d) \<and> next_vm (seqs d) + int k \<le> 2 ^ 31"

fun target_in :: "VmId set \<Rightarrow> DesiredSlotId set \<Rightarrow> VmInfo \<Rightarrow> bool" where
  "target_in V S (ExistingVm v) = (v \<in> V)"
| "target_in V S (DesiredVm i) = (i \<in> S)"

definition ready_for :: "StateChange \<Rightarrow> db \<Rightarrow> bool" where
  "ready_for ch d \<longleftrightarrow> db_wf d \<and> change_now ch d \<and> (\<forall>(i, s) \<in> set (desiredSlotMap ch). cap_ok (total s)) \<and>
     (\<forall>(j, x) \<in> set (jobToVm ch). target_in (vr_id ` set (t_vms d)) (keys (desiredSlotMap ch)) x)"

lemma target_in_mono: "target_in V S x \<Longrightarrow> V \<subseteq> V' \<Longrightarrow> target_in V' S x"
  by (cases x) auto

lemma int4_uint: "unat w < 2 ^ 31 \<Longrightarrow> int4 (uint w)" for w :: size_t
proof -
  assume "unat w < 2 ^ 31"
  then have "uint w < 2 ^ 31" by (rule uint_less_of_unat)
  moreover have "- (2 ^ 31) \<le> uint w" by (rule order_trans [of _ 0]) simp_all
  ultimately show ?thesis by (simp only: int4_def)
qed

lemma cap_ok_int4: "cap_ok c \<Longrightarrow> int4 (uint (cpu c)) \<and> int4 (uint (ram c))"
  by (simp only: cap_ok_def int4_uint)

lemma int4_below: "int4 b \<Longrightarrow> 0 \<le> a \<Longrightarrow> a \<le> b \<Longrightarrow> int4 a"
  by (simp add: int4_def)

lemma ready_update_vms:
  assumes up: "update_vms c a n d = Inr (rows, d')" and keep: "\<And>r. vr_id (a r) = vr_id r \<and> vr_cpu (a r) = vr_cpu r \<and> vr_ram (a r) = vr_ram r"
    and wf: "wf_step d d'" and ready: "ready_for ch d"
  shows "ready_for ch d' \<and> seqs d' = seqs d"
proof -
  have "seqs d' = seqs d" using up by (rule update_vmsE) simp
  moreover have "map vr_id (t_vms d') = map vr_id (t_vms d)" using update_vms_frame [OF up] keep by simp
  then have "vr_id ` set (t_vms d') = vr_id ` set (t_vms d)" by (metis list.set_map)
  ultimately show ?thesis
    using change_ok_update_vms [OF up keep, of ch] wf ready by (simp add: ready_for_def change_now_def wf_step_def)
qed

lemma terminateVms_delivers:
  "delivers now (\<lambda>d. ready_for ch d \<and> room_for k d) (terminateVms (vmsToTerminate ch)) (\<lambda>_ d. ready_for ch d \<and> room_for k d)"
proof -
  let ?c = "\<lambda>r. vr_id r \<in> set (vmsToTerminate ch)" and ?a = "\<lambda>r::vm_row. r\<lparr>vr_status := PendingTermination\<rparr>"
  have "\<exists>rows d'. update_vms ?c ?a n d = Inr (rows, d') \<and> ready_for ch d' \<and> room_for k d'"
    if d: "ready_for ch d \<and> room_for k d" for n d
  proof -
    have "vm_row_ok (?a r)" if "r \<in> set (t_vms d)" for r
      using d that by (auto simp: ready_for_def db_wf_def vm_ok_def vm_row_ok_def)
    then obtain rows d' where up: "update_vms ?c ?a n d = Inr (rows, d')" using update_vms_ok [of d ?c ?a n] by blast
    have "wf_step d d'" by (rule wf_update_vms [OF up]) (auto simp: vm_ok_def)
    with ready_update_vms [OF up] d up show ?thesis by (auto simp: room_for_def)
  qed
  then show ?thesis
    unfolding terminateVms_def by (auto intro!: delivers_return delivers_exec)
qed

lemma updateVmCapacities_delivers:
  "delivers now (\<lambda>d. ready_for ch d \<and> room_for k d) (updateVmCapacities (updatedIdleCapacities ch))
     (\<lambda>_ d. ready_for ch d \<and> room_for k d)"
proof -
  let ?m = "updatedIdleCapacities ch"
  let ?c = "\<lambda>r. vr_id r \<in> keys ?m"
  have "\<exists>rows d'. update_vms ?c (set_idle ?m) n d = Inr (rows, d') \<and> ready_for ch d' \<and> room_for k d'"
    if d: "ready_for ch d \<and> room_for k d" for n d
  proof -
    have "vm_row_ok (set_idle ?m r)" if r: "r \<in> set (t_vms d)" for r
    proof (cases "map_of ?m (vr_id r)")
      case (Some c)
      have "uint (cpu c) \<le> vr_cpu r \<and> uint (ram c) \<le> vr_ram r"
        using d r map_of_SomeD [OF Some] by (fastforce simp: ready_for_def change_now_def change_ok_def)
      moreover have "vm_row_ok r" using d r by (auto simp: ready_for_def db_wf_def vm_ok_def)
      ultimately show ?thesis using Some int4_below by (auto simp: vm_row_ok_def set_idle_def)
    next
      case None
      then show ?thesis using d r by (auto simp: ready_for_def db_wf_def vm_ok_def set_idle_def)
    qed
    then obtain rows d' where up: "update_vms ?c (set_idle ?m) n d = Inr (rows, d')"
      using update_vms_ok [of d ?c "set_idle ?m" n] by blast
    have "wf_step d d'" using d by (intro wf_set_idle [OF up refl]) (simp add: ready_for_def change_now_def)
    with ready_update_vms [OF up] d up show ?thesis by (auto simp: room_for_def)
  qed
  then show ?thesis
    unfolding updateVmCapacities_def by (auto intro!: delivers_return delivers_exec)
qed

lemma insert_vm_delivers:
  assumes d: "ready_for ch d" "room_for (Suc k) d" and slot: "(i, slot) \<in> set (desiredSlotMap ch)"
  obtains v d' where "insert_vm slot n d = Inr (v, d')" "ready_for ch d'" "room_for k d'"
    "vr_id ` set (t_vms d') = insert v (vr_id ` set (t_vms d))"
proof -
  let ?v = "next_vm (seqs d)"
  have fit: "cap_ok (total slot)" "fits (idle slot) (total slot)"
    using d slot by (auto simp: ready_for_def change_now_def change_ok_def)
  then have "cap_ok (idle slot)" using cap_ok_fits by blast
  with fit have ok: "vm_row_ok (new_vm_row ?v slot n)"
    using d(2) cap_ok_int4 [of "idle slot"] cap_ok_int4 [of "total slot"]
    by (simp add: vm_row_ok_def new_vm_row_def) (simp add: int4_def room_for_def)
  define d' where "d' = d\<lparr>t_vms := t_vms d @ [new_vm_row ?v slot n], t_vm_log := t_vm_log d @ [(?v, PendingAllocation, n)],
            seqs := (seqs d)\<lparr>next_vm := ?v + 1\<rparr>\<rparr>"
  have ins: "insert_vm slot n d = Inr (?v, d')" using ok by (simp add: insert_vm_def d'_def Let_def)
  have "db_wf d'" using wf_insert_vm [OF ins fit(2)] d(1) by (simp add: wf_step_def ready_for_def)
  moreover have "change_now ch d'" using change_ok_insert_vm [OF ins] d(1) by (simp add: ready_for_def)
  moreover have ids: "vr_id ` set (t_vms d') = insert ?v (vr_id ` set (t_vms d))" by (simp add: d'_def new_vm_row_def)
  moreover have "target_in (vr_id ` set (t_vms d')) S x" if "target_in (vr_id ` set (t_vms d)) S x" for S x
    using that by (rule target_in_mono) (auto simp: ids)
  ultimately have "ready_for ch d'" using d(1) unfolding ready_for_def by blast
  moreover have "room_for k d'" using d(2) by (simp add: room_for_def d'_def)
  ultimately show thesis using that ins ids by blast
qed

lemma allocate_loop_delivers:
  assumes "set m \<subseteq> set (desiredSlotMap ch)"
  shows "delivers now (\<lambda>d. ready_for ch d \<and> room_for (length m) d \<and> (\<forall>v \<in> ran (map_of acc). v \<in> vr_id ` set (t_vms d)))
     (allocate_loop m acc)
     (\<lambda>s d. ready_for ch d \<and> keys acc \<union> keys m \<subseteq> keys s \<and> (\<forall>v \<in> ran (map_of s). v \<in> vr_id ` set (t_vms d)))"
  using assms
proof (induction m acc rule: allocate_loop.induct)
  case (1 acc)
  then show ?case by (auto intro: delivers_return)
next
  case (2 i slot rest acc)
  let ?Q = "\<lambda>acc' d. ready_for ch d \<and> room_for (length rest) d \<and> insert i (keys acc) \<subseteq> keys acc' \<and>
     (\<forall>v \<in> ran (map_of acc'). v \<in> vr_id ` set (t_vms d))"
  have one: "delivers now (\<lambda>d. ready_for ch d \<and> room_for (length ((i, slot) # rest)) d \<and> (\<forall>v \<in> ran (map_of acc). v \<in> vr_id ` set (t_vms d)))
     (tx_try (tx_bind (execQuery (insert_vm slot)) (\<lambda>v. tx_return (Inr (umap_emplace i v acc)))) h) ?Q" for h
  proof (rule delivers_exec)
    fix d
    assume d: "ready_for ch d \<and> room_for (length ((i, slot) # rest)) d \<and> (\<forall>v \<in> ran (map_of acc). v \<in> vr_id ` set (t_vms d))"
    obtain v d' where ins: "insert_vm slot now d = Inr (v, d')" "ready_for ch d'" "room_for (length rest) d'"
      "vr_id ` set (t_vms d') = insert v (vr_id ` set (t_vms d))"
      using insert_vm_delivers [of ch d "length rest" i slot now] d "2.prems" by auto
    have "ran (map_of (umap_emplace i v acc)) \<subseteq> insert v (ran (map_of acc))"
      by (auto simp: map_of_umap_emplace ran_def split: if_splits)
    with ins d show "\<exists>r d'. insert_vm slot now d = Inr (r, d') \<and> ?Q (umap_emplace i r acc) d'"
      by (intro exI [of _ v] exI [of _ d']) auto
  qed
  have rest: "delivers now (?Q acc') (allocate_loop rest acc') (\<lambda>s d. ready_for ch d \<and> keys acc \<union> keys ((i, slot) # rest) \<subseteq> keys s \<and>
      (\<forall>v \<in> ran (map_of s). v \<in> vr_id ` set (t_vms d)))" for acc'
  proof -
    have "delivers now (\<lambda>d. ready_for ch d \<and> room_for (length rest) d \<and> (\<forall>v \<in> ran (map_of acc'). v \<in> vr_id ` set (t_vms d)))
      (allocate_loop rest acc') (\<lambda>s d. ready_for ch d \<and> keys acc' \<union> keys rest \<subseteq> keys s \<and>
      (\<forall>v \<in> ran (map_of s). v \<in> vr_id ` set (t_vms d)))" using "2.IH" "2.prems" by simp
    then show ?thesis
    proof (rule delivers_weaken)
      fix s d d0
      assume a: "?Q acc' d0" and b: "ready_for ch d \<and> keys acc' \<union> keys rest \<subseteq> keys s \<and>
        (\<forall>v \<in> ran (map_of s). v \<in> vr_id ` set (t_vms d))"
      have "insert i (keys acc) \<subseteq> keys acc'" "keys acc' \<subseteq> keys s" using a b by simp_all
      then have "insert i (keys acc) \<subseteq> keys s" by (rule subset_trans)
      with b show "ready_for ch d \<and> keys acc \<union> keys ((i, slot) # rest) \<subseteq> keys s \<and>
        (\<forall>v \<in> ran (map_of s). v \<in> vr_id ` set (t_vms d))" by simp
    qed simp
  qed
  show ?case unfolding allocate_loop.simps by (rule delivers_bind [OF one rest])
qed

lemma ready_target:
  "ready_for ch d \<Longrightarrow> (j, x) \<in> set (jobToVm ch) \<Longrightarrow> target_in (vr_id ` set (t_vms d)) (keys (desiredSlotMap ch)) x"
  unfolding ready_for_def by blast

lemma applyJobVmAssignments_delivers:
  "delivers now (\<lambda>d. ready_for ch d \<and> keys (desiredSlotMap ch) \<subseteq> keys s \<and> (\<forall>v \<in> ran (map_of s). v \<in> vr_id ` set (t_vms d)))
     (applyJobVmAssignments (jobToVm ch) s) (\<lambda>_ _. True)"
proof (cases "jobToVm ch = []")
  case False
  let ?m = "jobToVm ch"
  let ?P = "\<lambda>d. ready_for ch d \<and> keys (desiredSlotMap ch) \<subseteq> keys s \<and> (\<forall>v \<in> ran (map_of s). v \<in> vr_id ` set (t_vms d))"
  have target: "\<exists>v \<in> vr_id ` set (t_vms d). assignment_target s x = Some v" if d: "?P d" and jx: "(j, x) \<in> set ?m" for d j x
  proof (cases x)
    case (ExistingVm v)
    then show ?thesis using ready_target [OF _ jx, of d] d by simp
  next
    case (DesiredVm i)
    then have "i \<in> keys (desiredSlotMap ch)" using ready_target [OF _ jx, of d] d by simp
    moreover have "keys (desiredSlotMap ch) \<subseteq> keys s" using d by simp
    ultimately have "i \<in> keys s" by (rule set_rev_mp)
    then obtain v where "map_of s i = Some v" by (rule exE [OF keys_map_of])
    then show ?thesis using DesiredVm d by (auto simp: ran_def)
  qed
  let ?a = "assign_job (\<lambda>j. Option.bind (map_of ?m j) (assignment_target s))"
  have run: "\<exists>rows d'. update_jobs (\<lambda>r. jr_id r \<in> keys ?m) ?a n d = Inr (rows, d')" if d: "?P d" for n d
  proof -
    have "job_row_ok (?a r) \<and> job_fk_ok d (?a r)" if r: "r \<in> set (t_jobs d)" "jr_id r \<in> keys ?m" for r
    proof -
      obtain x where x: "map_of ?m (jr_id r) = Some x" using keys_map_of [OF r(2)] by blast
      then obtain v where "v \<in> vr_id ` set (t_vms d)" "assignment_target s x = Some v"
        using target [OF d map_of_SomeD] by blast
      moreover have "job_row_ok r \<and> job_fk_ok d r" using d r(1) by (auto simp: ready_for_def db_wf_def job_ok_def)
      ultimately show ?thesis using x by (simp add: job_row_ok_def job_fk_ok_def)
    qed
    then show ?thesis using update_jobs_ok [of d "\<lambda>r. jr_id r \<in> keys ?m" ?a n] by blast
  qed
  show ?thesis
  proof (cases "\<exists>(j, x) \<in> set ?m. assignment_target s x = None")
    case True
    then show ?thesis using target by (fastforce simp: delivers_def)
  next
    case no_gap: False
    have "delivers now ?P (tx_try (tx_bind (execQuery (update_jobs (\<lambda>r. jr_id r \<in> keys ?m) ?a)) (\<lambda>_. tx_return (Inr ()))) h) (\<lambda>_ _. True)" for h
      by (rule delivers_exec) (use run in blast)
    then show ?thesis using no_gap False by (simp add: applyJobVmAssignments_def)
  qed
qed (simp add: applyJobVmAssignments_def delivers_return)

text \<open>The jobs and VMs a change was computed for are still as they were.\<close>

definition no_conflict :: "StateChange \<Rightarrow> db \<Rightarrow> bool" where
  "no_conflict ch d \<longleftrightarrow> jobs_free ch d \<and>
     (\<forall>r \<in> set (t_vms d). vr_id r \<in> keys (updatedIdleCapacities ch) \<longrightarrow> vr_status r \<in> getActiveVmStatuses)"

lemma checkConflicts_delivers:
  "delivers now (\<lambda>d. no_conflict ch d \<and> P d) (checkConflicts ch) (\<lambda>_ d. P d)"
  unfolding delivers_def
proof (intro allI impI)
  fix t :: txn assume t: "faults t = []" "txn_status t = Active" "pg_now t = now" "no_conflict ch (work t) \<and> P (work t)"
  have 1: "find (\<lambda>(i, s). s \<in> getFinalJobStatuses) (map (\<lambda>r. (jr_id r, jr_status r))
      (filter (\<lambda>r. jr_id r \<in> keys (jobToVm ch)) (t_jobs (work t)))) = None"
    and 2: "find (\<lambda>(i, s). s \<notin> getActiveVmStatuses) (map (\<lambda>r. (vr_id r, vr_status r))
      (filter (\<lambda>r. vr_id r \<in> keys (updatedIdleCapacities ch)) (t_vms (work t)))) = None"
    using t(4) by (auto simp: find_None_iff no_conflict_def jobs_free_def)
  show "\<exists>x t'. checkConflicts ch t = (Inr (Inr x), t') \<and> faults t' = [] \<and> txn_status t' = Active \<and> pg_now t' = now \<and> P (work t')"
    using t 1 2 unfolding checkConflicts_def getJobStatusesWithLock_def getVmStatusesWithLock_def
    by (cases "jobToVm ch = []"; cases "updatedIdleCapacities ch = []")
       (simp_all add: tx_run select_jobs_def select_vms_def)
qed

lemma commit_completes:
  assumes nf: "faults p = []" and newest: "map pr_id (filter (\<lambda>r. pr_updated r = last_updated (committed p)) (t_plan (committed p))) = [plan]"
    and ready: "ready_for ch (committed p)" "room_for (length (desiredSlotMap ch)) (committed p)" "no_conflict ch (committed p)"
  shows "\<exists>p'. commitPlanChange ch plan p = (Returned (Inr ()), p') \<and> faults p' = []"
proof -
  let ?R = "\<lambda>d. ready_for ch d \<and> room_for (length (desiredSlotMap ch)) d"
  let ?N = "\<lambda>d. map pr_id (filter (\<lambda>r. pr_updated r = last_updated d) (t_plan d)) = [plan] \<and> no_conflict ch d \<and> ?R d"
  have 1: "delivers (pg_now p) ?N (tx_try (tx_bind (execQuery lock_plan) (\<lambda>_. tx_return (Inr ()))) (acquireLock_failure False)) (\<lambda>_. ?N)"
    by (rule delivers_exec) (simp add: lock_plan_def)
  have 2: "delivers (pg_now p) ?N (isSchedulingRelevant plan) (\<lambda>b d. b \<and> no_conflict ch d \<and> ?R d)"
    unfolding delivers_def isSchedulingRelevant_def by (auto simp: tx_run newest_plans_def)
  have 3: "delivers (pg_now p) ?R (allocateNewVms (desiredSlotMap ch))
      (\<lambda>s d. ready_for ch d \<and> keys (desiredSlotMap ch) \<subseteq> keys s \<and> (\<forall>v \<in> ran (map_of s). v \<in> vr_id ` set (t_vms d)))"
    using allocate_loop_delivers [OF subset_refl, of "pg_now p" ch "[]"] by (simp add: allocateNewVms_def)
  have 4: "delivers (pg_now p) (\<lambda>_. True) (refreshPlanActivityTs plan) (\<lambda>_ _. True)"
    unfolding refreshPlanActivityTs_def by (rule delivers_exec) (simp add: update_plan_def)
  have rest: "completes (pg_now p) (\<lambda>d. no_conflict ch d \<and> ?R d)
      (tx_bind_result (checkConflicts ch) (\<lambda>_.
       tx_bind_result (terminateVms (vmsToTerminate ch)) (\<lambda>_.
       tx_bind_result (updateVmCapacities (updatedIdleCapacities ch)) (\<lambda>_.
       tx_bind_result (allocateNewVms (desiredSlotMap ch)) (\<lambda>allocatedVms.
       tx_bind_result (applyJobVmAssignments (jobToVm ch) allocatedVms) (\<lambda>_.
       tx_bind_result (refreshPlanActivityTs plan) (\<lambda>_.
       tx_try (tx_bind tx_commit (\<lambda>_. tx_return (Inr ())))
         (failure_prefix ''Unexpected exception while committing plan change: ''))))))))"
    by (intro completes_bind [OF checkConflicts_delivers] completes_bind [OF terminateVms_delivers]
        completes_bind [OF updateVmCapacities_delivers] completes_bind [OF 3] completes_bind [OF applyJobVmAssignments_delivers]
        completes_bind [OF 4] completes_commit)
  have "completes (pg_now p) (\<lambda>d. b \<and> no_conflict ch d \<and> ?R d) (if \<not> b then e else m)"
    if "completes (pg_now p) (\<lambda>d. no_conflict ch d \<and> ?R d) m" for b and e m :: "unit result tx"
    using that by (cases b) (simp_all add: completes_def)
  then have "completes (pg_now p) ?N (commit_locked ch plan)"
    unfolding commit_locked_def by (intro completes_bind [OF 2]) (use rest in blast)
  then have body: "completes (pg_now p) ?N (tx_bind_result (tx_try (tx_bind (execQuery lock_plan) (\<lambda>_. tx_return (Inr ()))) (acquireLock_failure False))
      (\<lambda>_. commit_locked ch plan))"
    by (rule completes_bind [OF 1])
  show ?thesis
    using completes_run [OF body nf] newest ready unfolding commitPlanChange_def acquireLock_def by auto
qed

section \<open>Starting a round and reading the state\<close>

lemma completes_drop:
  assumes "delivers now Q m (\<lambda>_. Q1)" and "completes now Q1 k"
  shows "completes now Q (tx_bind m (\<lambda>_. k))"
  using assms unfolding completes_def delivers_def tx_bind_def by fastforce

definition lock_ok :: "size_t option \<Rightarrow> db \<Rightarrow> bool" where
  "lock_ok lk d \<longleftrightarrow> (case lk of None \<Rightarrow> True | Some n \<Rightarrow> int8 (uint n) \<and> (\<forall>l \<in> set (t_locks d). int8 l))"

text \<open>The round is due, and its plan is the first one at this time.\<close>

definition round_due :: "int \<Rightarrow> pg \<Rightarrow> bool" where
  "round_due interval p \<longleftrightarrow> int4 (next_plan (seqs (committed p))) \<and> last_updated (committed p) + seconds interval \<le> pg_now p \<and>
     (\<forall>r \<in> set (t_plan (committed p)). pr_updated r < pg_now p)"

lemma fold_max_bounds: "fold max xs m \<ge> m \<and> (\<forall>x \<in> set xs. x \<le> fold max xs m) \<and> fold max xs m \<in> insert m (set xs)"
  for m :: int
proof (induction xs arbitrary: m)
  case (Cons x xs)
  from Cons [of "max x m"] show ?case by (auto simp: max_def split: if_splits)
qed simp

lemma checkLeader_delivers:
  assumes "int8 (uint n)"
  shows "delivers now (\<lambda>d. (\<forall>l \<in> set (t_locks d). int8 l) \<and> last_updated d = u \<and> next_plan (seqs d) = k) (checkLeader n)
     (\<lambda>_ d. last_updated d = u \<and> next_plan (seqs d) = k)"
  unfolding delivers_def
proof (intro allI impI)
  fix t :: txn
  assume t: "faults t = []" "txn_status t = Active" "pg_now t = now"
    "(\<forall>l \<in> set (t_locks (work t)). int8 l) \<and> last_updated (work t) = u \<and> next_plan (seqs (work t)) = k"
  define m where "m = fold max (t_locks (work t)) 0"
  have m: "0 \<le> m" "\<forall>l \<in> set (t_locks (work t)). l \<le> m" "m = 0 \<or> m \<in> set (t_locks (work t))"
    using fold_max_bounds [where xs = "t_locks (work t)" and m = 0] by (auto simp: m_def)
  then have "int8 m" using t(4) by (auto simp: int8_def)
  then have um: "uint (of_int m :: size_t) = m" using m(1) by (simp add: uint_word_of_int int8_def)
  have "uint n \<notin> set (t_locks (work t))" if "n > of_int m"
    using that m(2) um by (fastforce simp: word_less_def)
  then show "\<exists>x t'. checkLeader n t = (Inr (Inr x), t') \<and> faults t' = [] \<and> txn_status t' = Active \<and> pg_now t' = now \<and>
      last_updated (work t') = u \<and> next_plan (seqs (work t')) = k"
    using t m(1) assms unfolding checkLeader_def
    by (auto simp: tx_run max_lock_def insert_lock_def as_size_t_def tx_lift_def m_def [symmetric] last_updated_def)
qed

lemma startScheduling_completes:
  assumes nf: "faults p = []" and due: "round_due interval p" and lk: "lock_ok lk (committed p)"
  shows "\<exists>plan p'. startScheduling b interval lk p = (Returned (Inr plan), p') \<and> faults p' = []"
proof -
  let ?D = "\<lambda>d. last_updated d + seconds interval \<le> pg_now p \<and> int4 (next_plan (seqs d))"
  let ?L = "\<lambda>d. lock_ok lk d \<and> ?D d"
  have 1: "delivers (pg_now p) ?L (tx_try (tx_bind (execQuery lock_plan) (\<lambda>_. tx_return (Inr ()))) (acquireLock_failure w)) (\<lambda>_. ?L)" for w
    by (rule delivers_exec) (simp add: lock_plan_def)
  have 2: "delivers (pg_now p) ?L (case lk of Some n \<Rightarrow> checkLeader n | None \<Rightarrow> tx_return (Inr ())) (\<lambda>_. ?D)"
  proof (cases lk)
    case (Some n)
    have "delivers (pg_now p) ?L (checkLeader n) (\<lambda>_. ?D)" if "int8 (uint n)"
      using checkLeader_delivers [OF that, of "pg_now p"] unfolding delivers_def by (fastforce simp: lock_ok_def Some)
    then show ?thesis by (cases "int8 (uint n)") (simp_all add: Some delivers_def lock_ok_def)
  qed (auto intro: delivers_return)
  have 3: "delivers (pg_now p) ?D (planWasRecentlyUpdated interval) (\<lambda>recent d. \<not> recent \<and> ?D d)"
    unfolding delivers_def planWasRecentlyUpdated_def by (auto simp: tx_run last_activity_def)
  have 4: "completes (pg_now p) ?D (insertNewPlanRecord b)"
    by (auto simp: completes_def insertNewPlanRecord_def tx_run insert_plan_def Let_def)
  then have "completes (pg_now p) (\<lambda>d. \<not> recent \<and> ?D d) (if recent then e else insertNewPlanRecord b)" for recent e
    by (cases recent) (simp_all add: completes_def)
  then have "completes (pg_now p) ?L (tx_bind_result (tx_try (tx_bind (execQuery lock_plan) (\<lambda>_. tx_return (Inr ()))) (acquireLock_failure (lk = None)))
      (\<lambda>_. tx_bind (case lk of Some n \<Rightarrow> checkLeader n | None \<Rightarrow> tx_return (Inr ())) (\<lambda>_.
        tx_bind_result (planWasRecentlyUpdated interval) (\<lambda>recent.
        if recent
        then tx_bind tx_commit (\<lambda>_. tx_return (Inl (SchedulingCancelled
               ''The plan was recently updated, new scheduling is not needed yet'')))
        else insertNewPlanRecord b))))"
    by (intro completes_bind [OF 1] completes_drop [OF 2] completes_bind [OF 3])
  from completes_run [OF this nf] show ?thesis
    using due lk unfolding startScheduling_def acquireLock_def round_due_def by auto
qed

lemma queued_of_row_total:
  "job_ok r \<Longrightarrow> \<exists>q. queued_of_row r = Inr q"
  by (simp add: queued_of_row_def row_capacity_def as_size_t_def job_ok_def)

lemma active_of_row_total: "vm_ok r \<Longrightarrow> \<exists>v. active_of_row r = Inr v"
  by (auto simp: active_of_row_def row_capacity_def as_size_t_def vm_ok_def)

lemma rows_map_ex: "(\<And>x. x \<in> set xs \<Longrightarrow> \<exists>y. f x = Inr y) \<Longrightarrow> \<exists>ys. rows_map f xs = Inr ys"
  by (induction xs) (fastforce split: sum.splits)+

lemma getCurrentState_completes:
  assumes "faults p = []" and "db_wf (committed p)"
  shows "\<exists>st. getCurrentState p = (Returned (Inr st), p)"
proof -
  have "\<exists>js. rows_map queued_of_row (filter (\<lambda>r. jr_status r = Queued) (t_jobs (committed p))) = Inr js"
    by (rule rows_map_ex) (use assms(2) queued_of_row_total in \<open>auto simp: db_wf_def\<close>)
  moreover have "\<exists>vs. rows_map active_of_row (filter (\<lambda>r. vr_status r \<in> getActiveVmStatuses) (t_vms (committed p))) = Inr vs"
    by (rule rows_map_ex) (use assms(2) active_of_row_total in \<open>auto simp: db_wf_def\<close>)
  ultimately show ?thesis
    using assms(1) unfolding getCurrentState_def getQueuedJobs_def getActiveVms_def
    by (auto simp: tx_run tx_bind_result_def tx_lift_def select_jobs_def select_vms_def begin_txn_def end_txn_def)
qed

text \<open>Starting a round leaves the VMs, tasks and jobs as they are.\<close>

definition rows_kept :: "db \<Rightarrow> db \<Rightarrow> bool" where
  "rows_kept d d' \<longleftrightarrow> t_vms d' = t_vms d \<and> t_jobs d' = t_jobs d \<and> t_tasks d' = t_tasks d \<and>
     next_vm (seqs d') = next_vm (seqs d)"

interpretation started: plan_relation rows_kept
  by unfold_locales
     (auto simp: rows_kept_def stmt_keeps_def insert_lock_def insert_plan_def Let_def split: if_splits)

lemma started_newest:
  assumes "startScheduling b interval lk p = (Returned (Inr plan), p')" and "\<forall>r \<in> set (t_plan (committed p)). pr_updated r < pg_now p"
  shows "map pr_id (filter (\<lambda>r. pr_updated r = last_updated (committed p')) (t_plan (committed p'))) = [plan]"
proof -
  let ?row = "\<lparr>pr_id = plan, pr_created = pg_now p, pr_updated = pg_now p, pr_backend_id = b\<rparr>"
  have plans: "t_plan (committed p') = t_plan (committed p) @ [?row]" using startScheduling_success [OF assms(1)] by simp
  have "last_updated (committed p') = pg_now p"
    by (rule last_updated_snoc [OF _ plans]) (use assms(2) in force, simp)
  then show ?thesis using assms(2) by (simp add: plans filter_empty_conv) (metis less_irrefl)
qed

section \<open>A round that nothing disturbs\<close>

lemma slots_le_jobs: "covers_jobs st ch \<Longrightarrow> length (desiredSlotMap ch) \<le> length (queuedJobs st)"
proof -
  assume c: "covers_jobs st ch"
  then have "\<forall>i \<in> keys (desiredSlotMap ch). DesiredVm i \<in> snd ` set (jobToVm ch)"
    unfolding covers_jobs_def by (metis image_eqI map_of_SomeD snd_conv)
  then have "DesiredVm ` keys (desiredSlotMap ch) \<subseteq> snd ` set (jobToVm ch)" by blast
  then have "card (DesiredVm ` keys (desiredSlotMap ch)) \<le> card (set (jobToVm ch))"
    by (meson List.finite_set card_image_le card_mono finite_imageI order_trans)
  moreover have "card (DesiredVm ` keys (desiredSlotMap ch)) = length (desiredSlotMap ch)"
    using c by (subst card_image) (auto simp: inj_on_def covers_jobs_def dest: distinct_card)
  moreover have "card (set (jobToVm ch)) = card (keys (jobToVm ch))"
    using c unfolding covers_jobs_def by (metis distinct_card distinct_map length_map)
  moreover have "card (keys (jobToVm ch)) \<le> length (queuedJobs st)"
    using c unfolding covers_jobs_def by (metis card_length length_map set_map)
  ultimately show ?thesis by simp
qed

lemma snapshot_ready:
  assumes wf: "db_wf (committed p)" and run: "getCurrentState p = (Returned (Inr st), p')" and cfg: "config_ok cfg possible"
    and as: "assigner cfg possible st = Some ch"
  shows "ready_for ch (committed p) \<and> no_conflict ch (committed p) \<and> covers_jobs st ch \<and>
     keys (jobToVm ch) = jr_id ` set (filter (\<lambda>r. jr_status r = Queued) (t_jobs (committed p))) \<and>
     length (desiredSlotMap ch) \<le> length (filter (\<lambda>r. jr_status r = Queued) (t_jobs (committed p)))"
proof -
  let ?d = "committed p"
  note know = getCurrentState_knows [OF wf run] and rows = getCurrentState_rows(3,4) [OF wf run]
  have use: "assigner_usable (sc_vmAssignerType cfg) (sc_complexVmAssignerConfig cfg) possible st" using cfg by (rule config_ok_usable)
  have ok: "state_ok st" using know by (simp add: knows_def)
  note as' = as [unfolded assigner_def]
  have valid: "valid_change st ch" using created.assign_valid [OF use ok] as' by auto
  then have cover: "covers_jobs st ch" and upd: "keys (updatedIdleCapacities ch) \<subseteq> avm_id ` set (vms st)"
    by (auto simp: valid_change_def balances_def)
  have jids: "qj_id ` set (queuedJobs st) = jr_id ` set (filter (\<lambda>r. jr_status r = Queued) (t_jobs ?d))"
    and vids: "avm_id ` set (vms st) = vr_id ` set (filter (\<lambda>r. vr_status r \<in> getActiveVmStatuses) (t_vms ?d))"
    using rows by (metis list.set_map)+
  have keys: "keys (jobToVm ch) = jr_id ` set (filter (\<lambda>r. jr_status r = Queued) (t_jobs ?d))"
    using cover jids by (simp add: covers_jobs_def)
  have "cap_ok (total s)" if "(i, s) \<in> set (desiredSlotMap ch)" for i s
    using assign_slots_fit [OF use ok as' _ _ that] cfg know by (simp add: config_ok_def knows_def)
  moreover have "target_in (vr_id ` set (t_vms ?d)) (keys (desiredSlotMap ch)) x" if "(j, x) \<in> set (jobToVm ch)" for j x
    using cover that vids unfolding covers_jobs_def by (cases x) fastforce+
  ultimately have "ready_for ch ?d"
    using wf assigned_change_now [OF wf know cfg as] by (auto simp: ready_for_def)
  moreover have "jobs_free ch ?d"
    unfolding jobs_free_def
  proof (intro ballI impI)
    fix r assume r: "r \<in> set (t_jobs ?d)" "jr_id r \<in> keys (jobToVm ch)"
    then obtain q where "q \<in> set (t_jobs ?d)" "jr_status q = Queued" "jr_id q = jr_id r" using keys by auto
    with r(1) wf have "jr_status r = Queued" by (metis db_wf_def distinct_map inj_onD)
    then show "jr_status r \<notin> getFinalJobStatuses" by (simp add: status_sets)
  qed
  moreover have "vr_status r \<in> getActiveVmStatuses" if r: "r \<in> set (t_vms ?d)" "vr_id r \<in> keys (updatedIdleCapacities ch)" for r
  proof -
    have "vr_id r \<in> vr_id ` set (filter (\<lambda>r. vr_status r \<in> getActiveVmStatuses) (t_vms ?d))" using upd r(2) vids by blast
    then obtain q where "q \<in> set (t_vms ?d)" "vr_status q \<in> getActiveVmStatuses" "vr_id q = vr_id r" by auto
    with r(1) wf show ?thesis by (metis db_wf_def distinct_map inj_onD)
  qed
  moreover have "length (desiredSlotMap ch) \<le> length (filter (\<lambda>r. jr_status r = Queued) (t_jobs ?d))"
    using slots_le_jobs [OF cover] rows(1) by (metis length_map)
  ultimately show ?thesis using cover keys by (auto simp: no_conflict_def)
qed

text \<open>
  C4. Progress of the scheduler. On a well-formed database, with usable sizes and strategy, when no connection
  fails, nothing happens in between, the last round is old enough, the process holds the lock where
  one is used, and there are identifiers left for new VMs, a scheduling round finishes (it neither crashes
  nor hangs) and every job that was queued is then scheduled on a VM that exists; every other job is
  as it was.
\<close>

theorem schedule_progress:
  assumes wf: "db_wf (committed p)" and cfg: "config_ok cfg possible" and nf: "faults p = []"
    and due: "round_due (sc_schedulingInterval cfg) p"
    and lk: "distLock \<noteq> Some None" "lock_ok (Option.bind distLock (\<lambda>n. n)) (committed p)"
    and room: "room_for (length (filter (\<lambda>r. jr_status r = Queued) (t_jobs (committed p)))) (committed p)"
  shows "\<exists>p'. schedule backendId cfg possible distLock (\<lambda>p. p) (\<lambda>p. p) p = (Finished, p') \<and>
     (\<forall>r \<in> set (t_jobs (committed p)).
        if jr_status r = Queued
        then \<exists>v \<in> vr_id ` set (t_vms (committed p')). r\<lparr>jr_status := Scheduled, jr_vm_id := Some v\<rparr> \<in> set (t_jobs (committed p'))
        else r \<in> set (t_jobs (committed p')))"
proof -
  let ?lk = "Option.bind distLock (\<lambda>n. n)"
  obtain plan p1 where start: "startScheduling backendId (sc_schedulingInterval cfg) ?lk p = (Returned (Inr plan), p1)" "faults p1 = []"
    using startScheduling_completes [OF nf due lk(2)] by blast
  have kept: "rows_kept (committed p) (committed p1)" and wf1: "db_wf (committed p1)"
    using started.startScheduling_rel [of p backendId "sc_schedulingInterval cfg" ?lk]
      wf.startScheduling_rel [of p backendId "sc_schedulingInterval cfg" ?lk] start(1) wf by (simp_all add: wf_step_def)
  have newest: "map pr_id (filter (\<lambda>r. pr_updated r = last_updated (committed p1)) (t_plan (committed p1))) = [plan]"
    using started_newest [OF start(1)] due by (simp add: round_due_def)
  obtain st where read: "getCurrentState p1 = (Returned (Inr st), p1)" using getCurrentState_completes [OF start(2) wf1] by blast
  obtain ch where as: "assigner cfg possible st = Some ch"
    using created.assign_valid [OF config_ok_usable [OF cfg], of st] getCurrentState_knows [OF wf1 read]
    by (auto simp: assigner_def knows_def)
  note ready = snapshot_ready [OF wf1 read cfg as]
  have "room_for (length (desiredSlotMap ch)) (committed p1)" using room kept ready by (auto simp: room_for_def rows_kept_def)
  then obtain p2 where commit: "commitPlanChange ch plan p1 = (Returned (Inr ()), p2)"
    using commit_completes [OF start(2) newest] ready by blast
  have "schedule backendId cfg possible distLock (\<lambda>p. p) (\<lambda>p. p) p = (Finished, p2)"
    using lk(1) start(1) read as commit by (auto simp: schedule_def schedule_commit_def assigner_def split: option.splits)
  moreover have "if jr_status r = Queued
        then \<exists>v \<in> vr_id ` set (t_vms (committed p2)). r\<lparr>jr_status := Scheduled, jr_vm_id := Some v\<rparr> \<in> set (t_jobs (committed p2))
        else r \<in> set (t_jobs (committed p2))" if r: "r \<in> set (t_jobs (committed p))" for r
  proof -
    have r1: "r \<in> set (t_jobs (committed p1))" using r kept by (simp add: rows_kept_def)
    have key: "jr_id r \<in> keys (jobToVm ch) \<longleftrightarrow> jr_status r = Queued"
      using ready r1 wf1 by (auto simp: db_wf_def distinct_map dest: inj_onD)
    have "distinct (map fst (desiredSlotMap ch))" using ready by (simp add: covers_jobs_def)
    from commit_effect [OF commit this] r1 have eff: "if jr_id r \<in> keys (jobToVm ch)
        then jr_status r \<notin> getFinalJobStatuses \<and> (\<exists>v. placed_at ch (pg_now p1) (committed p2) (jr_id r) v \<and>
           r\<lparr>jr_status := Scheduled, jr_vm_id := Some v\<rparr> \<in> set (t_jobs (committed p2)))
        else r \<in> set (t_jobs (committed p2))" by blast
    have "v \<in> vr_id ` set (t_vms (committed p2))" if "placed_at ch (pg_now p1) (committed p2) (jr_id r) v" for v
      using that by (simp add: placed_at_def)
    then show ?thesis using eff unfolding key by (metis (no_types, lifting))
  qed
  ultimately show ?thesis by blast
qed

definition ex_waiting :: pg where
  "ex_waiting = snd (addTask Some ex_task ex_pg)"

theorem schedule_progress_witness:
  "\<exists>p' v. schedule ''b'' ex_cfg ex_possible None (\<lambda>p. p) (\<lambda>p. p) ex_waiting = (Finished, p') \<and>
     jr_status (hd (t_jobs (committed ex_waiting))) = Queued \<and>
     (hd (t_jobs (committed ex_waiting)))\<lparr>jr_status := Scheduled, jr_vm_id := Some v\<rparr> \<in> set (t_jobs (committed p'))"
proof -
  have wf: "db_wf (committed ex_waiting)"
    using reachable_inv [OF ex_reachable ex_config_ok] by (simp add: ex_waiting_def)
  have ex: "faults ex_waiting = []" "jr_status (hd (t_jobs (committed ex_waiting))) = Queued" "t_jobs (committed ex_waiting) \<noteq> []"
    "t_plan (committed ex_waiting) = []" "next_plan (seqs (committed ex_waiting)) = 1" "next_vm (seqs (committed ex_waiting)) = 1"
    "length (filter (\<lambda>r. jr_status r = Queued) (t_jobs (committed ex_waiting))) = 2" "pg_now ex_waiting = 100000000"
    by code_simp+
  have due: "round_due (sc_schedulingInterval ex_cfg) ex_waiting"
    using ex by (simp add: round_due_def int4_def last_updated_def seconds_def ex_cfg_def)
  have lock: "lock_ok (Option.bind None (\<lambda>n. n)) (committed ex_waiting)" by (simp add: lock_ok_def)
  have room: "room_for (length (filter (\<lambda>r. jr_status r = Queued) (t_jobs (committed ex_waiting)))) (committed ex_waiting)"
    unfolding ex(7) using ex(6) by (simp add: room_for_def)
  have "hd (t_jobs (committed ex_waiting)) \<in> set (t_jobs (committed ex_waiting))" using ex(3) by simp
  with schedule_progress [OF wf ex_config_ok ex(1) due _ lock room, of "''b''"] ex(2) show ?thesis by (auto dest!: bspec)
qed

end
