(* ===== verification/Lifecycle.thy ===== *)
theory Lifecycle
  imports Prelude
begin

text \<open>
  Abstract machines on keyed tables. A machine says for every key which moves of its cell are allowed and
  which new cells may appear; a table of rows is related to it by reading off key and cell of each
  row. What holds row by row, in the order of the table, holds key by key of the abstraction.
\<close>

definition table_step ::
    "('k \<Rightarrow> 'c \<Rightarrow> 'c \<Rightarrow> bool) \<Rightarrow> ('k \<Rightarrow> 'c \<Rightarrow> bool) \<Rightarrow> ('k \<Rightarrow> 'c option) \<Rightarrow> ('k \<Rightarrow> 'c option) \<Rightarrow> bool" where
  "table_step move birth m m' \<longleftrightarrow> (\<forall>k. case (m k, m' k) of
       (None, None) \<Rightarrow> True
     | (None, Some c') \<Rightarrow> birth k c'
     | (Some c, None) \<Rightarrow> False
     | (Some c, Some c') \<Rightarrow> c' = c \<or> move k c c')"

definition table_of :: "('r \<Rightarrow> 'k) \<Rightarrow> ('r \<Rightarrow> 'c) \<Rightarrow> 'r list \<Rightarrow> 'k \<Rightarrow> 'c option" where
  "table_of key cell rows = map_of (map (\<lambda>r. (key r, cell r)) rows)"

definition row_step :: "('r \<Rightarrow> 'k) \<Rightarrow> ('r \<Rightarrow> 'c) \<Rightarrow> ('k \<Rightarrow> 'c \<Rightarrow> 'c \<Rightarrow> bool) \<Rightarrow> 'r \<Rightarrow> 'r \<Rightarrow> bool" where
  "row_step key cell move r r' \<longleftrightarrow> key r' = key r \<and> (cell r' = cell r \<or> move (key r) (cell r) (cell r'))"

definition rows_step ::
    "('r \<Rightarrow> 'k) \<Rightarrow> ('r \<Rightarrow> 'c) \<Rightarrow> ('k \<Rightarrow> 'c \<Rightarrow> 'c \<Rightarrow> bool) \<Rightarrow> ('k \<Rightarrow> 'c \<Rightarrow> bool) \<Rightarrow> 'r list \<Rightarrow> 'r list \<Rightarrow> bool" where
  "rows_step key cell move birth rs rs' \<longleftrightarrow> (\<exists>old new. rs' = old @ new \<and>
     list_all2 (row_step key cell move) rs old \<and> (\<forall>r \<in> set new. birth (key r) (cell r)))"

lemma table_of_step:
  assumes "list_all2 (row_step key cell move) xs ys"
  shows "case (table_of key cell xs k, table_of key cell ys k) of
       (None, None) \<Rightarrow> True
     | (None, Some c') \<Rightarrow> False
     | (Some c, None) \<Rightarrow> False
     | (Some c, Some c') \<Rightarrow> c' = c \<or> move k c c'"
  using assms by (induction xs ys rule: list_all2_induct) (auto simp: table_of_def row_step_def split: option.splits)

lemma rows_step_refines:
  assumes "rows_step key cell move birth rs rs'"
  shows "table_step move birth (table_of key cell rs) (table_of key cell rs')"
proof -
  obtain old new where rs': "rs' = old @ new" and old: "list_all2 (row_step key cell move) rs old"
    and new: "\<forall>r \<in> set new. birth (key r) (cell r)"
    using assms unfolding rows_step_def by blast
  have born: "birth k c" if "table_of key cell new k = Some c" for k c
    using that new by (auto simp: table_of_def dest!: map_of_SomeD)
  have app: "table_of key cell rs' k = (case table_of key cell old k of None \<Rightarrow> table_of key cell new k | Some c \<Rightarrow> Some c)" for k
    by (simp add: table_of_def rs' map_add_def split: option.splits)
  show ?thesis
    unfolding table_step_def
  proof
    fix k
    show "case (table_of key cell rs k, table_of key cell rs' k) of (None, None) \<Rightarrow> True | (None, Some c') \<Rightarrow> birth k c'
        | (Some c, None) \<Rightarrow> False | (Some c, Some c') \<Rightarrow> c' = c \<or> move k c c'"
      using table_of_step [OF old, of k] born [of k] by (auto simp: app split: option.splits)
  qed
qed

lemma row_step_refl [simp]: "row_step key cell move r r"
  by (simp add: row_step_def)

lemma rows_step_refl [simp]: "rows_step key cell move birth rs rs"
  unfolding rows_step_def by (intro exI [of _ rs] exI [of _ "[]"]) (simp add: list.rel_refl)

lemma rows_step_map:
  assumes "\<And>r. r \<in> set rs \<Longrightarrow> row_step key cell move r (f r)"
  shows "rows_step key cell move birth rs (map f rs)"
  unfolding rows_step_def using assms
  by (intro exI [of _ "map f rs"] exI [of _ "[]"]) (simp add: list_all2_conv_all_nth)

lemma rows_step_append:
  assumes "\<And>r. r \<in> set new \<Longrightarrow> birth (key r) (cell r)"
  shows "rows_step key cell move birth rs (rs @ new)"
  unfolding rows_step_def using assms by (intro exI [of _ rs] exI [of _ new]) (simp add: list.rel_refl)

text \<open>Machines whose moves compose: two moves by the same call are at most one.\<close>

locale lifecycle =
  fixes move :: "'k \<Rightarrow> 'c \<Rightarrow> 'c \<Rightarrow> bool" and birth :: "'k \<Rightarrow> 'c \<Rightarrow> bool"
  assumes move_trans: "move k a b \<Longrightarrow> move k b c \<Longrightarrow> c = a \<or> move k a c"
    and birth_stays: "birth k b \<Longrightarrow> move k b c \<Longrightarrow> birth k c"
begin

lemma row_step_trans:
  "row_step key cell move r s \<Longrightarrow> row_step key cell move s t \<Longrightarrow> row_step key cell move r t"
  unfolding row_step_def by (metis move_trans)

lemma rows_step_trans:
  assumes "rows_step key cell move birth xs ys" and "rows_step key cell move birth ys zs"
  shows "rows_step key cell move birth xs zs"
proof -
  obtain old new where b: "ys = old @ new" "list_all2 (row_step key cell move) xs old"
    "\<forall>r \<in> set new. birth (key r) (cell r)"
    using assms(1) unfolding rows_step_def by blast
  obtain old' new' where c: "zs = old' @ new'" "list_all2 (row_step key cell move) (old @ new) old'"
    "\<forall>r \<in> set new'. birth (key r) (cell r)"
    using assms(2) unfolding rows_step_def b(1) by blast
  obtain us vs where x: "old' = us @ vs" "list_all2 (row_step key cell move) old us" "list_all2 (row_step key cell move) new vs"
    using c(2) by (auto simp: list_all2_append1)
  have "list_all2 (row_step key cell move) xs us"
    by (rule list_all2_trans [OF _ b(2) x(2)]) (rule row_step_trans)
  moreover have "birth (key r) (cell r)" if r: "r \<in> set vs" for r
  proof -
    obtain q where "q \<in> set new" "row_step key cell move q r"
      using list_all2_source [OF x(3) r] by blast
    then show ?thesis using b(3) birth_stays by (fastforce simp: row_step_def)
  qed
  ultimately show ?thesis
    using c(1,3) x(1) unfolding rows_step_def by (intro exI [of _ us] exI [of _ "vs @ new'"]) auto
qed

end

end
