(* ===== verification/JobLifecycle.thy ===== *)
theory JobLifecycle
  imports Wellformed Lifecycle
begin

text \<open>
  The life of a job as an abstract machine, and that the storage refines it. The machine keeps for
  every job the task it belongs to, its status, the VM it was placed on and how often it was restarted, and says
  for every call of the storage which moves of a job that call may make. The storage is related to
  it by an abstraction function; each call, whatever fails during it, is one step of the machine.
\<close>

section \<open>The abstract machine\<close>

record job_cell =
  jc_task :: TaskId
  jc_status :: JobStatus
  jc_vm :: "VmId option"
  jc_restarts :: int

type_synonym job_table = "JobId \<Rightarrow> job_cell option"

definition is_open :: "job_cell \<Rightarrow> bool" where
  "is_open c \<longleftrightarrow> jc_status c \<in> {Queued, Scheduled, Running}"

text \<open>A queued job is cancelled at once, one that is on a VM is left for its agent to stop.\<close>

definition cancel_move :: "job_cell \<Rightarrow> job_cell \<Rightarrow> bool" where
  "cancel_move c c' \<longleftrightarrow> is_open c \<and> c' = c\<lparr>jc_status := if jc_status c = Queued then Cancelled else Cancelling\<rparr>"

text \<open>The VM of a job in status \<open>s\<close> is lost: another attempt, or none is left.\<close>

definition restart_move :: "JobStatus \<Rightarrow> size_t \<Rightarrow> job_cell \<Rightarrow> job_cell \<Rightarrow> bool" where
  "restart_move s attempts c c' \<longleftrightarrow> jc_status c = s \<and> jc_vm c \<noteq> None \<and>
     c' = (if jc_restarts c < uint attempts then c\<lparr>jc_status := Queued, jc_restarts := jc_restarts c + 1\<rparr>
           else c\<lparr>jc_status := InternalError\<rparr>)"

fun job_move :: "storage_op \<Rightarrow> JobId \<Rightarrow> job_cell \<Rightarrow> job_cell \<Rightarrow> bool" where
  "job_move (CommitPlanChange ch plan) j c c' = (is_open c \<and>
     (case map_of (jobToVm ch) j of None \<Rightarrow> False
      | Some (ExistingVm v) \<Rightarrow> c' = c\<lparr>jc_status := Scheduled, jc_vm := Some v\<rparr>
      | Some (DesiredVm i) \<Rightarrow> jc_vm c' \<noteq> None \<and> c' = c\<lparr>jc_status := Scheduled, jc_vm := jc_vm c'\<rparr>))"
| "job_move (CancelTask t) j c c' = (jc_task c = t \<and> cancel_move c c')"
| "job_move CancelTimedOutJobs j c c' = cancel_move c c'"
| "job_move (UpdateJobState v i js) j c c' =
     (j = i \<and> jc_vm c = Some v \<and> is_open c \<and> c' = c\<lparr>jc_status := js_status js\<rparr>)"
| "job_move (RollbackUnallocatedVmsState ids va ja) j c c' = restart_move Scheduled ja c c'"
| "job_move (TerminateStaleAllocatingVms limit va ja) j c c' = restart_move Scheduled ja c c'"
| "job_move (TerminateVmsWithoutAgents limit ja) j c c' = restart_move Scheduled ja c c'"
| "job_move (TerminateVmsWithInactiveAgents limit ja) j c c' = restart_move Running ja c c'"
| "job_move _ j c c' = False"

text \<open>Only adding a task creates jobs, and it creates them queued, on no VM and never restarted.\<close>

fun job_birth :: "storage_op \<Rightarrow> JobId \<Rightarrow> job_cell \<Rightarrow> bool" where
  "job_birth (AddTask tp) j c = (jc_status c = Queued \<and> jc_vm c = None \<and> jc_restarts c = 0)"
| "job_birth _ j c = False"

interpretation job_machine: lifecycle "job_move op" "job_birth op" for op
proof
  show "c = a \<or> job_move op j a c" if "job_move op j a b" "job_move op j b c" for j a b c
    using that
    by (cases op)
       (auto simp: is_open_def cancel_move_def restart_move_def split: option.splits VmInfo.splits if_splits)
  show "job_birth op j c" if "job_birth op j b" "job_move op j b c" for j b c
    using that by (cases op) auto
qed

section \<open>The abstraction\<close>

definition cell_of_row :: "job_row \<Rightarrow> job_cell" where
  "cell_of_row r = \<lparr>jc_task = jr_task_id r, jc_status = jr_status r, jc_vm = jr_vm_id r, jc_restarts = jr_restart_count r\<rparr>"

definition job_table_of :: "db \<Rightarrow> job_table" where
  "job_table_of d = table_of jr_id cell_of_row (t_jobs d)"

abbreviation job_row_step :: "storage_op \<Rightarrow> job_row \<Rightarrow> job_row \<Rightarrow> bool" where
  "job_row_step op \<equiv> row_step jr_id cell_of_row (job_move op)"

text \<open>The same step on the rows, in the order of the table; here it composes.\<close>

definition jobs_step :: "storage_op \<Rightarrow> db \<Rightarrow> db \<Rightarrow> bool" where
  "jobs_step op d d' \<longleftrightarrow> rows_step jr_id cell_of_row (job_move op) (job_birth op) (t_jobs d) (t_jobs d')"

lemma is_open_row: "is_open (cell_of_row r) \<longleftrightarrow> jr_status r \<notin> getFinalJobStatuses"
  by (cases "jr_status r") (simp_all add: is_open_def cell_of_row_def status_sets)

lemma jobs_step_same: "t_jobs d' = t_jobs d \<Longrightarrow> jobs_step op d d'"
  by (simp add: jobs_step_def)

lemma jobs_step_update:
  assumes "update_jobs c a n d = Inr (rows, d')" and "\<And>r. r \<in> set (t_jobs d) \<Longrightarrow> c r \<Longrightarrow> job_row_step op r (a r)"
  shows "jobs_step op d d'"
  using assms(1) by (rule update_jobsE) (use assms(2) in \<open>auto simp: jobs_step_def intro!: rows_step_map\<close>)

lemma jobs_step_update_vms: "update_vms c a n d = Inr (rows, d') \<Longrightarrow> jobs_step op d d'"
  by (erule update_vmsE) (simp add: jobs_step_same)

interpretation life: vm_relation "jobs_step op" for op
proof
  show "jobs_step op a b \<Longrightarrow> jobs_step op b c \<Longrightarrow> jobs_step op a c" for a b c
    unfolding jobs_step_def by (rule job_machine.rows_step_trans)
qed (auto simp: stmt_keeps_def jobs_step_same intro: jobs_step_update_vms)

lemma life_release: "stmt_keeps (jobs_step op) (release_stmt ids)"
  by (auto simp: stmt_keeps_def intro: jobs_step_update_vms elim!: release_stmtE)

interpretation life_plan: plan_relation "jobs_step op" for op
  by unfold_locales (auto simp: stmt_keeps_def insert_lock_def insert_plan_def Let_def jobs_step_same split: if_splits)

section \<open>The storage refines the machine\<close>

lemma life_cancel:
  assumes "\<And>n r. c n r \<Longrightarrow> jr_status r \<notin> getFinalJobStatuses"
    and "\<And>n r. c n r \<Longrightarrow> cancel_move (cell_of_row r) (cell_of_row (cancel_assign r)) \<Longrightarrow> job_row_step op r (cancel_assign r)"
  shows "jobs_step op (committed p) (committed (snd (cancelJobs c p)))"
proof (rule life.cancelJobs_keeps [OF _ life_release])
  have "job_row_step op r (cancel_assign r)" if "c n r" for n r
    using assms(1) [OF that] by (intro assms(2) [OF that]) (simp add: cancel_move_def is_open_row, simp add: cell_of_row_def cancel_assign_def)
  then show "stmt_keeps (jobs_step op) (\<lambda>n. update_jobs (c n) cancel_assign n)"
    unfolding stmt_keeps_def by (blast intro: jobs_step_update)
qed

lemma life_restart:
  assumes "\<And>r r'. restart_move s ja (cell_of_row r) (cell_of_row r') \<Longrightarrow> jr_id r' = jr_id r \<Longrightarrow> job_row_step op r r'"
  shows "keeps (jobs_step op) (restartJobs ids s ja)"
proof -
  have vm: "jr_vm_id r \<noteq> None" if "on_vms ids r" for r using that by (simp add: on_vms_def split: option.splits)
  show ?thesis
    unfolding restartJobs_def
    by (intro life.keeps_bind life.keeps_exec life.keeps_return life.stmt_keeps_with_ids)
       (auto simp: stmt_keeps_def restart_move_def cell_of_row_def dest: vm intro!: jobs_step_update assms)
qed

lemma life_assignments:
  assumes up: "assignments_stmt (jobToVm ch) s n d = Inr (r, d')" and free: "jobs_free ch d"
    and tgt: "\<And>j t. (j, t) \<in> set (jobToVm ch) \<Longrightarrow> assignment_target s t \<noteq> None"
  shows "jobs_step (CommitPlanChange ch plan) d d'"
proof (rule jobs_step_update [OF up [unfolded assignments_stmt_def]])
  fix q assume q: "q \<in> set (t_jobs d)" "jr_id q \<in> keys (jobToVm ch)"
  obtain t where t: "map_of (jobToVm ch) (jr_id q) = Some t" using keys_map_of [OF q(2)] by blast
  then obtain v where "assignment_target s t = Some v" using tgt by (fastforce dest: map_of_SomeD)
  moreover have "is_open (cell_of_row q)" using free q by (simp add: jobs_free_def is_open_row)
  ultimately show "job_row_step (CommitPlanChange ch plan) q (assign_job (\<lambda>j. Option.bind (map_of (jobToVm ch) j) (assignment_target s)) q)"
    using t by (cases t) (simp_all add: row_step_def cell_of_row_def)
qed

lemma life_commit: "jobs_step (CommitPlanChange ch plan) (committed p) (committed (snd (commitPlanChange ch plan p)))"
  by (rule life.commit_rule [where Q = "\<lambda>_. True"])
     (auto intro: life_assignments jobs_step_update_vms jobs_step_same simp: update_plan_def elim!: insert_vmE)

lemma life_add: "jobs_step (AddTask tp) (committed p) (committed (snd (addTask jsonb tp p)))"
proof (rule life.addTask_keeps)
  show "stmt_keeps (jobs_step (AddTask tp)) (insert_task jsonb tp)"
    by (auto simp: stmt_keeps_def intro: jobs_step_same elim!: insert_taskE)
  show "stmt_keeps (jobs_step (AddTask tp)) (insert_jobs jsonb tp i)" for i
    unfolding stmt_keeps_def
  proof (intro allI impI, erule insert_jobsE)
    fix n est opts and d d' :: db
    let ?rows = "new_job_rows tp i est n opts (next_job (seqs d))"
    assume "d' = d\<lparr>t_jobs := t_jobs d @ ?rows, t_job_log := t_job_log d @ map (\<lambda>r. (jr_id r, Queued, n)) ?rows,
           seqs := (seqs d)\<lparr>next_job := next_job (seqs d) + int (length ?rows)\<rparr>\<rparr>"
    moreover have "job_birth (AddTask tp) (jr_id r) (cell_of_row r)" if "r \<in> set ?rows" for r
      using that new_job_rows_spec [of tp i est n opts "next_job (seqs d)"] by (simp add: cell_of_row_def)
    ultimately show "jobs_step (AddTask tp) d d'"
      unfolding jobs_step_def by (simp add: rows_step_append)
  qed
qed

lemma life_report: "jobs_step (UpdateJobState v j js) (committed p) (committed (snd (updateJobState v j js p)))"
proof (rule life.updateJobState_keeps [OF _ life_release])
  have "job_row_step (UpdateJobState v j js) r (report_assign js n r)"
    if "jr_vm_id r = Some v" "jr_id r = j" "jr_status r \<notin> getFinalJobStatuses" for n r
    using that is_open_row [of r] by (simp add: row_step_def cell_of_row_def)
  then show "stmt_keeps (jobs_step (UpdateJobState v j js)) (\<lambda>n. update_jobs (\<lambda>r. jr_vm_id r = Some v \<and> jr_id r = j \<and>
      jr_status r \<notin> getFinalJobStatuses) (report_assign js n) n)"
    unfolding stmt_keeps_def by (blast intro: jobs_step_update)
qed

lemma life_op: "jobs_step op (committed p) (committed (apply_op jsonb op p))"
proof (cases op)
  case (CancelTask t)
  then show ?thesis
    by (auto simp: cancelTask_def row_step_def cell_of_row_def intro!: life_cancel)
next
  case CancelTimedOutJobs
  then show ?thesis
    by (auto simp: cancelTimedOutJobs_def row_step_def intro!: life_cancel)
next
  case (TerminateVmsWithInactiveAgents limit ja)
  then show ?thesis by (auto simp: row_step_def intro!: life.inactiveAgents_keeps life.stmt_keeps_writes life_restart)
next
  case (RollbackUnallocatedVmsState ids va ja)
  then show ?thesis by (auto simp: row_step_def intro!: life.rollback_keeps life.stmt_keeps_writes life.stmt_keeps_terminate life_restart)
next
  case (TerminateStaleAllocatingVms limit va ja)
  then show ?thesis
    by (auto simp: terminateStaleAllocatingVms_def row_step_def intro!: life.terminateVmsWhere_keeps life.stmt_keeps_terminate life_restart)
next
  case (TerminateVmsWithoutAgents limit ja)
  then show ?thesis
    by (auto simp: terminateVmsWithoutAgents_def row_step_def intro!: life.terminateVmsWhere_keeps life.stmt_keeps_terminate life_restart)
qed (use life.apply_op_vms [of op op p jsonb] in \<open>simp_all add: life_add life_report life_commit life_plan.startScheduling_rel\<close>)

text \<open>
  C7. Refinement. Seen through the abstraction, every call of the storage, whatever fails during it, is
  one step of the abstract machine of jobs: no job disappears; only adding a task creates jobs, queued
  and on no VM; only committing a plan places an open job it names, on the VM it names; only a report
  of the VM a job is on, while the job is open, sets its status as reported; cancelling moves open jobs of the task only; losing a
  VM queues its scheduled (or, for an inactive agent, running) jobs again until the attempts are used up; every other call moves no job.
\<close>

theorem job_lifecycle:
  "table_step (job_move op) (job_birth op) (job_table_of (committed p)) (job_table_of (committed (apply_op jsonb op p)))"
  unfolding job_table_of_def by (rule rows_step_refines [OF life_op [unfolded jobs_step_def]])

end
