(* ===== verification/Ledger.thy ===== *)
theory Ledger
  imports JobLifecycle StorageAgentSpec
begin

text \<open>
  The ledger of capacities: for every VM, what is idle and what its jobs hold never exceed its size. A job holds its
  requirement on the VM it was placed on until the capacity is given back, once: by the report that ends it, or
  when it is cancelled in the queue. The set \<open>R\<close> of jobs whose capacity a report has given back is a history variable
  beside the tables. Every operation other than committing a plan keeps the ledger.
\<close>

section \<open>The ledger\<close>

definition holds :: "JobId set \<Rightarrow> job_row \<Rightarrow> bool" where
  "holds R j \<longleftrightarrow> jr_id j \<notin> R \<and> jr_status j \<noteq> Cancelled"

definition held :: "JobId set \<Rightarrow> (job_row \<Rightarrow> int) \<Rightarrow> job_row list \<Rightarrow> VmId \<Rightarrow> int" where
  "held R f js v = sum_list (map f (filter (\<lambda>j. jr_vm_id j = Some v \<and> holds R j) js))"

definition within :: "JobId set \<Rightarrow> job_row list \<Rightarrow> vm_row \<Rightarrow> bool" where
  "within R js r \<longleftrightarrow> vr_cpu_idle r + held R jr_cpu js (vr_id r) \<le> vr_cpu r \<and> vr_ram_idle r + held R jr_ram js (vr_id r) \<le> vr_ram r"

definition row_cap :: "job_row \<Rightarrow> SlotCapacity" where
  "row_cap r = SlotCapacity (of_int (jr_cpu r)) (of_int (jr_ram r))"

definition ledger :: "SlotCapacity list \<Rightarrow> JobId set \<Rightarrow> db \<Rightarrow> bool" where
  "ledger possible R d \<longleftrightarrow> (\<forall>r \<in> set (t_vms d). within R (t_jobs d) r) \<and>
     (\<forall>j \<in> set (t_jobs d). (jr_id j \<in> R \<longrightarrow> jr_status j \<in> getFinalJobStatuses) \<and> servable possible (row_cap j)) \<and>
     (\<forall>i \<in> R. i < next_job (seqs d))"

text \<open>
  What the ledger asks of a call: a task has a requirement that the size found for it serves, and a final report has
  an effect only while its job still holds its capacity. Then the report gives it back.
\<close>

fun orderly :: "SlotCapacity list \<Rightarrow> JobId set \<Rightarrow> storage_op \<Rightarrow> db \<Rightarrow> db \<Rightarrow> bool" where
  "orderly possible R (AddTask tp) d d' = servable possible (tp_requiredCapacity tp)"
| "orderly possible R (UpdateJobState v j js) d d' =
     (js_status js \<in> getFinalJobStatuses \<longrightarrow> d' \<noteq> d \<longrightarrow> (\<exists>r \<in> set (t_jobs d). jr_id r = j \<and> holds R r))"
| "orderly possible R _ d d' = True"

fun now_returned :: "storage_op \<Rightarrow> db \<Rightarrow> db \<Rightarrow> JobId set" where
  "now_returned (UpdateJobState v j js) d d' = (if js_status js \<in> getFinalJobStatuses \<and> d' \<noteq> d then {j} else {})"
| "now_returned _ d d' = {}"

lemma held_sum: "held R f js v = (\<Sum>j\<leftarrow>js. if jr_vm_id j = Some v \<and> holds R j then f j else 0)"
  by (simp add: held_def sum_list_map_filter')

lemma freed_sum: "freed f ids js v = (\<Sum>j\<leftarrow>js. if jr_id j \<in> set ids \<and> jr_vm_id j = Some v then f j else 0)"
  by (simp add: freed_def sum_list_map_filter')

lemma freed_none: "\<forall>j \<in> set js. jr_id j \<in> set ids \<longrightarrow> jr_vm_id j \<noteq> Some v \<Longrightarrow> freed f ids js v = 0"
  by (simp add: freed_def filter_empty_conv [THEN iffD2])

lemma held_append [simp]: "held R f (js @ ks) v = held R f js v + held R f ks v"
  by (simp add: held_def)

lemma held_none: "(\<And>j. j \<in> set js \<Longrightarrow> jr_vm_id j \<noteq> Some v) \<Longrightarrow> held R f js v = 0"
  by (simp add: held_def filter_empty_conv [THEN iffD2])

text \<open>Rows that keep their requirement, their VM and whether they hold it.\<close>

lemma held_map:
  assumes "\<And>j. j \<in> set js \<Longrightarrow> f (g j) = f j \<and> jr_vm_id (g j) = jr_vm_id j \<and> holds R (g j) = holds R j"
  shows "held R f (map g js) v = held R f js v"
proof -
  have "map ((\<lambda>j. if jr_vm_id j = Some v \<and> holds R j then f j else 0) \<circ> g) js =
      map (\<lambda>j. if jr_vm_id j = Some v \<and> holds R j then f j else 0) js"
    using assms by simp
  then show ?thesis unfolding held_sum map_map by (simp only:)
qed

section \<open>Statements\<close>

definition ledger_kept :: "SlotCapacity list \<Rightarrow> JobId set \<Rightarrow> db \<Rightarrow> db \<Rightarrow> bool" where
  "ledger_kept possible R d d' \<longleftrightarrow> (ledger possible R d \<longrightarrow> ledger possible R d') \<and> next_job (seqs d) \<le> next_job (seqs d')"

lemma ledger_kept_same:
  "t_vms d' = t_vms d \<Longrightarrow> t_jobs d' = t_jobs d \<Longrightarrow> next_job (seqs d) \<le> next_job (seqs d') \<Longrightarrow> ledger_kept possible R d d'"
  unfolding ledger_kept_def ledger_def by (simp, meson order_less_le_trans)

lemma ledger_kept_update_vms:
  assumes "update_vms c a n d = Inr (rows, d')"
    and "\<And>r. vm_key (a r) = vm_key r \<and> vr_cpu_idle (a r) = vr_cpu_idle r \<and> vr_ram_idle (a r) = vr_ram_idle r"
  shows "ledger_kept possible R d d'"
proof -
  have "within R js (vm_trigger n r (a r)) = within R js r" for js r
    using assms(2) [of r] by (simp add: within_def vm_key_def)
  with assms(1) show ?thesis by (auto simp: ledger_kept_def ledger_def elim!: update_vmsE)
qed

lemma ledger_kept_update_jobs:
  assumes up: "update_jobs c a n d = Inr (rows, d')"
    and a: "\<And>r. job_key (a r) = job_key r \<and> jr_vm_id (a r) = jr_vm_id r \<and> jr_status (a r) \<noteq> Cancelled"
    and c: "\<And>r. c r \<Longrightarrow> jr_status r \<notin> getFinalJobStatuses"
  shows "ledger_kept possible R d d'"
proof -
  define g where "g = (\<lambda>r. if c r then a r else r)"
  have d': "t_jobs d' = map g (t_jobs d)" "t_vms d' = t_vms d" "seqs d' = seqs d"
    using up by (auto simp: g_def elim!: update_jobsE)
  have key: "jr_cpu (g r) = jr_cpu r" "jr_ram (g r) = jr_ram r" "jr_vm_id (g r) = jr_vm_id r" "jr_id (g r) = jr_id r"
    "holds R (g r) = holds R r" for r
    using a [of r] c [of r] by (auto simp: g_def job_key_def holds_def status_sets)
  have "held R jr_cpu (map g (t_jobs d)) = held R jr_cpu (t_jobs d)" "held R jr_ram (map g (t_jobs d)) = held R jr_ram (t_jobs d)"
    by (rule ext, rule held_map, simp add: key)+
  then have vms: "within R (t_jobs d') r = within R (t_jobs d) r" for r by (simp only: within_def d')
  have jobs: "(jr_id (g r) \<in> R \<longrightarrow> jr_status (g r) \<in> getFinalJobStatuses) \<and> servable possible (row_cap (g r))"
    if "(jr_id r \<in> R \<longrightarrow> jr_status r \<in> getFinalJobStatuses) \<and> servable possible (row_cap r)" for r
  proof -
    have "row_cap (g r) = row_cap r" by (simp add: row_cap_def key)
    moreover have "jr_status (g r) = jr_status r" if "jr_status r \<in> getFinalJobStatuses" using that c [of r] by (auto simp: g_def)
    ultimately show ?thesis using that key(4) [of r] by metis
  qed
  have "ledger possible R d'" if "ledger possible R d"
    unfolding ledger_def vms d'(2,3) using that jobs by (simp add: ledger_def d'(1))
  then show ?thesis by (simp add: ledger_kept_def d')
qed

interpretation led: vm_relation "ledger_kept possible R" for possible R
proof
  show "ledger_kept possible R d d" for d by (simp add: ledger_kept_def)
  show "ledger_kept possible R a b \<Longrightarrow> ledger_kept possible R b c \<Longrightarrow> ledger_kept possible R a c" for a b c
    unfolding ledger_kept_def by (meson order_trans)
  show "ledger_kept possible R d (d\<lparr>seqs := seqs d'\<rparr>)" if "ledger_kept possible R d d'" for d d'
    by (rule ledger_kept_same) (use that in \<open>simp_all add: ledger_kept_def\<close>)
qed (auto simp: stmt_keeps_def vm_key_def intro: ledger_kept_update_vms)

interpretation led_plan: plan_relation "ledger_kept possible R" for possible R
  by unfold_locales (auto simp: stmt_keeps_def insert_lock_def insert_plan_def Let_def ledger_kept_same split: if_splits)

section \<open>Calls that move no capacity\<close>

lemma led_restart: "s \<in> {Scheduled, Running} \<Longrightarrow> keeps (ledger_kept possible R) (restartJobs ids s ja)"
  unfolding restartJobs_def
  by (intro led.keeps_bind led.keeps_exec led.keeps_return led.stmt_keeps_with_ids)
     (auto simp: stmt_keeps_def job_key_def status_sets intro!: ledger_kept_update_jobs)

lemma new_rows_hold_nothing:
  "r \<in> set (new_job_rows tp i est n opts k) \<Longrightarrow> jr_vm_id r = None \<and> k \<le> jr_id r \<and> row_cap r = tp_requiredCapacity tp"
  by (induction opts arbitrary: k) (fastforce simp: row_cap_def)+

lemma led_add:
  assumes "servable possible (tp_requiredCapacity tp)"
  shows "ledger_kept possible R (committed p) (committed (snd (addTask jsonb tp p)))"
proof (rule led.addTask_keeps)
  show "stmt_keeps (ledger_kept possible R) (insert_task jsonb tp)"
    by (auto simp: stmt_keeps_def intro!: ledger_kept_same elim!: insert_taskE)
  show "stmt_keeps (ledger_kept possible R) (insert_jobs jsonb tp i)" for i
    unfolding stmt_keeps_def
  proof (intro allI impI, erule insert_jobsE)
    fix n est opts and d d' :: db
    let ?rows = "new_job_rows tp i est n opts (next_job (seqs d))"
    assume d': "d' = d\<lparr>t_jobs := t_jobs d @ ?rows, t_job_log := t_job_log d @ map (\<lambda>r. (jr_id r, Queued, n)) ?rows,
           seqs := (seqs d)\<lparr>next_job := next_job (seqs d) + int (length ?rows)\<rparr>\<rparr>"
    note new = new_rows_hold_nothing [of _ tp i est n opts "next_job (seqs d)"]
    have "held R f ?rows v = 0" for f v by (rule held_none) (use new in fastforce)
    with assms new show "ledger_kept possible R d d'" by (fastforce simp: ledger_kept_def ledger_def within_def d')
  qed
qed

text \<open>The calls that give capacity back.\<close>

fun gives_back :: "storage_op \<Rightarrow> bool" where
  "gives_back (CancelTask t) = True"
| "gives_back CancelTimedOutJobs = True"
| "gives_back (UpdateJobState v j js) = True"
| "gives_back _ = False"

lemma led_op:
  assumes "\<not> is_commit op" and "\<not> gives_back op" and "orderly possible R op (committed p) (committed (apply_op jsonb op p))"
  shows "ledger_kept possible R (committed p) (committed (apply_op jsonb op p))"
  using assms led.apply_op_vms [of op possible R p jsonb]
  by (cases op) (auto simp: led_add led_plan.startScheduling_rel terminateStaleAllocatingVms_def terminateVmsWithoutAgents_def
      led.stmt_keeps_writes led.stmt_keeps_terminate led_restart
      intro!: led.rollback_keeps led.terminateVmsWhere_keeps led.inactiveAgents_keeps)

section \<open>Giving capacity back\<close>

text \<open>
  \<open>commits S m\<close>: \<open>m\<close> either commits nothing or, from the working tables \<open>d\<close> at time \<open>n\<close>, commits tables \<open>d'\<close> with \<open>S n d d'\<close>;
  it draws no number from a sequence.
\<close>

definition commits :: "(int \<Rightarrow> db \<Rightarrow> db \<Rightarrow> bool) \<Rightarrow> 'a tx \<Rightarrow> bool" where
  "commits S m \<longleftrightarrow> (\<forall>t r t'. m t = (r, t') \<longrightarrow> pg_now t' = pg_now t \<and> seqs (work t') = seqs (work t) \<and>
     (committed t' = committed t \<or> S (pg_now t) (work t) (committed t') \<and> seqs (committed t') = seqs (work t)))"

lemma commits_return: "commits S (tx_return x)"
  by (simp add: commits_def tx_return_def)

lemma commits_commit: "(\<And>n d. S n d d) \<Longrightarrow> commits S (tx_bind tx_commit (\<lambda>_. tx_return x))"
  unfolding commits_def by (auto simp: tx_bind_def tx_commit_def tx_return_def Let_def split: if_splits fault.splits)

lemma commits_exec:
  assumes "\<And>x. commits (S' x) (f x)" and "\<And>n d x d1. q n d = Inr (x, d1) \<Longrightarrow> seqs d1 = seqs d"
    and "\<And>n d x d1 d2. q n d = Inr (x, d1) \<Longrightarrow> S' x n d1 d2 \<Longrightarrow> S n d d2"
  shows "commits S (tx_bind (execQuery q) f)"
  unfolding commits_def
proof (intro allI impI)
  fix t r t'
  assume run: "tx_bind (execQuery q) f t = (r, t')"
  consider (stop) "committed t' = committed t" "work t' = work t" "pg_now t' = pg_now t"
    | (go) x u where "execQuery q t = (Inr x, u)" "f x u = (r, t')"
    using run by (auto simp: tx_bind_def execQuery_def Let_def split: if_splits fault.splits sum.splits prod.splits)
  then show "pg_now t' = pg_now t \<and> seqs (work t') = seqs (work t) \<and>
      (committed t' = committed t \<or> S (pg_now t) (work t) (committed t') \<and> seqs (committed t') = seqs (work t))"
  proof cases
    case (go x u)
    note q = execQuery_success [OF go(1)]
    have "commits (S' x) (f x)" by (rule assms(1))
    with go(2) q assms(2,3) show ?thesis unfolding commits_def by metis
  qed simp
qed

lemma seqs_same: "seqs d = q \<Longrightarrow> d\<lparr>seqs := q\<rparr> = d"
  by (cases d) simp

lemma commits_run:
  assumes "commits S body"
  shows "committed (snd (try_txn h body p)) = committed p \<or> S (pg_now p) (committed p) (committed (snd (try_txn h body p)))"
proof -
  have "committed (end_txn t) = committed p \<or> S (pg_now p) (committed p) (committed (end_txn t))"
    if run: "tx_try body h (begin_txn p) = (r, t)" for r t
  proof -
    obtain r' where "body (begin_txn p) = (r', t)" using run by (auto simp: tx_try_def split: prod.splits sum.splits)
    with assms have "seqs (work t) = seqs (committed p)"
      "committed t = committed p \<or> S (pg_now p) (committed p) (committed t) \<and> seqs (committed t) = seqs (committed p)"
      unfolding commits_def by (metis begin_txn_simps(1-3))+
    then show ?thesis by (auto simp: end_txn_def seqs_same)
  qed
  then show ?thesis by (auto simp: try_txn_def run_txn_def split: fault.splits prod.splits sum.splits)
qed

text \<open>The tables after some jobs gave their capacity back.\<close>

definition released :: "JobId list \<Rightarrow> db \<Rightarrow> db \<Rightarrow> bool" where
  "released ids d d' \<longleftrightarrow> t_jobs d' = t_jobs d \<and> seqs d' = seqs d \<and>
     list_all2 (\<lambda>r r'. vm_key r' = vm_key r \<and> vr_cpu_idle r' \<le> vr_cpu_idle r + freed jr_cpu ids (t_jobs d) (vr_id r) \<and>
       vr_ram_idle r' \<le> vr_ram_idle r + freed jr_ram ids (t_jobs d) (vr_id r)) (t_vms d) (t_vms d')"

lemma released_none: "released [] d d"
  by (auto simp: released_def freed_def intro!: list.rel_refl_strong)

lemma released_stmt:
  assumes "release_stmt ids n d = Inr (u, d')"
  shows "released ids d d'"
proof -
  let ?c = "\<lambda>r. \<exists>j \<in> set (t_jobs d). jr_id j \<in> set ids \<and> jr_vm_id j = Some (vr_id r)"
  obtain rows where "update_vms ?c (\<lambda>r. r\<lparr>vr_cpu_idle := min (vr_cpu_idle r + freed jr_cpu ids (t_jobs d) (vr_id r)) (vr_cpu r),
               vr_ram_idle := min (vr_ram_idle r + freed jr_ram ids (t_jobs d) (vr_id r)) (vr_ram r)\<rparr>) n d = Inr (rows, d')"
    using assms by (auto simp: release_stmt_def split: sum.splits)
  then show ?thesis
    by (auto simp: released_def list.rel_map vm_key_def freed_none elim!: update_vmsE intro!: list.rel_refl_strong)
qed

lemma ledger_released:
  assumes led: "ledger possible R d" and rel: "released ids d1 d'" and vms: "t_vms d1 = t_vms d" and seq: "seqs d1 = seqs d"
    and less: "\<And>f v. f \<in> {jr_cpu, jr_ram} \<Longrightarrow> held R' f (t_jobs d1) v + freed f ids (t_jobs d1) v \<le> held R f (t_jobs d) v"
    and jobs: "\<And>j. j \<in> set (t_jobs d1) \<Longrightarrow> (jr_id j \<in> R' \<longrightarrow> jr_status j \<in> getFinalJobStatuses) \<and> servable possible (row_cap j)"
    and R': "\<forall>i \<in> R'. i < next_job (seqs d)"
  shows "ledger possible R' d'"
proof -
  have "within R' (t_jobs d1) r'" if r': "r' \<in> set (t_vms d')" for r'
  proof -
    obtain r where r: "r \<in> set (t_vms d)" "vm_key r' = vm_key r" "vr_cpu_idle r' \<le> vr_cpu_idle r + freed jr_cpu ids (t_jobs d1) (vr_id r)"
      "vr_ram_idle r' \<le> vr_ram_idle r + freed jr_ram ids (t_jobs d1) (vr_id r)"
      using list_all2_source [OF rel [unfolded released_def, THEN conjunct2, THEN conjunct2] r'] vms by auto
    have "within R (t_jobs d) r" using led r(1) by (simp add: ledger_def)
    with r(2-4) less [of jr_cpu "vr_id r"] less [of jr_ram "vr_id r"] show ?thesis by (simp add: within_def vm_key_def)
  qed
  with rel jobs R' seq show ?thesis by (simp add: released_def ledger_def)
qed

lemma tx_bind_return [simp]: "tx_bind (tx_return x) f = f x"
  by (simp add: fun_eq_iff tx_bind_def tx_return_def)

lemma commits_release:
  assumes "\<And>n d d'. released ids d d' \<Longrightarrow> S n d d'"
  shows "commits S (tx_bind (releaseVmResources ids) (\<lambda>_. tx_bind tx_commit (\<lambda>_. tx_return x)))"
proof (cases "ids = []")
  case True
  then show ?thesis using assms released_none by (simp add: releaseVmResources_def commits_commit)
next
  case False
  have "seqs d1 = seqs d" if "release_stmt ids n d = Inr (u, d1)" for n d u d1
    using released_stmt [OF that] by (simp add: released_def)
  with False show ?thesis
    by (auto simp: releaseVmResources_def intro!: commits_exec [where S' = "\<lambda>_ _ d d'. d' = d"] commits_commit assms dest: released_stmt)
qed

lemma update_jobs_seqs: "update_jobs c a n d = Inr (rows, d') \<Longrightarrow> seqs d' = seqs d"
  by (erule update_jobsE) simp

subsection \<open>Cancelling\<close>

lemma cancelJobs_outcome:
  "committed (snd (cancelJobs c p)) = committed p \<or> (\<exists>rows d1.
     update_jobs (c (pg_now p)) cancel_assign (pg_now p) (committed p) = Inr (rows, d1) \<and>
     released (map jr_id (filter (\<lambda>r. jr_status r = Cancelled) rows)) d1 (committed (snd (cancelJobs c p))))"
proof -
  let ?S = "\<lambda>n d d'. \<exists>rows d1. update_jobs (c n) cancel_assign n d = Inr (rows, d1) \<and>
     released (map jr_id (filter (\<lambda>r. jr_status r = Cancelled) rows)) d1 d'"
  let ?rest = "\<lambda>rows. tx_bind (if map jr_id rows \<noteq> [] then releaseVmResources (map jr_id (filter (\<lambda>r. jr_status r = Cancelled) rows))
      else tx_return ()) (\<lambda>_. tx_bind tx_commit (\<lambda>_. tx_return (Inr ())))"
  have "commits (\<lambda>n d d'. released (map jr_id (filter (\<lambda>r. jr_status r = Cancelled) rows)) d d') (?rest rows)" for rows
    by (cases "rows = []") (simp_all add: commits_commit released_none commits_release)
  then have "commits ?S (tx_bind (execQuery (\<lambda>now. update_jobs (c now) cancel_assign now)) ?rest)"
    by (rule commits_exec) (auto dest: update_jobs_seqs)
  from commits_run [OF this] show ?thesis by (simp add: cancelJobs_def Let_def)
qed

text \<open>The jobs a cancellation ends in the queue give back exactly what they held.\<close>

lemma cancel_accounts:
  assumes dist: "distinct (map jr_id js)" and open_jobs: "\<And>r. r \<in> set js \<Longrightarrow> c r \<Longrightarrow> jr_status r \<notin> getFinalJobStatuses \<and> jr_id r \<notin> R"
    and f: "f \<in> {jr_cpu, jr_ram}"
  shows "held R f (map (\<lambda>r. if c r then cancel_assign r else r) js) v +
      freed f (map jr_id (filter (\<lambda>r. jr_status r = Cancelled) (map cancel_assign (filter c js)))) (map (\<lambda>r. if c r then cancel_assign r else r) js) v
    = held R f js v"
proof -
  define g ids where "g = (\<lambda>r. if c r then cancel_assign r else r)"
    and "ids = map jr_id (filter (\<lambda>r. jr_status r = Cancelled) (map cancel_assign (filter c js)))"
  have "jr_status (cancel_assign r) = Cancelled \<longleftrightarrow> jr_status r = Queued" for r by (simp add: cancel_assign_def)
  then have "ids = map jr_id (filter (\<lambda>r. c r \<and> jr_status r = Queued) js)" by (simp add: ids_def filter_map comp_def conj_commute)
  then have ids: "jr_id r \<in> set ids \<longleftrightarrow> c r \<and> jr_status r = Queued" if "r \<in> set js" for r
    using that dist by (auto simp: distinct_map dest: inj_onD)
  have "(if jr_vm_id (g r) = Some v \<and> holds R (g r) then f (g r) else 0) +
      (if jr_id (g r) \<in> set ids \<and> jr_vm_id (g r) = Some v then f (g r) else 0) = (if jr_vm_id r = Some v \<and> holds R r then f r else 0)"
    if "r \<in> set js" for r
    using ids [OF that] open_jobs [OF that] f by (auto simp: g_def holds_def cancel_assign_def status_sets)
  then have "map (\<lambda>r. (if jr_vm_id (g r) = Some v \<and> holds R (g r) then f (g r) else 0) +
      (if jr_id (g r) \<in> set ids \<and> jr_vm_id (g r) = Some v then f (g r) else 0)) js =
      map (\<lambda>r. if jr_vm_id r = Some v \<and> holds R r then f r else 0) js" by simp
  then have "held R f (map g js) v + freed f ids (map g js) v = held R f js v"
    unfolding held_sum freed_sum map_map comp_def sum_list_addf [symmetric] by (simp only:)
  then show ?thesis by (simp add: g_def ids_def)
qed

lemma led_cancel:
  assumes wf: "db_wf (committed p)" and led: "ledger possible R (committed p)" and c: "\<And>n r. c n r \<Longrightarrow> jr_status r \<notin> getFinalJobStatuses"
  shows "ledger possible R (committed (snd (cancelJobs c p)))"
  using cancelJobs_outcome [of c p]
proof (elim disjE exE conjE)
  let ?c = "c (pg_now p)" and ?js = "t_jobs (committed p)"
  fix rows d1
  assume up: "update_jobs ?c cancel_assign (pg_now p) (committed p) = Inr (rows, d1)"
    and rel: "released (map jr_id (filter (\<lambda>r. jr_status r = Cancelled) rows)) d1 (committed (snd (cancelJobs c p)))"
  have d1: "t_vms d1 = t_vms (committed p)" "seqs d1 = seqs (committed p)" "t_jobs d1 = map (\<lambda>r. if ?c r then cancel_assign r else r) ?js"
    "rows = map cancel_assign (filter ?c ?js)" using up by (auto elim!: update_jobsE)
  have op: "jr_status r \<notin> getFinalJobStatuses \<and> jr_id r \<notin> R" if "r \<in> set ?js" "?c r" for r
    using led c [OF that(2)] that(1) by (auto simp: ledger_def)
  have dist: "distinct (map jr_id ?js)" using wf by (simp add: db_wf_def)
  show ?thesis
  proof (rule ledger_released [OF led rel d1(1,2)])
    show "held R f (t_jobs d1) v + freed f (map jr_id (filter (\<lambda>r. jr_status r = Cancelled) rows)) (t_jobs d1) v \<le> held R f ?js v"
      if "f \<in> {jr_cpu, jr_ram}" for f v
      using cancel_accounts [OF dist op that] by (simp add: d1 del: map_map)
    have "row_cap (cancel_assign r) = row_cap r" for r by (simp add: row_cap_def)
    then show "(jr_id j \<in> R \<longrightarrow> jr_status j \<in> getFinalJobStatuses) \<and> servable possible (row_cap j)" if "j \<in> set (t_jobs d1)" for j
      using that led op by (auto simp: d1 ledger_def)
  qed (use led in \<open>simp add: ledger_def\<close>)
qed (use led in simp)

subsection \<open>Reports\<close>

abbreviation reported :: "VmId \<Rightarrow> JobId \<Rightarrow> job_row \<Rightarrow> bool" where
  "reported v j r \<equiv> jr_vm_id r = Some v \<and> jr_id r = j \<and> jr_status r \<notin> getFinalJobStatuses"

lemma updateJobState_outcome:
  "committed (snd (updateJobState v j js p)) = committed p \<or> (\<exists>rows d1.
     (\<exists>r \<in> set (t_jobs (committed p)). jr_vm_id r = Some v \<and> jr_id r = j) \<and>
     update_jobs (reported v j) (report_assign js (pg_now p)) (pg_now p) (committed p) = Inr (rows, d1) \<and>
     released (if js_status js \<in> getFinalJobStatuses then [j] else []) d1 (committed (snd (updateJobState v j js p))))"
proof -
  define ids where "ids = (if js_status js \<in> getFinalJobStatuses then [j] else [])"
  define T where "T = (\<lambda>n d d'. \<exists>rows d1. update_jobs (reported v j) (report_assign js n) n d = Inr (rows, d1) \<and> released ids d1 d')"
  define upd :: "unit result tx" where "upd = tx_bind (execQuery (\<lambda>now. update_jobs (reported v j) (report_assign js now) now)) (\<lambda>_.
     tx_bind (if js_status js \<in> getFinalJobStatuses then releaseVmResources [j] else tx_return ()) (\<lambda>_.
     tx_bind tx_commit (\<lambda>_. tx_return (Inr ()))))"
  have "commits T upd"
    unfolding upd_def T_def ids_def
    by (rule commits_exec [where S' = "\<lambda>_ n d d'. released (if js_status js \<in> getFinalJobStatuses then [j] else []) d d'"])
       (auto intro: commits_release commits_commit released_none dest: update_jobs_seqs)
  then have "commits (\<lambda>n d d'. rows \<noteq> [] \<and> T n d d') (case rows of [] \<Rightarrow> tx_return (Inl (JobNotFoundException (job_not_found v j)))
      | row # _ \<Rightarrow> if jr_status row = Cancelling \<and> js_status js \<noteq> Cancelled then tx_return (Inr ()) else upd)" for rows :: "job_row list"
    by (cases rows) (simp_all add: commits_return)
  then have "commits (\<lambda>n d d'. (\<exists>r \<in> set (t_jobs d). jr_vm_id r = Some v \<and> jr_id r = j) \<and> T n d d')
     (tx_bind (execQuery (select_jobs (\<lambda>r. jr_vm_id r = Some v \<and> jr_id r = j))) (\<lambda>rows. case rows of
      [] \<Rightarrow> tx_return (Inl (JobNotFoundException (job_not_found v j)))
    | row # _ \<Rightarrow> if jr_status row = Cancelling \<and> js_status js \<noteq> Cancelled then tx_return (Inr ()) else upd))"
    by (rule commits_exec) (auto simp: select_jobs_def filter_empty_conv)
  from commits_run [OF this] show ?thesis unfolding updateJobState_def upd_def T_def ids_def by blast
qed

lemma report_accounts:
  assumes dist: "distinct (map jr_id js)" and f: "f \<in> {jr_cpu, jr_ram}"
    and final: "js_status s \<in> getFinalJobStatuses \<Longrightarrow> \<exists>r \<in> set js. jr_id r = j \<and> holds R r"
  shows "held (if js_status s \<in> getFinalJobStatuses then insert j R else R) f (map (\<lambda>r. if reported v j r then report_assign s n r else r) js) w +
      freed f (if js_status s \<in> getFinalJobStatuses then [j] else []) (map (\<lambda>r. if reported v j r then report_assign s n r else r) js) w
    = held R f js w"
proof -
  define g where "g = (\<lambda>r. if reported v j r then report_assign s n r else r)"
  define R' where "R' = (if js_status s \<in> getFinalJobStatuses then insert j R else R)"
  define ids where "ids = (if js_status s \<in> getFinalJobStatuses then [j] else [])"
  have "(if jr_vm_id (g r) = Some w \<and> holds R' (g r) then f (g r) else 0) +
      (if jr_id (g r) \<in> set ids \<and> jr_vm_id (g r) = Some w then f (g r) else 0) = (if jr_vm_id r = Some w \<and> holds R r then f r else 0)"
    if r: "r \<in> set js" for r
  proof -
    have key: "f (g r) = f r" "jr_vm_id (g r) = jr_vm_id r" "jr_id (g r) = jr_id r" using f by (auto simp: g_def)
    show ?thesis
    proof (cases "js_status s \<in> getFinalJobStatuses")
      case True
      have "holds R r" if "jr_id r = j" using final [OF True] that r dist by (auto simp: distinct_map dest: inj_onD)
      then show ?thesis unfolding key using True by (auto simp: R'_def ids_def holds_def g_def)
    next
      case False
      then have "holds R (g r) = holds R r" by (auto simp: g_def holds_def status_sets)
      then show ?thesis unfolding key using False by (simp add: R'_def ids_def)
    qed
  qed
  then have "map (\<lambda>r. (if jr_vm_id (g r) = Some w \<and> holds R' (g r) then f (g r) else 0) +
      (if jr_id (g r) \<in> set ids \<and> jr_vm_id (g r) = Some w then f (g r) else 0)) js =
      map (\<lambda>r. if jr_vm_id r = Some w \<and> holds R r then f r else 0) js" by simp
  then have "held R' f (map g js) w + freed f ids (map g js) w = held R f js w"
    unfolding held_sum freed_sum map_map comp_def sum_list_addf [symmetric] by (simp only:)
  then show ?thesis unfolding g_def ids_def R'_def .
qed

lemma led_report:
  assumes wf: "db_wf (committed p)" and led: "ledger possible R (committed p)"
    and ord: "orderly possible R (UpdateJobState v j js) (committed p) (committed (snd (updateJobState v j js p)))"
  shows "ledger possible (R \<union> now_returned (UpdateJobState v j js) (committed p) (committed (snd (updateJobState v j js p))))
     (committed (snd (updateJobState v j js p)))"
proof (cases "committed (snd (updateJobState v j js p)) = committed p")
  case True
  with led show ?thesis by simp
next
  case changed: False
  let ?d = "committed p" and ?fin = "js_status js \<in> getFinalJobStatuses"
  define g where "g = (\<lambda>r. if reported v j r then report_assign js (pg_now p) r else r)"
  define R' where "R' = (if ?fin then insert j R else R)"
  obtain rows d1 q where q: "q \<in> set (t_jobs ?d)" "jr_vm_id q = Some v" "jr_id q = j"
    and up: "update_jobs (reported v j) (report_assign js (pg_now p)) (pg_now p) ?d = Inr (rows, d1)"
    and rel: "released (if ?fin then [j] else []) d1 (committed (snd (updateJobState v j js p)))"
    using updateJobState_outcome [of v j js p] changed by blast
  have d1: "t_vms d1 = t_vms ?d" "seqs d1 = seqs ?d" "t_jobs d1 = map g (t_jobs ?d)" using up by (auto simp: g_def elim!: update_jobsE)
  have dist: "distinct (map jr_id (t_jobs ?d))" using wf by (simp add: db_wf_def)
  have holds: "\<exists>r \<in> set (t_jobs ?d). jr_id r = j \<and> holds R r" if ?fin using ord that changed by simp
  have "ledger possible R' (committed (snd (updateJobState v j js p)))"
  proof (rule ledger_released [OF led rel d1(1,2)])
    show "held R' f (t_jobs d1) w + freed f (if ?fin then [j] else []) (t_jobs d1) w \<le> held R f (t_jobs ?d) w"
      if "f \<in> {jr_cpu, jr_ram}" for f w
      using report_accounts [OF dist that holds, where s = js and v = v and n = "pg_now p" and w = w]
      unfolding R'_def g_def d1(3) by simp
    have cap: "row_cap (g r) = row_cap r" "jr_id (g r) = jr_id r" for r by (simp_all add: row_cap_def g_def)
    have "r = q" if "r \<in> set (t_jobs ?d)" "jr_id r = j" for r using dist that q by (auto simp: distinct_map dest: inj_onD)
    then have "jr_status (g r) \<in> getFinalJobStatuses" if "r \<in> set (t_jobs ?d)" "jr_id r = j" ?fin for r
      using that q by (simp add: g_def)
    moreover have "jr_status (g r) \<in> getFinalJobStatuses" if "r \<in> set (t_jobs ?d)" "jr_id r \<in> R" for r
      using that led by (simp add: ledger_def g_def)
    ultimately have "jr_id r \<in> R' \<longrightarrow> jr_status (g r) \<in> getFinalJobStatuses" if "r \<in> set (t_jobs ?d)" for r
      using that by (auto simp: R'_def split: if_splits)
    with led cap show "(jr_id k \<in> R' \<longrightarrow> jr_status k \<in> getFinalJobStatuses) \<and> servable possible (row_cap k)"
      if "k \<in> set (t_jobs d1)" for k
      using that unfolding d1 set_map by (auto simp: ledger_def)
    have "j < next_job (seqs ?d)" using q wf by (auto simp: db_wf_def)
    then show "\<forall>i \<in> R'. i < next_job (seqs ?d)" using led by (simp add: ledger_def R'_def)
  qed
  with changed show ?thesis by (simp add: R'_def split: if_splits)
qed

text \<open>Every call other than the commit of a plan keeps the ledger.\<close>

lemma ledger_op:
  assumes "db_wf (committed p)" and "ledger possible R (committed p)" and "\<not> is_commit op"
    and "orderly possible R op (committed p) (committed (apply_op jsonb op p))"
  shows "ledger possible (R \<union> now_returned op (committed p) (committed (apply_op jsonb op p))) (committed (apply_op jsonb op p))"
proof (cases "gives_back op")
  case True
  then show ?thesis
    using assms led_report [OF assms(1,2)]
    by (cases op) (auto simp: cancelTask_def cancelTimedOutJobs_def intro!: led_cancel [OF assms(1,2)])
next
  case False
  then show ?thesis using led_op [OF assms(3) False assms(4)] assms(2) by (cases op) (auto simp: ledger_kept_def)
qed

end
