(* ===== verification/PlanClock.thy ===== *)
theory PlanClock
  imports PlanRounds
begin

text \<open>
  The clock of the database and the order of the plans. No call moves the clock; starting a round adds at most
  one plan, at the end, with the time of the start; so, as long as the clock does not run backwards, the newest plan is the
  last one, and only the round that made it can commit.
\<close>

section \<open>Facts carried through a transaction\<close>

definition leads :: "(int \<Rightarrow> db \<Rightarrow> db \<Rightarrow> bool) \<Rightarrow> 'a tx \<Rightarrow> (int \<Rightarrow> db \<Rightarrow> db \<Rightarrow> bool) \<Rightarrow> bool" where
  "leads P m Q \<longleftrightarrow> (\<forall>t r t'. m t = (r, t') \<longrightarrow> P (pg_now t) (committed t) (work t) \<longrightarrow> Q (pg_now t') (committed t') (work t'))"

lemma leads_return: "leads P (tx_return x) P"
  and leads_throw: "leads P (tx_throw e) P"
  and leads_lift: "leads P (tx_lift r) P"
  by (simp_all add: leads_def tx_return_def tx_throw_def tx_lift_def)

lemma leads_bind: "leads P m P \<Longrightarrow> (\<And>x. leads P (f x) Q) \<Longrightarrow> (\<And>n c d. P n c d \<Longrightarrow> Q n c d) \<Longrightarrow> leads P (tx_bind m f) Q"
  unfolding leads_def by (fastforce simp: tx_bind_def split: prod.splits sum.splits)

lemma leads_try: "leads P m Q \<Longrightarrow> leads P (tx_try m h) Q"
  unfolding leads_def by (fastforce simp: tx_try_def split: prod.splits sum.splits)

lemma leads_weaken: "leads P m P \<Longrightarrow> (\<And>n c d. P n c d \<Longrightarrow> Q n c d) \<Longrightarrow> leads P m Q"
  unfolding leads_def by blast

lemma leads_bind_result:
  "leads P m P \<Longrightarrow> (\<And>x. leads P (f x) Q) \<Longrightarrow> (\<And>n c d. P n c d \<Longrightarrow> Q n c d) \<Longrightarrow> leads P (tx_bind_result m f) Q"
  unfolding tx_bind_result_def by (rule leads_bind) (auto intro: leads_weaken [OF leads_return] split: sum.splits)

lemma leads_exec: "(\<And>n c d x d'. P n c d \<Longrightarrow> q n d = Inr (x, d') \<Longrightarrow> P n c d') \<Longrightarrow> leads P (execQuery q) P"
  unfolding leads_def by (fastforce simp: execQuery_def Let_def split: if_splits fault.splits sum.splits prod.splits)

lemma leads_commit: "(\<And>n c d. P n c d \<Longrightarrow> P n d d) \<Longrightarrow> leads P tx_commit P"
  unfolding leads_def by (fastforce simp: tx_commit_def Let_def split: if_splits fault.splits)

lemma leads_run:
  assumes "leads P body Q" and "P (pg_now p) (committed p) (committed p)"
    and "\<And>n c d. Q n c d \<Longrightarrow> T n (c\<lparr>seqs := seqs d\<rparr>)" and "T (pg_now p) (committed p)"
  shows "T (pg_now (snd (run_txn h body p))) (committed (snd (run_txn h body p)))"
proof -
  have "T (pg_now t) ((committed t)\<lparr>seqs := seqs (work t)\<rparr>)" if "body (begin_txn p) = (r, t)" for r t
    using assms(1,2,3) that unfolding leads_def by (metis begin_txn_simps(1-3))
  with assms(4) show ?thesis by (auto simp: run_txn_def end_txn_def split: fault.splits prod.splits sum.splits)
qed

section \<open>The clock\<close>

definition steady :: "'a tx \<Rightarrow> bool" where
  "steady m \<longleftrightarrow> (\<forall>k. leads (\<lambda>n _ _. n = k) m (\<lambda>n _ _. n = k))"

lemma steady_bind: "steady m \<Longrightarrow> (\<And>x. steady (f x)) \<Longrightarrow> steady (tx_bind m f)"
  and steady_bind_result: "steady m' \<Longrightarrow> (\<And>x. steady (f' x)) \<Longrightarrow> steady (tx_bind_result m' f')"
  and steady_try: "steady m'' \<Longrightarrow> steady (tx_try m'' h)"
  unfolding steady_def by (auto intro: leads_bind leads_bind_result leads_try)

lemma steady_exec: "steady (execQuery q)"
  and steady_return: "steady (tx_return x)"
  and steady_throw: "steady (tx_throw e)"
  and steady_lift: "steady (tx_lift r)"
  and steady_commit: "steady tx_commit"
  unfolding steady_def by (auto intro: leads_exec leads_return leads_throw leads_lift leads_commit)

lemmas steady_rules = steady_bind steady_bind_result steady_try steady_exec steady_return steady_throw steady_lift steady_commit

lemma run_txn_now: "steady body \<Longrightarrow> pg_now (snd (run_txn h body p)) = pg_now p"
  using leads_run [where P = "\<lambda>n _ _. n = pg_now p" and Q = "\<lambda>n _ _. n = pg_now p" and T = "\<lambda>n _. n = pg_now p"]
  unfolding steady_def by blast

lemma try_txn_now: "steady body \<Longrightarrow> pg_now (snd (try_txn h body p)) = pg_now p"
  unfolding try_txn_def by (intro run_txn_now steady_rules)

lemma execWritableQuery_now [simp]: "pg_now (snd (execWritableQuery q p)) = pg_now p"
  unfolding execWritableQuery_def by (intro try_txn_now steady_rules)

lemma steady_restartJobs: "steady (restartJobs ids s ja)"
  unfolding restartJobs_def by (intro steady_rules)

lemma steady_release: "steady (releaseVmResources ids)"
  by (simp add: releaseVmResources_def steady_rules)

lemma steady_allocate_loop: "steady (allocate_loop m acc)"
  by (induction m acc rule: allocate_loop.induct) (auto intro!: steady_rules)

lemma terminateVmsWhere_now [simp]: "pg_now (snd (terminateVmsWhere cond from s va ja p)) = pg_now p"
  unfolding terminateVmsWhere_def Let_def
  by (intro try_txn_now steady_bind steady_exec) (auto intro!: steady_rules steady_restartJobs)

lemma cancelJobs_now [simp]: "pg_now (snd (cancelJobs c p)) = pg_now p"
  unfolding cancelJobs_def Let_def
  by (intro try_txn_now steady_bind steady_exec) (auto intro!: steady_rules steady_release)

lemma restartAllocatingVms_now [simp]: "pg_now (snd (restartAllocatingVms c va p)) = pg_now p"
  by (simp add: restartAllocatingVms_def any_rel.snd_drop_rows)

lemma rollback_now [simp]: "pg_now (snd (rollbackUnallocatedVmsState ids va ja p)) = pg_now p"
proof -
  obtain c q where q: "restartAllocatingVms (ids_cond ids) va p = (c, q)" by (cases "restartAllocatingVms (ids_cond ids) va p")
  then have "pg_now q = pg_now p" using restartAllocatingVms_now [of "ids_cond ids" va p] by simp
  with q show ?thesis by (auto simp: rollbackUnallocatedVmsState_def split: call.splits sum.splits)
qed

lemma startScheduling_now [simp]: "pg_now (snd (startScheduling b i l p)) = pg_now p"
proof -
  have "steady (checkLeader n)" "steady (planWasRecentlyUpdated i)" "steady (insertNewPlanRecord b)" for n
    unfolding checkLeader_def planWasRecentlyUpdated_def insertNewPlanRecord_def
    by (auto intro!: steady_rules split: prod.splits)
  then show ?thesis
    unfolding startScheduling_def acquireLock_def by (intro run_txn_now steady_rules) (auto intro!: steady_rules split: option.splits)
qed

lemma commitPlanChange_now [simp]: "pg_now (snd (commitPlanChange ch plan p)) = pg_now p"
proof -
  have "steady (checkConflicts ch)"
    unfolding checkConflicts_def getJobStatusesWithLock_def getVmStatusesWithLock_def by (auto intro!: steady_rules)
  then have "steady (commit_locked ch plan)"
    unfolding commit_locked_def isSchedulingRelevant_def terminateVms_def updateVmCapacities_def allocateNewVms_def
      applyJobVmAssignments_def refreshPlanActivityTs_def
    by (auto intro!: steady_rules steady_allocate_loop)
  then show ?thesis unfolding commitPlanChange_def acquireLock_def by (intro run_txn_now steady_rules)
qed

lemma agent_calls_now [simp]:
  "pg_now (snd (updateJobState v j js p)) = pg_now p" "pg_now (snd (getAssignedJobs v p)) = pg_now p"
  "pg_now (snd (getJobToLaunch v j p)) = pg_now p" "pg_now (snd (terminateVmsWithInactiveAgents limit ja p)) = pg_now p"
  unfolding updateJobState_def getAssignedJobs_def getJobToLaunch_def terminateVmsWithInactiveAgents_def Let_def
  by (rule try_txn_now, auto intro!: steady_rules steady_release steady_restartJobs split: list.splits)+

lemma client_calls_now [simp]:
  "pg_now (snd (addTask jsonb tp p)) = pg_now p" "pg_now (snd (getJobStates i p)) = pg_now p" "pg_now (snd (getAllocatedVms p)) = pg_now p"
  "pg_now (snd (getCurrentState p)) = pg_now p"
  unfolding addTask_def getJobStates_def getAllocatedVms_def getCurrentState_def getQueuedJobs_def getActiveVms_def
  by (intro try_txn_now run_txn_now steady_rules)+

text \<open>No call moves the clock.\<close>

lemma apply_op_now [simp]: "pg_now (apply_op jsonb op p) = pg_now p"
  by (cases op) (simp_all add: getVmsToAllocate_def getVmsToTerminate_def returnUnterminatedVms_def saveVmTerminationResult_def
      setVmStatus_def saveVmAllocationResult_def cancelTask_def cancelTimedOutJobs_def restartStaleAllocatingVms_def
      terminateStaleAllocatingVms_def terminateVmsWithoutAgents_def any_rel.snd_read_rows any_rel.snd_drop_rows)

section \<open>The order of the plans\<close>

text \<open>Starting a round, however it ends, adds at most one plan.\<close>

lemma startScheduling_plans:
  "next_plan (seqs (committed p)) \<le> next_plan (seqs (committed (snd (startScheduling b i l p)))) \<and>
   (t_plan (committed (snd (startScheduling b i l p))) = t_plan (committed p) \<or>
   (\<exists>row. t_plan (committed (snd (startScheduling b i l p))) = t_plan (committed p) @ [row] \<and> pr_updated row = pg_now p \<and>
      pr_id row = next_plan (seqs (committed p))))"
proof -
  define P where "P = (\<lambda>n (c::db) (d::db). n = pg_now p \<and> t_plan c = t_plan (committed p) \<and> t_plan d = t_plan (committed p) \<and>
     next_plan (seqs d) = next_plan (seqs (committed p)))"
  define Q where "Q = (\<lambda>n::int. \<lambda>(c::db) (d::db). next_plan (seqs (committed p)) \<le> next_plan (seqs d) \<and> (t_plan c = t_plan (committed p) \<or>
     (\<exists>row. t_plan c = t_plan (committed p) @ [row] \<and> pr_updated row = pg_now p \<and> pr_id row = next_plan (seqs (committed p)))))"
  have PQ: "P n c d \<Longrightarrow> Q n c d" for n c d by (simp add: P_def Q_def)
  have still: "leads P (execQuery lock_plan) P" "leads P (execQuery max_lock) P" "leads P (execQuery last_activity) P"
    "leads P (execQuery (insert_lock k)) P" "leads P tx_commit P" for k
    by (auto intro!: leads_exec leads_commit simp: P_def lock_plan_def max_lock_def last_activity_def insert_lock_def split: if_splits)
  have lead: "leads P (checkLeader k) P" "leads P (planWasRecentlyUpdated i) P" for k
    unfolding checkLeader_def planWasRecentlyUpdated_def
    by (auto intro!: leads_try leads_bind leads_return leads_lift still split: prod.splits)
  have ins: "leads P (insertNewPlanRecord b) Q"
    unfolding leads_def insertNewPlanRecord_def
    by (auto simp: P_def Q_def tx_try_def tx_bind_def tx_return_def tx_commit_def execQuery_def insert_plan_def Let_def
        split: if_splits fault.splits prod.splits sum.splits)
  have "leads P (tx_bind_result (tx_try (tx_bind (execQuery lock_plan) (\<lambda>_. tx_return (Inr ()))) (acquireLock_failure w))
      (\<lambda>_. tx_bind (case l of Some n \<Rightarrow> checkLeader n | None \<Rightarrow> tx_return (Inr ())) (\<lambda>_.
        tx_bind_result (planWasRecentlyUpdated i) (\<lambda>recent. if recent
        then tx_bind tx_commit (\<lambda>_. tx_return (Inl (SchedulingCancelled
               ''The plan was recently updated, new scheduling is not needed yet'')))
        else insertNewPlanRecord b)))) Q" for w
    using ins PQ by (intro leads_bind_result leads_bind leads_try still lead leads_return)
      (auto intro!: lead leads_return leads_bind still leads_weaken [OF leads_return] split: option.splits)
  from leads_run [OF this, where T = "\<lambda>n c. Q n c c"] show ?thesis
    unfolding startScheduling_def acquireLock_def by (auto simp: P_def Q_def)
qed

text \<open>The times of the plans: none in the future, none later than the last one.\<close>

definition plans_ordered :: "pg \<Rightarrow> bool" where
  "plans_ordered p \<longleftrightarrow> (\<forall>r \<in> set (t_plan (committed p)). pr_updated r \<le> pg_now p \<and> pr_updated r \<le> pr_updated (last (t_plan (committed p))))"

definition current :: "PlanId \<Rightarrow> db \<Rightarrow> bool" where
  "current plan d \<longleftrightarrow> t_plan d \<noteq> [] \<and> pr_id (last (t_plan d)) = plan"

lemma last_updated_Max: "t_plan d \<noteq> [] \<Longrightarrow> last_updated d = Max (pr_updated ` set (t_plan d))"
  by (cases "t_plan d") (simp_all add: last_updated_def flip: Max.set_eq_fold)

lemma newest_is_last:
  assumes ord: "plans_ordered p" and new: "map pr_id (filter (\<lambda>r. pr_updated r = last_updated (committed p)) (t_plan (committed p))) = [plan]"
  shows "current plan (committed p)"
proof -
  let ?d = "committed p"
  have ne: "t_plan ?d \<noteq> []" using new by auto
  have "Max (pr_updated ` set (t_plan ?d)) = pr_updated (last (t_plan ?d))"
    using ord ne by (intro Max_eqI) (auto simp: plans_ordered_def)
  then have "pr_updated (last (t_plan ?d)) = last_updated ?d" using ne by (simp add: last_updated_Max)
  then have "pr_id (last (t_plan ?d)) \<in> set (map pr_id (filter (\<lambda>r. pr_updated r = last_updated ?d) (t_plan ?d)))"
    using ne by simp
  with new ne show ?thesis by (simp add: current_def)
qed

section \<open>Overtaken rounds\<close>

text \<open>A commit, however it ends, touches the plans only when its own is the newest, and then only the time of that one.\<close>

lemma allocate_loop_plan:
  "allocate_loop m acc t = (Inr (Inr acc'), t') \<Longrightarrow> t_plan (work t') = t_plan (work t) \<and> pg_now t' = pg_now t"
proof (induction m acc arbitrary: t rule: allocate_loop.induct)
  case (2 i slot rest acc)
  obtain acc1 u where one: "tx_try (tx_bind (execQuery (insert_vm slot)) (\<lambda>v. tx_return (Inr (umap_emplace i v acc))))
      (failure_prefix ''Unexpected exception while inserting new vm row: '') t = (Inr (Inr acc1), u)"
    and rest: "allocate_loop rest acc1 u = (Inr (Inr acc'), t')"
    using "2.prems" unfolding allocate_loop.simps by (rule tx_bind_result_success)
  have "t_plan (work u) = t_plan (work t) \<and> pg_now u = pg_now t"
    using exec_try_success [OF one] by (auto elim!: insert_vmE)
  with "2.IH" [OF rest] show ?case by simp
qed (simp add: tx_return_def)

lemma commit_plans:
  assumes run: "commitPlanChange ch plan p = (r, p')"
    and thru: "r = Returned (Inr ()) \<or> \<not> same_tables (committed p) (committed p')"
  shows "map pr_id (filter (\<lambda>r. pr_updated r = last_updated (committed p)) (t_plan (committed p))) = [plan] \<and>
     t_plan (committed p') = map (\<lambda>r. if pr_id r = plan then r\<lparr>pr_updated := pg_now p\<rparr> else r) (t_plan (committed p))"
proof -
  obtain t0 ta tb tc td te tf tg s where t0: "work t0 = committed p" "pg_now t0 = pg_now p"
    and a: "isSchedulingRelevant plan t0 = (Inr (Inr True), ta)"
    and b: "checkConflicts ch ta = (Inr (Inr ()), tb)"
    and c: "terminateVms (vmsToTerminate ch) tb = (Inr (Inr ()), tc)" "updateVmCapacities (updatedIdleCapacities ch) tc = (Inr (Inr ()), td)"
    and e: "allocateNewVms (desiredSlotMap ch) td = (Inr (Inr s), te)"
    and f: "applyJobVmAssignments (jobToVm ch) s te = (Inr (Inr ()), tf)"
    and g: "refreshPlanActivityTs plan tf = (Inr (Inr ()), tg)" and h: "committed p' = work tg"
    using run thru by (rule commit_steps)
  show ?thesis
    using isSchedulingRelevant_success [OF a] checkConflicts_success [OF b] planned_vms [OF c]
      allocate_loop_plan [OF e [unfolded allocateNewVms_def]] planned_jobs [OF f] refreshPlanActivityTs_success [OF g] h t0 by simp
qed

interpretation plan_seq: db_relation "\<lambda>d d'. next_plan (seqs d') = next_plan (seqs d)"
  by unfold_locales simp_all

lemma commit_next_plan: "next_plan (seqs (committed (snd (commitPlanChange ch plan p)))) = next_plan (seqs (committed p))"
  by (rule plan_seq.commit_rule [where Q = "\<lambda>_. True"])
     (auto simp: assignments_stmt_def update_plan_def elim!: update_vmsE update_jobsE insert_vmE)

text \<open>Touching the newest plan keeps the order.\<close>

lemma plans_ordered_touch:
  assumes ord: "plans_ordered p" and new: "map pr_id (filter (\<lambda>r. pr_updated r = last_updated (committed p)) (t_plan (committed p))) = [plan]"
    and d': "t_plan (committed p') = map (\<lambda>r. if pr_id r = plan then r\<lparr>pr_updated := pg_now p\<rparr> else r) (t_plan (committed p))"
    and now: "pg_now p' = pg_now p"
  shows "plans_ordered p' \<and> current plan (committed p) \<and> map pr_id (t_plan (committed p')) = map pr_id (t_plan (committed p))"
proof -
  define g where "g = (\<lambda>r::plan_row. if pr_id r = plan then r\<lparr>pr_updated := pg_now p\<rparr> else r)"
  have d': "t_plan (committed p') = map g (t_plan (committed p))" using d' by (simp add: g_def)
  have cur: "current plan (committed p)" by (rule newest_is_last [OF ord new])
  then have "g (last (t_plan (committed p))) = (last (t_plan (committed p)))\<lparr>pr_updated := pg_now p\<rparr>" "t_plan (committed p) \<noteq> []"
    by (simp_all add: current_def g_def)
  moreover have "pr_updated (g r) \<le> pg_now p" if "r \<in> set (t_plan (committed p))" for r
    using ord that by (simp add: plans_ordered_def g_def)
  ultimately have "plans_ordered p'" by (auto simp: plans_ordered_def d' now last_map)
  moreover have "pr_id (g r) = pr_id r" for r by (simp add: g_def)
  ultimately show ?thesis using cur by (simp add: d')
qed

text \<open>
  A round numbered \<open>k\<close> has started: the last plan is \<open>k\<close> or a later one, and later numbers are still to come. No call,
  and no passing of time, takes this back.
\<close>

definition overtaken :: "PlanId \<Rightarrow> pg \<Rightarrow> bool" where
  "overtaken k p \<longleftrightarrow> plans_ordered p \<and> t_plan (committed p) \<noteq> [] \<and> k \<le> pr_id (last (t_plan (committed p))) \<and>
     k \<le> next_plan (seqs (committed p))"

lemma overtaken_commit:
  assumes "overtaken k p"
  shows "overtaken k (snd (commitPlanChange ch plan p))"
proof -
  obtain r p' where run: "commitPlanChange ch plan p = (r, p')" by fastforce
  have seq: "next_plan (seqs (committed p')) = next_plan (seqs (committed p))" and now: "pg_now p' = pg_now p"
    using commit_next_plan [of ch plan p] apply_op_now [of undefined "CommitPlanChange ch plan" p] run by simp_all
  show ?thesis
  proof (cases "same_tables (committed p) (committed p')")
    case True
    with assms seq now run show ?thesis by (simp add: overtaken_def plans_ordered_def same_tablesD)
  next
    case False
    have "map pr_id (filter (\<lambda>r. pr_updated r = last_updated (committed p)) (t_plan (committed p))) = [plan]"
      "t_plan (committed p') = map (\<lambda>r. if pr_id r = plan then r\<lparr>pr_updated := pg_now p\<rparr> else r) (t_plan (committed p))"
      using commit_plans [OF run] False by simp_all
    from plans_ordered_touch [OF _ this now] have "plans_ordered p'" "map pr_id (t_plan (committed p')) = map pr_id (t_plan (committed p))"
      using assms by (simp_all add: overtaken_def)
    then show ?thesis using assms seq run by (simp add: overtaken_def) (metis last_map map_is_Nil_conv)
  qed
qed

lemma overtaken_start:
  assumes "overtaken k p"
  shows "overtaken k (snd (startScheduling b i l p))"
  using startScheduling_plans [of p b i l] assms apply_op_now [of undefined "StartScheduling b i l" p]
  by (auto simp: overtaken_def plans_ordered_def)

lemma overtaken_op: "overtaken k p \<Longrightarrow> overtaken k (apply_op jsonb op p)"
proof (cases "is_plan_op op")
  case True
  assume "overtaken k p"
  with True show ?thesis by (cases op) (simp_all add: overtaken_commit overtaken_start)
next
  case False
  assume "overtaken k p"
  with plan_rel.apply_op_write [OF False, of p jsonb] show ?thesis by (simp add: overtaken_def plans_ordered_def plan_kept_def)
qed

text \<open>A call, some time later.\<close>

fun timed :: "(string \<Rightarrow> string option) \<Rightarrow> nat \<times> storage_op \<Rightarrow> pg \<Rightarrow> pg" where
  "timed jsonb (dt, op) p = apply_op jsonb op (p\<lparr>pg_now := pg_now p + int dt\<rparr>)"

lemma overtaken_steps: "overtaken k p \<Longrightarrow> overtaken k (fold (timed jsonb) steps p)"
proof (induction steps arbitrary: p)
  case (Cons step steps)
  obtain dt op where step: "step = (dt, op)" by fastforce
  have "overtaken k (p\<lparr>pg_now := pg_now p + int dt\<rparr>)" using Cons.prems by (auto simp: overtaken_def plans_ordered_def intro: order_trans)
  from Cons.IH [OF overtaken_op [OF this]] show ?case by (simp add: step)
qed simp

text \<open>
  C30. A round that was overtaken commits nothing: once a newer round has started, and after any calls and
  any time since (the newer round may have committed, or yet newer ones started and committed), committing
  the plan of an earlier round neither reports success nor changes a table, whatever fails. (The clock of
  the database is taken not to run backwards.)
\<close>

theorem overtaken_round_rejected:
  assumes "startScheduling b interval lock p = (Returned (Inr newer), p1)"
    and "\<forall>r \<in> set (t_plan (committed p)). pr_updated r \<le> pg_now p" and "plan < newer"
    and "commitPlanChange ch plan (fold (timed jsonb) steps p1) = (r, p')"
  shows "r \<noteq> Returned (Inr ()) \<and> same_tables (committed (fold (timed jsonb) steps p1)) (committed p')"
proof (rule ccontr)
  let ?q = "fold (timed jsonb) steps p1"
  note start = startScheduling_success [OF assms(1)]
  have "pg_now p1 = pg_now p" "newer \<le> next_plan (seqs (committed p1))"
    using apply_op_now [of undefined "StartScheduling b interval lock" p] startScheduling_plans [of p b interval lock] start assms(1) by simp_all
  then have "overtaken newer p1" using start assms(2) by (auto simp: overtaken_def plans_ordered_def)
  then have q: "overtaken newer ?q" by (rule overtaken_steps)
  assume "\<not> ?thesis"
  then have "map pr_id (filter (\<lambda>r. pr_updated r = last_updated (committed ?q)) (t_plan (committed ?q))) = [plan]"
    using commit_plans [OF assms(4)] by blast
  then have "current plan (committed ?q)" using q by (intro newest_is_last) (simp add: overtaken_def)
  with q assms(3) show False by (simp add: overtaken_def current_def)
qed

text \<open>
  The same tables 50 seconds later: the plan of the first round is due again. The second round starts, commits
  its own change a moment later, and then the first one tries.
\<close>

definition ex_later :: pg where
  "ex_later = ex_planned\<lparr>pg_now := 150000000\<rparr>"

definition ex_second :: "(nat \<times> storage_op) list" where
  "ex_second = [(0, GetCurrentState), (7, CommitPlanChange ex_grow 2)]"

theorem overtaken_round_rejected_witness:
  "\<exists>p1 r p'. startScheduling ''c'' 40 None ex_later = (Returned (Inr 2), p1) \<and>
     map vr_status (t_vms (committed (fold (timed Some) ex_second p1))) = [PendingAllocation] \<and>
     commitPlanChange ex_place 1 (fold (timed Some) ex_second p1) = (r, p') \<and> r \<noteq> Returned (Inr ()) \<and>
     same_tables (committed (fold (timed Some) ex_second p1)) (committed p')"
proof -
  have "fst (startScheduling ''c'' 40 None ex_later) = Returned (Inr 2)"
    and vm: "map vr_status (t_vms (committed (fold (timed Some) ex_second (snd (startScheduling ''c'' 40 None ex_later))))) = [PendingAllocation]"
    by code_simp+
  then obtain p1 where p1: "startScheduling ''c'' 40 None ex_later = (Returned (Inr 2), p1)" by (metis prod.collapse)
  have old: "\<forall>r \<in> set (t_plan (committed ex_later)). pr_updated r \<le> pg_now ex_later" by code_simp
  obtain r p' where c: "commitPlanChange ex_place 1 (fold (timed Some) ex_second p1) = (r, p')" by fastforce
  from overtaken_round_rejected [OF p1 old _ c] p1 vm c show ?thesis by auto
qed

end
