(* ===== verification/Capacity.thy ===== *)
theory Capacity
  imports Ledger PlanClock
begin

text \<open>
  The commit of a plan keeps the ledger. Between the snapshot a scheduler takes and the plan it commits, the calls of the others
  only let idle capacities grow; so what the assignment computed from the snapshot takes from a VM is still there, and the
  new VMs are exactly as large as their jobs and their idle capacity.
\<close>

section \<open>Idle capacity between a snapshot and its commit\<close>

text \<open>Off the commit of a plan, the idle capacity of a VM never shrinks.\<close>

definition vm_grows :: "vm_row \<Rightarrow> vm_row \<Rightarrow> bool" where
  "vm_grows r r' \<longleftrightarrow> vr_id r' = vr_id r \<and> vr_cpu_idle r \<le> vr_cpu_idle r' \<and> vr_ram_idle r \<le> vr_ram_idle r'"

definition idle_grows :: "db \<Rightarrow> db \<Rightarrow> bool" where
  "idle_grows d d' \<longleftrightarrow> wf_step d d' \<and> (db_wf d \<longrightarrow> list_all2 vm_grows (t_vms d) (t_vms d'))"

lemma idle_grows_same: "wf_step d d' \<Longrightarrow> t_vms d' = t_vms d \<Longrightarrow> idle_grows d d'"
  by (auto simp: idle_grows_def vm_grows_def intro!: list.rel_refl_strong)

lemma idle_grows_update:
  assumes "update_vms c a n d = Inr (rows, d')" and "wf_step d d'" and "\<And>r. vm_grows r (a r)"
  shows "idle_grows d d'"
  using assms by (auto simp: idle_grows_def vm_grows_def list.rel_map elim!: update_vmsE intro!: list.rel_refl_strong)

lemma idle_grows_release:
  assumes "release_stmt ids n d = Inr (u, d')"
  shows "idle_grows d d'"
proof -
  have wf: "wf_step d d'" using wf.w_release assms unfolding stmt_keeps_def by blast
  show ?thesis
  proof (cases "db_wf d")
    case True
    have "0 \<le> freed f ids (t_jobs d) v" if "f \<in> {jr_cpu, jr_ram}" for f v
      using True that by (auto intro!: freed_nonneg simp: db_wf_def job_ok_def)
    moreover have "vr_cpu_idle r \<le> vr_cpu r \<and> vr_ram_idle r \<le> vr_ram r" if "r \<in> set (t_vms d)" for r
      using True that by (simp add: db_wf_def vm_ok_def)
    ultimately show ?thesis
      using assms wf by (auto simp: idle_grows_def vm_grows_def list.rel_map elim!: release_stmtE update_vmsE intro!: list.rel_refl_strong)
  next
    case False
    with wf show ?thesis by (simp add: idle_grows_def)
  qed
qed

interpretation grow_rel: db_relation idle_grows
proof
  have grow: "vm_grows a b \<Longrightarrow> vm_grows b c \<Longrightarrow> vm_grows a c" for a b c by (simp add: vm_grows_def)
  show "idle_grows a c" if ab: "idle_grows a b" and bc: "idle_grows b c" for a b c
  proof -
    have "wf_step a c" using ab bc wf_rel.rel_trans unfolding idle_grows_def by blast
    moreover have "list_all2 vm_grows (t_vms a) (t_vms c)" if "db_wf a"
      using ab bc that by (auto simp: idle_grows_def wf_step_def intro: list_all2_trans [OF grow])
    ultimately show ?thesis by (simp add: idle_grows_def)
  qed
  show "idle_grows d d' \<Longrightarrow> idle_grows d (d\<lparr>seqs := seqs d'\<rparr>)" for d d'
    by (rule idle_grows_same) (simp_all add: idle_grows_def wf_rel.rel_seqs)
qed (simp add: idle_grows_same wf_rel.rel_refl)

lemma idle_grows_jobs: "update_jobs c a n d = Inr (rows, d') \<Longrightarrow> wf_step d d' \<Longrightarrow> idle_grows d d'"
  by (rule idle_grows_same) (auto elim!: update_jobsE)

lemma stmt_keeps_idle:
  "stmt_keeps wf_step q \<Longrightarrow> (\<And>n d x d'. q n d = Inr (x, d') \<Longrightarrow> t_vms d' = t_vms d) \<Longrightarrow> stmt_keeps idle_grows q"
  unfolding stmt_keeps_def by (blast intro: idle_grows_same)

lemma idle_grows_inserts:
  "stmt_keeps idle_grows (insert_task jsonb tp)" "stmt_keeps idle_grows (insert_jobs jsonb tp i)"
  "stmt_keeps idle_grows (insert_lock k)" "stmt_keeps idle_grows (insert_plan b)"
  by (rule stmt_keeps_idle, rule wf.w_task wf.w_jobs wf.w_lock wf.w_plan,
      auto elim!: insert_taskE insert_jobsE simp: insert_lock_def insert_plan_def Let_def split: if_splits)+

interpretation grow: write_relation idle_grows
proof
  show "idle_grows d d'" if "s \<in> {Allocating, PendingTermination, Terminating, Terminated}"
    "update_vms c (\<lambda>r. r\<lparr>vr_status := s\<rparr>) n d = Inr (rows, d')" for s c n d rows d'
    using idle_grows_update [OF that(2) wf.w_status [OF that]] by (simp add: vm_grows_def)
  show "idle_grows d d'" if "update_vms c (\<lambda>r. r\<lparr>vr_agent_activity := a\<rparr>) n d = Inr (rows, d')" for c a n d rows d'
    using idle_grows_update [OF that wf.w_activity [OF that]] by (simp add: vm_grows_def)
  show "idle_grows d d'" if "update_vms c (\<lambda>r. r\<lparr>vr_status := PendingAllocation, vr_restart_count := vr_restart_count r + 1\<rparr>) n d
      = Inr (rows, d')" for c n d rows d'
    using idle_grows_update [OF that wf.w_restart [OF that]] by (simp add: vm_grows_def)
  show "idle_grows d d'" if "\<And>r. cj r \<Longrightarrow> jr_status r \<notin> getFinalJobStatuses" "update_jobs cj cancel_assign n d = Inr (jrows, d')"
    for cj n d jrows d'
    using idle_grows_jobs [OF that(2) wf.w_cancel [OF that]] .
  show "idle_grows d d'" if "update_jobs (\<lambda>r. jr_vm_id r = Some v \<and> jr_id r = j \<and> jr_status r \<notin> getFinalJobStatuses)
      (report_assign js n) n d = Inr (jrows, d')" for v j js n d jrows d'
    using idle_grows_jobs [OF that wf.w_report [OF that]] .
  show "stmt_keeps idle_grows (update_jobs cj (\<lambda>r. r\<lparr>jr_status := Queued, jr_restart_count := jr_restart_count r + 1\<rparr>))"
    if "\<And>r. cj r \<Longrightarrow> jr_status r \<in> {Scheduled, Running}" for cj
    using wf.w_requeue [OF that] unfolding stmt_keeps_def by (blast intro: idle_grows_jobs)
  show "stmt_keeps idle_grows (update_jobs cj (\<lambda>r. r\<lparr>jr_status := InternalError\<rparr>))"
    if "\<And>r. cj r \<Longrightarrow> jr_status r \<in> {Scheduled, Running}" for cj
    using wf.w_fail [OF that] unfolding stmt_keeps_def by (blast intro: idle_grows_jobs)
qed (use wf.w_started wf.w_allocated in \<open>auto simp: stmt_keeps_def vm_grows_def
      intro: idle_grows_update idle_grows_release idle_grows_inserts [unfolded stmt_keeps_def, rule_format]\<close>)

interpretation grow_plan: plan_relation idle_grows
  by unfold_locales (rule idle_grows_inserts)+

lemma op_grows: "\<not> is_commit op \<Longrightarrow> idle_grows (committed p) (committed (apply_op jsonb op p))"
  using grow.apply_op_write [of op p jsonb] by (cases op) (simp_all add: grow_plan.startScheduling_rel)

section \<open>Committing a plan\<close>

text \<open>What the tables still have of a snapshot, as long as its plan is the current one.\<close>

definition fresh :: "db \<Rightarrow> State \<Rightarrow> bool" where
  "fresh d st \<longleftrightarrow>
     (\<forall>vm \<in> set (vms st). \<forall>r \<in> set (t_vms d). vr_id r = avm_id vm \<longrightarrow>
        uint (cpu (idleCapacity vm)) \<le> vr_cpu_idle r \<and> uint (ram (idleCapacity vm)) \<le> vr_ram_idle r) \<and>
     (\<forall>q \<in> set (queuedJobs st). \<exists>r \<in> set (t_jobs d). jr_id r = qj_id q \<and>
        jr_cpu r = uint (cpu (requiredCapacity q)) \<and> jr_ram r = uint (ram (requiredCapacity q)))"

text \<open>Sums over two lists whose elements correspond by a key.\<close>

lemma sum_list_mset:
  fixes h :: "'a \<Rightarrow> int"
  shows "mset xs = mset ys \<Longrightarrow> sum_list (map h xs) = sum_list (map h ys)"
  by (metis mset_map sum_mset_sum_list)

lemma sum_list_by_key:
  fixes f :: "'a \<Rightarrow> int"
  assumes "distinct (map k xs)" and "distinct (map k' ys)" and "\<And>y. y \<in> set ys \<Longrightarrow> \<exists>x \<in> set xs. k x = k' y \<and> f x = g y"
  shows "(\<Sum>x\<leftarrow>xs. if k x \<in> k' ` set ys \<and> P (k x) then f x else 0) = (\<Sum>y\<leftarrow>ys. if P (k' y) then g y else 0)"
proof -
  let ?xs = "filter (\<lambda>x. k x \<in> k' ` set ys) xs" and ?h = "\<lambda>(i, z). if P i then z else (0::int)"
  have "f x = g y" if "x \<in> set xs" "y \<in> set ys" "k x = k' y" for x y
    using assms(1) assms(3) [OF that(2)] that unfolding distinct_map by (metis inj_onD)
  then have "set (map (\<lambda>x. (k x, f x)) ?xs) = set (map (\<lambda>y. (k' y, g y)) ys)"
    using assms(3) by (auto simp: image_iff) (metis+)
  moreover have "distinct (map fst (map (\<lambda>x. (k x, f x)) ?xs))" "distinct (map fst (map (\<lambda>y. (k' y, g y)) ys))"
    using assms(1,2) by (simp_all add: comp_def distinct_map_filter)
  ultimately have "mset (map (\<lambda>x. (k x, f x)) ?xs) = mset (map (\<lambda>y. (k' y, g y)) ys)"
    by (metis distinct_map set_eq_iff_mset_eq_distinct)
  then have "sum_list (map ?h (map (\<lambda>x. (k x, f x)) ?xs)) = sum_list (map ?h (map (\<lambda>y. (k' y, g y)) ys))"
    by (rule sum_list_mset)
  then have "(\<Sum>x\<leftarrow>?xs. if P (k x) then f x else 0) = (\<Sum>y\<leftarrow>ys. if P (k' y) then g y else 0)" by (simp add: comp_def)
  moreover have "(\<Sum>x\<leftarrow>?xs. if P (k x) then f x else 0) = (\<Sum>x\<leftarrow>xs. if k x \<in> k' ` set ys \<and> P (k x) then f x else 0)"
    by (auto simp: sum_list_map_filter' intro!: arg_cong [of _ _ sum_list] map_cong)
  ultimately show ?thesis by simp
qed

text \<open>The requirements of the jobs a change gives to VM \<open>v\<close>, read in the table and in the snapshot.\<close>

definition target :: "StateChange \<Rightarrow> (DesiredSlotId, VmId) umap \<Rightarrow> JobId \<Rightarrow> VmId option" where
  "target ch s j = Option.bind (map_of (jobToVm ch) j) (assignment_target s)"

lemma held_planned:
  assumes "f \<in> {jr_cpu, jr_ram}" and "\<And>r. r \<in> set js \<Longrightarrow> 0 \<le> f r"
  shows "held R f (map (job_planned ch s) js) v \<le> held R f js v + (\<Sum>r\<leftarrow>js. if jr_id r \<in> keys (jobToVm ch) \<and> target ch s (jr_id r) = Some v then f r else 0)"
proof -
  have "(if jr_vm_id (job_planned ch s r) = Some v \<and> holds R (job_planned ch s r) then f (job_planned ch s r) else 0) \<le>
      (if jr_vm_id r = Some v \<and> holds R r then f r else 0) + (if jr_id r \<in> keys (jobToVm ch) \<and> target ch s (jr_id r) = Some v then f r else 0)"
    if "r \<in> set js" for r
    using assms(1) assms(2) [OF that] by (auto simp: job_planned_def target_def)
  then show ?thesis
    unfolding held_sum map_map comp_def sum_list_addf [symmetric] by (rule sum_list_mono)
qed

lemma planned_sum:
  assumes wf: "db_wf d" and fr: "fresh d st" and ok: "state_ok st" and cov: "covers_jobs st ch"
    and fg: "(f, g) \<in> {(jr_cpu, cpu), (jr_ram, ram)}"
  shows "(\<Sum>r\<leftarrow>t_jobs d. if jr_id r \<in> keys (jobToVm ch) \<and> target ch s (jr_id r) = Some v then f r else 0) =
     (\<Sum>q\<leftarrow>queuedJobs st. if target ch s (qj_id q) = Some v then uint (g (requiredCapacity q)) else 0)"
proof -
  have "keys (jobToVm ch) = qj_id ` set (queuedJobs st)" using cov by (simp add: covers_jobs_def)
  moreover have "distinct (map jr_id (t_jobs d))" "distinct (map qj_id (queuedJobs st))" using wf ok by (simp_all add: db_wf_def state_ok_def)
  moreover have "\<exists>r \<in> set (t_jobs d). jr_id r = qj_id q \<and> f r = uint (g (requiredCapacity q))" if "q \<in> set (queuedJobs st)" for q
    using fr fg that by (auto simp: fresh_def)
  ultimately show ?thesis
    using sum_list_by_key [of jr_id "t_jobs d" qj_id "queuedJobs st" f "\<lambda>q. uint (g (requiredCapacity q))" "\<lambda>j. target ch s j = Some v"] by simp
qed

lemma sum_as_int:
  "int (sum_cpu (filter P js)) = (\<Sum>q\<leftarrow>js. if P q then uint (cpu (requiredCapacity q)) else 0)"
  "int (sum_ram (filter P js)) = (\<Sum>q\<leftarrow>js. if P q then uint (ram (requiredCapacity q)) else 0)"
  by (induction js) simp_all

lemma uint_plus: "unat a = unat b + n \<Longrightarrow> uint a = uint b + int n"
  by (simp only: uint_nat of_nat_add)

text \<open>Which jobs a change gives to a VM that was there, and which to a new one.\<close>

lemma target_existing:
  assumes ap: "plan_applied ch plan now s d d'" and dist: "distinct (map vr_id (t_vms d'))" and v: "v \<in> vr_id ` set (t_vms d)"
  shows "target ch s j = Some v \<longleftrightarrow> map_of (jobToVm ch) j = Some (ExistingVm v)"
proof -
  obtain vs where vs: "list_all2 (vm_planned ch) (t_vms d) vs" "t_vms d' = vs @ new_vms s now (desiredSlotMap ch)"
    using ap by (auto simp: plan_applied_def)
  have "map vr_id vs = map vr_id (t_vms d)"
    using vs(1) by (induction rule: list_all2_induct) (auto simp: vm_planned_def vm_key_def)
  then have "v \<in> vr_id ` set vs" using v by (metis list.set_map)
  then have "v \<notin> vr_id ` set (new_vms s now (desiredSlotMap ch))" using dist vs(2) by auto
  moreover have "v \<in> vr_id ` set (new_vms s now (desiredSlotMap ch))" if "map_of s i = Some v" for i
  proof -
    have "i \<in> keys (desiredSlotMap ch)" using ap that by (simp add: plan_applied_def)
    then show ?thesis using that by (force simp: new_vms_def new_vm_row_def)
  qed
  ultimately have none: "map_of s i \<noteq> Some v" for i by blast
  show ?thesis
  proof (cases "map_of (jobToVm ch) j")
    case (Some x)
    then show ?thesis by (cases x) (simp_all add: target_def none)
  qed (simp add: target_def)
qed

lemma target_new:
  assumes ap: "plan_applied ch plan now s d d'" and dist: "distinct (map vr_id (t_vms d'))"
    and ex: "\<And>v. map_of (jobToVm ch) j = Some (ExistingVm v) \<Longrightarrow> v \<in> vr_id ` set (t_vms d)"
    and i: "(i, slot) \<in> set (desiredSlotMap ch)" and keys: "distinct (map fst (desiredSlotMap ch))"
  shows "target ch s j = Some (the (map_of s i)) \<longleftrightarrow> map_of (jobToVm ch) j = Some (DesiredVm i)"
    and "the (map_of s i) \<notin> vr_id ` set (t_vms d)"
proof -
  obtain vs where vs: "list_all2 (vm_planned ch) (t_vms d) vs" "t_vms d' = vs @ new_vms s now (desiredSlotMap ch)"
    using ap by (auto simp: plan_applied_def)
  have ids: "map vr_id vs = map vr_id (t_vms d)"
    using vs(1) by (induction rule: list_all2_induct) (auto simp: vm_planned_def vm_key_def)
  have new: "map vr_id (new_vms s now (desiredSlotMap ch)) = map (\<lambda>(i, slot). the (map_of s i)) (desiredSlotMap ch)"
    by (simp add: new_vms_def new_vm_row_def comp_def case_prod_beta)
  have inj: "inj_on (\<lambda>(i, slot). the (map_of s i)) (set (desiredSlotMap ch))"
    using dist vs(2) new by (metis distinct_append distinct_map map_append)
  have old: "the (map_of s k) \<notin> vr_id ` set (t_vms d)" if "k \<in> keys (desiredSlotMap ch)" for k
  proof -
    have "the (map_of s k) \<in> set (map vr_id (new_vms s now (desiredSlotMap ch)))" using that by (force simp: new)
    then show ?thesis using dist vs(2) ids by (auto simp flip: set_map)
  qed
  show nv: "the (map_of s i) \<notin> vr_id ` set (t_vms d)" using old i by force
  have some: "map_of s k \<noteq> None \<longleftrightarrow> k \<in> keys (desiredSlotMap ch)" for k using ap by (simp add: plan_applied_def)
  have "k = i" if "map_of s k = Some (the (map_of s i))" for k
  proof -
    have "k \<in> keys (desiredSlotMap ch)" using some [of k] that by simp
    then obtain sl where "(k, sl) \<in> set (desiredSlotMap ch)" by auto
    with i that inj_onD [OF inj, of "(k, sl)" "(i, slot)"] show ?thesis by simp
  qed
  moreover have "map_of s i = Some (the (map_of s i))" using some [of i] i by force
  ultimately have slot: "map_of s k = Some (the (map_of s i)) \<longleftrightarrow> k = i" for k by blast
  show "target ch s j = Some (the (map_of s i)) \<longleftrightarrow> map_of (jobToVm ch) j = Some (DesiredVm i)"
  proof (cases "map_of (jobToVm ch) j")
    case (Some x)
    have "x \<noteq> ExistingVm (the (map_of s i))" using ex Some nv by blast
    with Some slot show ?thesis by (cases x) (auto simp: target_def)
  qed (simp add: target_def)
qed

text \<open>A commit of the current plan keeps the ledger.\<close>

lemma applied_existing:
  assumes wf: "db_wf d" "db_wf d'" and led: "ledger possible R d" and fr: "fresh d st" and ok: "state_ok st"
    and val: "valid_change st ch" and ap: "plan_applied ch plan now s d d'"
    and r: "r \<in> set (t_vms d)" and r': "vm_planned ch r r'"
  shows "within R (t_jobs d') r'"
proof -
  let ?v = "vr_id r" and ?put = "jobs_put st ch (vr_id r)"
  have cov: "covers_jobs st ch" and bal: "balances st ch" using val by (simp_all add: valid_change_def)
  have key: "vr_id r' = ?v" "vr_cpu r' = vr_cpu r" "vr_ram r' = vr_ram r" using r' by (simp_all add: vm_planned_def vm_key_def)
  have tgt: "target ch s j = Some ?v \<longleftrightarrow> map_of (jobToVm ch) j = Some (ExistingVm ?v)" for j
    using target_existing [OF ap] wf(2) r by (simp add: db_wf_def)
  have nn: "0 \<le> jr_cpu j \<and> 0 \<le> jr_ram j" if "j \<in> set (t_jobs d)" for j using wf(1) that by (simp add: db_wf_def job_ok_def)
  have jobs: "t_jobs d' = map (job_planned ch s) (t_jobs d)" using ap by (simp add: plan_applied_def)
  have held: "held R jr_cpu (t_jobs d') ?v \<le> held R jr_cpu (t_jobs d) ?v + int (sum_cpu ?put)"
    "held R jr_ram (t_jobs d') ?v \<le> held R jr_ram (t_jobs d) ?v + int (sum_ram ?put)"
    using held_planned [of jr_cpu "t_jobs d" R ch s ?v] held_planned [of jr_ram "t_jobs d" R ch s ?v] nn
      planned_sum [OF wf(1) fr ok cov, of jr_cpu cpu s ?v] planned_sum [OF wf(1) fr ok cov, of jr_ram ram s ?v]
    unfolding jobs jobs_put_def sum_as_int tgt by simp_all
  have led_r: "within R (t_jobs d) r" using led r by (simp add: ledger_def)
  have "vr_cpu_idle r' + int (sum_cpu ?put) \<le> vr_cpu_idle r \<and> vr_ram_idle r' + int (sum_ram ?put) \<le> vr_ram_idle r"
  proof (cases "?v \<in> avm_id ` set (vms st)")
    case True
    then obtain vm where vm: "vm \<in> set (vms st)" "avm_id vm = ?v" by auto
    have b: "uint (cpu (idleCapacity vm)) = uint (cpu (idle_after ch vm)) + int (sum_cpu ?put)"
      "uint (ram (idleCapacity vm)) = uint (ram (idle_after ch vm)) + int (sum_ram ?put)"
      using bal vm by (auto simp: balances_def intro!: uint_plus)
    have f: "uint (cpu (idleCapacity vm)) \<le> vr_cpu_idle r" "uint (ram (idleCapacity vm)) \<le> vr_ram_idle r"
      using fr vm r by (simp_all add: fresh_def)
    show ?thesis
      using r' b f vm(2) by (cases "map_of (updatedIdleCapacities ch) ?v") (simp_all add: vm_planned_def set_idle_def idle_after_def)
  next
    case False
    then have "map_of (jobToVm ch) j \<noteq> Some (ExistingVm ?v)" for j
      using cov by (fastforce simp: covers_jobs_def dest: map_of_SomeD)
    then have "?put = []" by (simp add: jobs_put_def)
    moreover have "?v \<notin> keys (updatedIdleCapacities ch)" using bal False by (auto simp: balances_def)
    ultimately show ?thesis using r' by (simp add: vm_planned_def set_idle_other)
  qed
  with held led_r show ?thesis by (simp add: within_def key)
qed

lemma applied_new:
  assumes wf: "db_wf d" "db_wf d'" and fr: "fresh d st" and know: "knows d st"
    and val: "valid_change st ch" and ap: "plan_applied ch plan now s d d'"
    and slot: "(i, slot) \<in> set (desiredSlotMap ch)"
    and exact: "ncpu (total slot) = ncpu (idle slot) + sum_cpu (jobs_new (jobToVm ch) i (queuedJobs st))"
      "nram (total slot) = nram (idle slot) + sum_ram (jobs_new (jobToVm ch) i (queuedJobs st))"
  shows "within R (t_jobs d') (new_vm_row (the (map_of s i)) slot now)"
proof -
  let ?v = "the (map_of s i)" and ?new = "jobs_new (jobToVm ch) i (queuedJobs st)"
  have cov: "covers_jobs st ch" and ok: "state_ok st" using val know by (simp_all add: valid_change_def knows_def)
  have ex: "v \<in> vr_id ` set (t_vms d)" if "map_of (jobToVm ch) j = Some (ExistingVm v)" for j v
  proof -
    have "v \<in> avm_id ` set (vms st)" using cov that by (fastforce simp: covers_jobs_def dest: map_of_SomeD)
    then show ?thesis using know by (force simp: knows_def row_of_vm_def)
  qed
  have dist: "distinct (map vr_id (t_vms d'))" "distinct (map fst (desiredSlotMap ch))" using wf(2) cov by (simp_all add: db_wf_def covers_jobs_def)
  have tgt: "target ch s j = Some ?v \<longleftrightarrow> map_of (jobToVm ch) j = Some (DesiredVm i)" for j
    by (rule target_new(1) [OF ap dist(1) ex slot dist(2)])
  have nv: "?v \<notin> vr_id ` set (t_vms d)" by (rule target_new(2) [OF ap dist(1) ex slot dist(2)])
  have "jr_vm_id j \<noteq> Some ?v" if "j \<in> set (t_jobs d)" for j
    using wf(1) that nv by (fastforce simp: db_wf_def job_fk_ok_def)
  then have none: "held R f (t_jobs d) ?v = 0" for f by (rule held_none)
  have nn: "0 \<le> jr_cpu j \<and> 0 \<le> jr_ram j" if "j \<in> set (t_jobs d)" for j using wf(1) that by (simp add: db_wf_def job_ok_def)
  have jobs: "t_jobs d' = map (job_planned ch s) (t_jobs d)" using ap by (simp add: plan_applied_def)
  have "held R jr_cpu (t_jobs d') ?v \<le> int (sum_cpu ?new)" "held R jr_ram (t_jobs d') ?v \<le> int (sum_ram ?new)"
    using held_planned [of jr_cpu "t_jobs d" R ch s ?v] held_planned [of jr_ram "t_jobs d" R ch s ?v] nn
      planned_sum [OF wf(1) fr ok cov, of jr_cpu cpu s ?v] planned_sum [OF wf(1) fr ok cov, of jr_ram ram s ?v]
    unfolding jobs jobs_new_def sum_as_int tgt none by simp_all
  moreover have "uint (cpu (total slot)) = uint (cpu (idle slot)) + int (sum_cpu ?new)" "uint (ram (total slot)) = uint (ram (idle slot)) + int (sum_ram ?new)"
    using exact by (simp_all add: uint_plus)
  ultimately show ?thesis by (simp add: within_def new_vm_row_def)
qed

lemma row_cap_fresh:
  "fresh d st \<Longrightarrow> q \<in> set (queuedJobs st) \<Longrightarrow> \<exists>r \<in> set (t_jobs d). row_cap r = requiredCapacity q"
  unfolding fresh_def row_cap_def by (metis SlotCapacity.collapse word_of_int_uint)

lemma ledger_commit:
  assumes wf: "db_wf d" "db_wf d'" and led: "ledger possible R d" and fr: "fresh d st" and know: "knows d st"
    and cfg: "config_ok cfg possible" and as: "assigner cfg possible st = Some ch" and ap: "plan_applied ch plan now s d d'"
    and seq: "next_job (seqs d) \<le> next_job (seqs d')"
  shows "ledger possible R d'"
proof -
  have use: "assigner_usable (sc_vmAssignerType cfg) (sc_complexVmAssignerConfig cfg) possible st" using cfg by (rule config_ok_usable)
  have ok: "state_ok st" using know by (simp add: knows_def)
  have val: "valid_change st ch" using created.assign_valid [OF use ok] as by (auto simp: assigner_def)
  have serve: "\<forall>q \<in> set (queuedJobs st). servable possible (requiredCapacity q)"
    using row_cap_fresh [OF fr] led unfolding ledger_def by metis
  have sizes: "\<forall>s \<in> set possible. cap_ok s" using cfg by (simp add: config_ok_def)
  obtain vs where vs: "list_all2 (vm_planned ch) (t_vms d) vs" "t_vms d' = vs @ new_vms s now (desiredSlotMap ch)"
    using ap by (auto simp: plan_applied_def)
  have "within R (t_jobs d') r'" if r': "r' \<in> set (t_vms d')" for r'
  proof (cases "r' \<in> set vs")
    case True
    then obtain r where "r \<in> set (t_vms d)" "vm_planned ch r r'" using list_all2_source [OF vs(1)] by blast
    then show ?thesis by (rule applied_existing [OF wf led fr ok val ap])
  next
    case False
    then obtain i slot where slot: "(i, slot) \<in> set (desiredSlotMap ch)" and row: "r' = new_vm_row (the (map_of s i)) slot now"
      using r' vs(2) by (auto simp: new_vms_def)
    show ?thesis
      unfolding row using assign_slots_exact [OF use ok as [unfolded assigner_def] sizes serve slot]
      by (intro applied_new [OF wf fr know val ap slot]) simp_all
  qed
  moreover have jobs: "t_jobs d' = map (job_planned ch s) (t_jobs d)" "jobs_free ch d" using ap by (simp_all add: plan_applied_def)
  have "jr_status (job_planned ch s r) \<in> getFinalJobStatuses" if "r \<in> set (t_jobs d)" "jr_id r \<in> R" for r
    using led jobs(2) that by (auto simp: ledger_def jobs_free_def job_planned_def)
  moreover have "jr_id (job_planned ch s r) = jr_id r" "row_cap (job_planned ch s r) = row_cap r" for r
    by (simp_all add: job_planned_def row_cap_def)
  ultimately show ?thesis using led seq by (auto simp: ledger_def jobs(1))
qed

end
