(* ===== verification/Overcommit.thy ===== *)
theory Overcommit
  imports Capacity
begin

text \<open>
  No virtual machine is given more work than it has: in every run of the system from the empty tables, the jobs that are
  scheduled or running on a machine, together with the capacity the machine still offers, stay within what the machine
  has. The runs are those of the step relation of the system, written as lists of labels, and the invariant joins the
  ledger of the tables with the freshness of the snapshot a scheduler plans on.
\<close>

section \<open>Runs\<close>

text \<open>
  The steps of the system as labels: a call of the storage (other than a commit), time passing and connections failing, and
  a scheduler \<open>i\<close> starting a round, reading the state, committing its plan, or dying. A call that fails sends the
  scheduler back to where it waits for its next round.
\<close>

datatype sys_label =
    Call storage_op
  | Tick int "fault list"
  | StartRound nat string "size_t option"
  | ReadState nat
  | CommitPlan nat
  | Die nat

fun run_label :: "(string \<Rightarrow> string option) \<Rightarrow> SchedulerConfig \<Rightarrow> SlotCapacity list \<Rightarrow> sys_label \<Rightarrow> sys \<Rightarrow> sys" where
  "run_label jsonb cfg possible (Call op) (p, c) = (apply_op jsonb op p, c)"
| "run_label jsonb cfg possible (Tick dt fs) (p, c) = (p\<lparr>pg_now := pg_now p + dt, faults := fs\<rparr>, c)"
| "run_label jsonb cfg possible (StartRound i b lock) (p, c) =
     (case startScheduling b (sc_schedulingInterval cfg) lock p of
        (Returned (Inr plan), p') \<Rightarrow> (p', c(i := Started plan))
      | (_, p') \<Rightarrow> (p', c(i := Idle)))"
| "run_label jsonb cfg possible (ReadState i) (p, c) =
     (case c i of
        Started plan \<Rightarrow>
          (case getCurrentState p of
             (Returned (Inr st), p') \<Rightarrow> (p', c(i := Planned plan st))
           | (_, p') \<Rightarrow> (p', c(i := Idle)))
      | _ \<Rightarrow> (p, c))"
| "run_label jsonb cfg possible (CommitPlan i) (p, c) =
     (case c i of
        Planned plan st \<Rightarrow>
          (case assigner cfg possible st of
             Some ch \<Rightarrow> (snd (commitPlanChange ch plan p), c(i := Idle))
           | None \<Rightarrow> (p, c))
      | _ \<Rightarrow> (p, c))"
| "run_label jsonb cfg possible (Die i) (p, c) = (p, c(i := Idle))"

text \<open>What the ledger asks of a step, and what the step gives back.\<close>

fun label_ok :: "SlotCapacity list \<Rightarrow> JobId set \<Rightarrow> sys_label \<Rightarrow> db \<Rightarrow> db \<Rightarrow> bool" where
  "label_ok possible R (Call op) d d' = (\<not> is_commit op \<and> orderly possible R op d d')"
| "label_ok possible R (Tick dt fs) d d' = (0 \<le> dt)"
| "label_ok possible R _ d d' = True"

fun label_gives :: "sys_label \<Rightarrow> db \<Rightarrow> db \<Rightarrow> JobId set" where
  "label_gives (Call op) d d' = now_returned op d d'"
| "label_gives _ d d' = {}"

fun orderly_run :: "(string \<Rightarrow> string option) \<Rightarrow> SchedulerConfig \<Rightarrow> SlotCapacity list \<Rightarrow> JobId set \<Rightarrow> sys_label list \<Rightarrow> sys \<Rightarrow> bool" where
  "orderly_run jsonb cfg possible R [] s = True"
| "orderly_run jsonb cfg possible R (l # ls) s =
     (let s' = run_label jsonb cfg possible l s; d = committed (fst s); d' = committed (fst s')
      in label_ok possible R l d d' \<and> orderly_run jsonb cfg possible (R \<union> label_gives l d d') ls s')"

lemma run_label_reachable:
  assumes "reachable jsonb cfg possible s" and "label_ok possible R l (committed (fst s)) d'"
  shows "reachable jsonb cfg possible (run_label jsonb cfg possible l s)"
proof -
  obtain p c where s: "s = (p, c)" by (cases s)
  note step = reach_step [OF assms(1) [unfolded s]]
  have die: "reachable jsonb cfg possible (q, c(i := Idle))" if "reachable jsonb cfg possible (q, c)" for q i
    using reach_step [OF that sys_die] .
  have call: "reachable jsonb cfg possible (apply_op jsonb op p, c)" if "\<not> is_commit op" for op
    using step [OF sys_op [OF that]] .
  show ?thesis
  proof (cases l)
    case (StartRound i b lock)
    show ?thesis
      using call [of "StartScheduling b (sc_schedulingInterval cfg) lock"] die step [OF sys_start]
      by (cases "startScheduling b (sc_schedulingInterval cfg) lock p") (auto simp: s StartRound split: call.splits sum.splits)
  next
    case (ReadState i)
    show ?thesis
      using call [of GetCurrentState] die step [OF sys_read] assms(1)
      by (cases "getCurrentState p") (auto simp: s ReadState split: call.splits sum.splits sched_pc.splits)
  next
    case (CommitPlan i)
    then show ?thesis using step [OF sys_commit] assms(1) by (auto simp: s split: sched_pc.splits option.splits)
  qed (use assms call die step [OF sys_tick] in \<open>auto simp: s\<close>)
qed

section \<open>The invariant\<close>

fun pc_plan :: "sched_pc \<Rightarrow> PlanId option" where
  "pc_plan Idle = None"
| "pc_plan (Started plan) = Some plan"
| "pc_plan (Planned plan st) = Some plan"

text \<open>Every round has a plan of its own; the round with the current plan has a fresh snapshot.\<close>

definition rounds_ok :: "db \<Rightarrow> (nat \<Rightarrow> sched_pc) \<Rightarrow> bool" where
  "rounds_ok d c \<longleftrightarrow> (\<forall>i plan. pc_plan (c i) = Some plan \<longrightarrow> plan \<in> pr_id ` set (t_plan d)) \<and>
     (\<forall>i j plan. pc_plan (c i) = Some plan \<longrightarrow> pc_plan (c j) = Some plan \<longrightarrow> i = j) \<and>
     (\<forall>i plan st. c i = Planned plan st \<longrightarrow> current plan d \<longrightarrow> fresh d st)"

fun cap_inv :: "SlotCapacity list \<Rightarrow> JobId set \<Rightarrow> sys \<Rightarrow> bool" where
  "cap_inv possible R (p, c) = (ledger possible R (committed p) \<and> plans_ordered p \<and> rounds_ok (committed p) c)"

lemma fresh_grows:
  assumes "db_wf d" and "idle_grows d d'" and "extends d d'" and "fresh d st"
  shows "fresh d' st"
proof -
  have "uint (cpu (idleCapacity vm)) \<le> vr_cpu_idle r' \<and> uint (ram (idleCapacity vm)) \<le> vr_ram_idle r'"
    if vm: "vm \<in> set (vms st)" "r' \<in> set (t_vms d')" "vr_id r' = avm_id vm" for vm r'
  proof -
    obtain r where "r \<in> set (t_vms d)" "vm_grows r r'" using assms(1,2) list_all2_source vm(2) unfolding idle_grows_def by metis
    then show ?thesis using assms(4) vm(1,3) by (force simp: fresh_def vm_grows_def)
  qed
  moreover have "\<exists>r' \<in> set (t_jobs d'). job_key r' = job_key r" if "r \<in> set (t_jobs d)" for r
    using assms(3) that set_mono_prefix unfolding extends_def by fastforce
  then have keep: "\<exists>r' \<in> set (t_jobs d'). jr_id r' = jr_id r \<and> jr_cpu r' = jr_cpu r \<and> jr_ram r' = jr_ram r" if "r \<in> set (t_jobs d)" for r
    using that by (fastforce simp: job_key_def)
  have "\<exists>r \<in> set (t_jobs d'). jr_id r = qj_id q \<and> jr_cpu r = uint (cpu (requiredCapacity q)) \<and> jr_ram r = uint (ram (requiredCapacity q))"
    if "q \<in> set (queuedJobs st)" for q
    using assms(4) that keep unfolding fresh_def by fastforce
  ultimately show ?thesis unfolding fresh_def by blast
qed

text \<open>Plans only appear at the end, so a known plan that is current now was current before.\<close>

lemma current_before:
  assumes "extends d d'" and "db_wf d'" and "plan \<in> pr_id ` set (t_plan d)" and "current plan d'"
  shows "current plan d"
proof -
  obtain zs where zs: "map pr_id (t_plan d') = map pr_id (t_plan d) @ zs" using assms(1) by (auto simp: extends_def prefix_def)
  have dist: "distinct (map pr_id (t_plan d'))" using assms(2) by (simp add: db_wf_def)
  have ne: "t_plan d \<noteq> []" using assms(3) by auto
  have last: "plan = last (map pr_id (t_plan d'))" using assms(4) by (simp add: current_def last_map)
  have "zs = []"
  proof (rule ccontr)
    assume "zs \<noteq> []"
    then have "plan \<in> set zs" using last zs by simp
    moreover have "plan \<in> set (map pr_id (t_plan d))" using assms(3) by simp
    ultimately show False using dist unfolding zs by auto
  qed
  then show ?thesis using last zs ne by (simp add: current_def last_map)
qed

lemma rounds_ok_step:
  assumes ok: "rounds_ok d c" and wf: "db_wf d" "db_wf d'" and ext: "extends d d'" and grow: "idle_grows d d'"
    and pcs: "\<And>i. c' i = c i \<or> c' i = Idle"
  shows "rounds_ok d' c'"
proof -
  have mono: "pr_id ` set (t_plan d) \<subseteq> pr_id ` set (t_plan d')"
    using ext set_mono_prefix unfolding extends_def by (metis list.set_map)
  have old: "pc_plan (c i) = Some plan" if "pc_plan (c' i) = Some plan" for i plan using pcs [of i] that by auto
  have "fresh d' st" if "c' i = Planned plan st" "current plan d'" for i plan st
  proof -
    have ci: "c i = Planned plan st" using pcs [of i] that(1) by auto
    then have "pc_plan (c i) = Some plan" by simp
    then have "plan \<in> pr_id ` set (t_plan d)" using ok unfolding rounds_ok_def by blast
    then have "current plan d" using current_before [OF ext wf(2)] that(2) by blast
    with ci have "fresh d st" using ok unfolding rounds_ok_def by blast
    then show ?thesis by (rule fresh_grows [OF wf(1) grow ext])
  qed
  with ok mono old show ?thesis unfolding rounds_ok_def by blast
qed

lemma plans_ordered_op:
  assumes "plans_ordered p" and "\<not> is_commit op"
  shows "plans_ordered (apply_op jsonb op p)"
proof (cases op)
  case (StartScheduling b i l)
  then show ?thesis using assms(1) startScheduling_plans [of p b i l] by (auto simp: plans_ordered_def)
next
  case (CommitPlanChange ch plan)
  with assms show ?thesis by simp
qed (use assms plan_rel.apply_op_write [of op p jsonb] in \<open>simp_all add: plans_ordered_def plan_kept_def del: apply_op.simps\<close>)

text \<open>A call, and a scheduler that falls back to waiting.\<close>

lemma cap_inv_call:
  assumes inv: "cap_inv possible R (p, c)" and wf: "db_wf (committed p)" and op: "\<not> is_commit op"
    and ord: "orderly possible R op (committed p) (committed (apply_op jsonb op p))" and pcs: "\<And>i. c' i = c i \<or> c' i = Idle"
  shows "cap_inv possible (R \<union> now_returned op (committed p) (committed (apply_op jsonb op p))) (apply_op jsonb op p, c')"
proof -
  have grow: "idle_grows (committed p) (committed (apply_op jsonb op p))" using op by (rule op_grows)
  then have wf': "db_wf (committed (apply_op jsonb op p))" using wf by (simp add: idle_grows_def wf_step_def)
  have ext: "extends (committed p) (committed (apply_op jsonb op p))" by (rule hist.apply_op_rel) (cases op; simp)
  have "rounds_ok (committed (apply_op jsonb op p)) c'" using inv rounds_ok_step [OF _ wf wf' ext grow pcs] by simp
  with inv ledger_op [OF wf _ op ord] plans_ordered_op [OF _ op] show ?thesis by simp
qed

text \<open>Starting a round.\<close>

lemma rounds_ok_new:
  assumes ok: "rounds_ok d (c(i := Idle))" and other: "\<And>j. pc_plan ((c(i := Idle)) j) \<noteq> Some plan" and new: "plan \<in> pr_id ` set (t_plan d)"
  shows "rounds_ok d (c(i := Started plan))"
proof -
  let ?c = "c(i := Idle)" and ?n = "c(i := Started plan)"
  have at: "pc_plan (?n j) = (if j = i then Some plan else pc_plan (?c j))" for j by simp
  have "q \<in> pr_id ` set (t_plan d)" if "pc_plan (?n j) = Some q" for j q
  proof (cases "j = i")
    case False
    then have "pc_plan (?c j) = Some q" using that at by simp
    then show ?thesis using ok unfolding rounds_ok_def by blast
  qed (use that new in simp)
  moreover have "j = k" if jk: "pc_plan (?n j) = Some q" "pc_plan (?n k) = Some q" for j k q
  proof (cases "j = i \<or> k = i")
    case True
    then have "q = plan" using jk by auto
    then show ?thesis using jk at [of j] at [of k] other by metis
  next
    case False
    then have "pc_plan (?c j) = Some q" "pc_plan (?c k) = Some q" using jk at by simp_all
    then show ?thesis using ok unfolding rounds_ok_def by blast
  qed
  moreover have "?c j = Planned q st" if "?n j = Planned q st" for j q st using that by (cases "j = i") simp_all
  then have "fresh d st" if "?n j = Planned q st" "current q d" for j q st using that ok unfolding rounds_ok_def by blast
  ultimately show ?thesis unfolding rounds_ok_def by blast
qed

lemma cap_inv_start:
  assumes inv: "cap_inv possible R (p, c)" and wf: "db_wf (committed p)"
    and start: "startScheduling b (sc_schedulingInterval cfg) lock p = (Returned (Inr plan), p')"
  shows "cap_inv possible R (p', c(i := Started plan))"
proof -
  have p': "p' = apply_op jsonb (StartScheduling b (sc_schedulingInterval cfg) lock) p" for jsonb using start by simp
  have idle: "cap_inv possible R (p', c(i := Idle))"
    using cap_inv_call [OF inv wf, of "StartScheduling b (sc_schedulingInterval cfg) lock" Some "c(i := Idle)"] p' by simp
  note new = startScheduling_success [OF start]
  have "plan \<notin> pr_id ` set (t_plan (committed p))" using new wf by (auto simp: db_wf_def)
  then have "pc_plan (c j) \<noteq> Some plan" for j using inv unfolding cap_inv.simps rounds_ok_def by blast
  then have other: "pc_plan ((c(i := Idle)) j) \<noteq> Some plan" for j by simp
  have "plan \<in> pr_id ` set (t_plan (committed p'))" using new by simp
  with other idle show ?thesis by (auto intro: rounds_ok_new)
qed

text \<open>Reading the state: the snapshot is fresh.\<close>

interpretation unchanged: db_relation "(=)"
  by unfold_locales simp_all

lemma snapshot_fresh:
  assumes wf: "db_wf (committed p)" and run: "getCurrentState p = (Returned (Inr st), p')"
  shows "fresh (committed p) st"
proof -
  note rows = getCurrentState_rows [OF wf run]
  have "uint (cpu (idleCapacity vm)) \<le> vr_cpu_idle r \<and> uint (ram (idleCapacity vm)) \<le> vr_ram_idle r"
    if vm: "vm \<in> set (vms st)" "r \<in> set (t_vms (committed p))" "vr_id r = avm_id vm" for vm r
  proof -
    obtain q where q: "q \<in> set (t_vms (committed p))" "vm_ok q" "active_of_row q = Inr vm" using list_all2_source [OF rows(2) vm(1)] by auto
    then have i: "row_capacity (vr_cpu_idle q) (vr_ram_idle q) = Inr (idleCapacity vm)" "vr_id q = avm_id vm"
      by (auto simp: active_of_row_def split: sum.splits)
    have "q = r" using wf q(1) vm(2,3) i(2) by (metis db_wf_def distinct_map inj_onD)
    then show ?thesis using cap_of_row [OF i(1)] q(2) by (simp add: vm_ok_def vm_row_ok_def)
  qed
  moreover have "\<exists>r \<in> set (t_jobs (committed p)). jr_id r = qj_id q \<and> jr_cpu r = uint (cpu (requiredCapacity q)) \<and>
      jr_ram r = uint (ram (requiredCapacity q))" if queued: "q \<in> set (queuedJobs st)" for q
  proof -
    obtain r where r: "r \<in> set (t_jobs (committed p))" "job_row_ok r" "queued_of_row r = Inr q" using list_all2_source [OF rows(1) queued] by auto
    then have "row_capacity (jr_cpu r) (jr_ram r) = Inr (requiredCapacity q)" "qj_id q = jr_id r"
      by (auto simp: queued_of_row_def split: sum.splits)
    then show ?thesis using cap_of_row [of "jr_cpu r" "jr_ram r"] r(1,2) by (auto simp: job_row_ok_def)
  qed
  ultimately show ?thesis unfolding fresh_def by blast
qed

lemma cap_inv_read:
  assumes inv: "cap_inv possible R (p, c)" and wf: "db_wf (committed p)" and pc: "c i = Started plan"
    and run: "getCurrentState p = (Returned (Inr st), p')"
  shows "cap_inv possible R (p', c(i := Planned plan st))"
proof -
  have same: "committed p' = committed p" "pg_now p' = pg_now p"
    using unchanged.getCurrentState_rel [of p] client_calls_now(4) [of p] run by simp_all
  have "pc_plan ((c(i := Planned plan st)) j) = pc_plan (c j)" for j using pc by simp
  then have "rounds_ok (committed p) (c(i := Planned plan st))"
    using inv snapshot_fresh [OF wf run] unfolding cap_inv.simps rounds_ok_def by auto
  with inv same show ?thesis by (simp add: plans_ordered_def)
qed

text \<open>Committing a plan.\<close>

lemma plans_ordered_commit:
  assumes "plans_ordered p" and "plan_applied ch plan (pg_now p) s (committed p) (committed p')" and "pg_now p' = pg_now p"
  shows "plans_ordered p' \<and> current plan (committed p) \<and> map pr_id (t_plan (committed p')) = map pr_id (t_plan (committed p))"
  by (rule plans_ordered_touch) (use assms in \<open>simp_all add: plan_applied_def\<close>)

lemma cap_inv_commit:
  assumes inv: "cap_inv possible R (p, c)" and sys: "sys_inv (p, c)" "sys_inv (p', c(i := Idle))" and cfg: "config_ok cfg possible"
    and pc: "c i = Planned plan st" and as: "assigner cfg possible st = Some ch" and p': "p' = snd (commitPlanChange ch plan p)"
  shows "cap_inv possible R (p', c(i := Idle))"
proof -
  let ?d = "committed p" and ?d' = "committed p'"
  have wf: "db_wf ?d" "db_wf ?d'" and know: "knows ?d st" using sys pc by auto
  have now: "pg_now p' = pg_now p" by (simp add: p')
  have "change_now ch ?d" using assigned_change_now [OF wf(1) know cfg as] .
  then have seq: "next_job (seqs ?d) \<le> next_job (seqs ?d')" using wf_commit [of ch p plan] wf(1) by (simp add: wf_step_def seqs_le_def p')
  have ext: "extends ?d ?d'" unfolding p' by (rule extends_commit)
  show ?thesis
  proof (cases "same_tables ?d ?d'")
    case True
    then have eq: "t_vms ?d' = t_vms ?d" "t_jobs ?d' = t_jobs ?d" "t_plan ?d' = t_plan ?d" by (simp_all add: same_tablesD)
    have grow: "idle_grows ?d ?d'" using eq wf seq wf_commit [OF \<open>change_now ch ?d\<close>] by (simp add: idle_grows_same p')
    have "rounds_ok ?d' (c(i := Idle))" by (rule rounds_ok_step [OF _ wf ext grow]) (use inv in auto)
    moreover have "ledger possible R ?d'" using inv ledger_kept_same [OF eq(1,2) seq] by (simp add: ledger_kept_def)
    ultimately show ?thesis using inv eq now by (simp add: plans_ordered_def)
  next
    case False
    have slots: "distinct (map fst (desiredSlotMap ch))"
      using created.assign_valid [OF config_ok_usable [OF cfg], of st] know as
      by (auto simp: knows_def assigner_def valid_change_def covers_jobs_def)
    obtain s where ap: "plan_applied ch plan (pg_now p) s ?d ?d'"
      using commit_applied [OF prod.collapse [symmetric] slots, of plan p] False by (auto simp: p')
    note ord = plans_ordered_commit [OF _ ap now]
    have fr: "fresh ?d st" using inv ord pc unfolding cap_inv.simps rounds_ok_def by blast
    have "ledger possible R ?d'" using ledger_commit [OF wf _ fr know cfg as ap seq] inv by simp
    moreover have "rounds_ok ?d' (c(i := Idle))"
    proof -
      have ids: "map pr_id (t_plan ?d') = map pr_id (t_plan ?d)" "current plan ?d" using inv ord by simp_all
      then have cur: "current q ?d' \<longleftrightarrow> q = plan" for q by (metis current_def last_map map_is_Nil_conv)
      have "c j \<noteq> Planned plan st'" if "j \<noteq> i" for j st' using inv pc that unfolding cap_inv.simps rounds_ok_def by (metis pc_plan.simps(3))
      moreover have "pr_id ` set (t_plan ?d') = pr_id ` set (t_plan ?d)" using ids(1) by (metis list.set_map)
      ultimately show ?thesis using inv cur unfolding cap_inv.simps rounds_ok_def by (auto split: if_splits)
    qed
    ultimately show ?thesis using inv ord by simp
  qed
qed

section \<open>The run\<close>

lemma cap_inv_step:
  assumes inv: "cap_inv possible R s" and reach: "reachable jsonb cfg possible s" and cfg: "config_ok cfg possible"
    and ok: "label_ok possible R l (committed (fst s)) (committed (fst s'))" and s': "s' = run_label jsonb cfg possible l s"
  shows "cap_inv possible (R \<union> label_gives l (committed (fst s)) (committed (fst s'))) s'"
proof -
  obtain p c where s: "s = (p, c)" by (cases s)
  note inv = inv [unfolded s] and sys = reachable_inv [OF reach cfg, unfolded s]
  have sys': "sys_inv (run_label jsonb cfg possible l (p, c))" using reachable_inv [OF run_label_reachable [OF reach ok] cfg] by (simp add: s)
  have wf: "db_wf (committed p)" using sys by simp
  have start: "cap_inv possible R (snd (startScheduling b n lock p), c(i := Idle))" for b n lock i
    using cap_inv_call [OF inv wf, of "StartScheduling b n lock" jsonb "c(i := Idle)"] by simp
  have read: "cap_inv possible R (snd (getCurrentState p), c(i := Idle))" for i
    using cap_inv_call [OF inv wf, of GetCurrentState jsonb "c(i := Idle)"] by simp
  show ?thesis
  proof (cases l)
    case (Call op)
    then show ?thesis using cap_inv_call [OF inv wf, of op jsonb c] ok by (simp add: s s')
  next
    case (StartRound i b lock)
    show ?thesis
      using cap_inv_start [OF inv wf] start [of b "sc_schedulingInterval cfg" lock i]
      by (cases "startScheduling b (sc_schedulingInterval cfg) lock p") (auto simp: s s' StartRound simp del: cap_inv.simps split: call.splits sum.splits)
  next
    case (ReadState i)
    show ?thesis
      using cap_inv_read [OF inv wf] read [of i] inv
      by (cases "getCurrentState p") (auto simp: s s' ReadState simp del: cap_inv.simps split: call.splits sum.splits sched_pc.splits)
  next
    case (CommitPlan i)
    show ?thesis
      using cap_inv_commit [OF inv sys _ cfg] sys' inv
      by (cases "c i") (auto simp: s s' CommitPlan simp del: sys_inv.simps cap_inv.simps split: option.splits)
  next
    case (Die i)
    have "rounds_ok (committed p) (c(i := Idle))"
      by (rule rounds_ok_step [OF _ wf wf]) (use inv wf in \<open>auto simp: extends_def idle_grows_same wf_step_def seqs_le_def\<close>)
    then show ?thesis using inv by (simp add: s s' Die)
  qed (use inv ok in \<open>auto simp: s s' plans_ordered_def\<close>)
qed

lemma run_reachable:
  assumes "reachable jsonb cfg possible s" and "orderly_run jsonb cfg possible R ls s"
  shows "reachable jsonb cfg possible (fold (run_label jsonb cfg possible) ls s)"
  using assms
proof (induction ls arbitrary: R s)
  case (Cons l ls)
  define s' where "s' = run_label jsonb cfg possible l s"
  have ok: "label_ok possible R l (committed (fst s)) (committed (fst s'))"
    and rest: "orderly_run jsonb cfg possible (R \<union> label_gives l (committed (fst s)) (committed (fst s'))) ls s'"
    using Cons.prems(2) by (simp_all add: s'_def Let_def)
  show ?case using Cons.IH [OF run_label_reachable [OF Cons.prems(1) ok, folded s'_def] rest] by (simp add: s'_def)
qed simp

lemma cap_inv_run:
  assumes "cap_inv possible R s" and "reachable jsonb cfg possible s" and "config_ok cfg possible" and "orderly_run jsonb cfg possible R ls s"
  shows "\<exists>R'. cap_inv possible R' (fold (run_label jsonb cfg possible) ls s)"
  using assms
proof (induction ls arbitrary: R s)
  case (Cons l ls)
  define s' where "s' = run_label jsonb cfg possible l s"
  have ok: "label_ok possible R l (committed (fst s)) (committed (fst s'))"
    and rest: "orderly_run jsonb cfg possible (R \<union> label_gives l (committed (fst s)) (committed (fst s'))) ls s'"
    using Cons.prems(4) by (simp_all add: s'_def Let_def)
  show ?case
    using Cons.IH [OF cap_inv_step [OF Cons.prems(1,2,3) ok s'_def] run_label_reachable [OF Cons.prems(2) ok, folded s'_def] Cons.prems(3) rest]
    by (simp add: s'_def)
qed auto

lemma cap_inv_init: "cap_inv possible {} (\<lparr>committed = empty_db, pg_now = t, faults = fs\<rparr>, \<lambda>_. Idle)"
  by (simp add: ledger_def rounds_ok_def plans_ordered_def empty_db_def)

text \<open>Jobs that are scheduled or running hold what they need.\<close>

definition vm_load :: "(job_row \<Rightarrow> int) \<Rightarrow> db \<Rightarrow> VmId \<Rightarrow> int" where
  "vm_load f d v = (\<Sum>j \<leftarrow> filter (\<lambda>j. jr_vm_id j = Some v \<and> jr_status j \<in> {Scheduled, Running}) (t_jobs d). f j)"

lemma vm_load_held:
  assumes "ledger possible R d" and "\<And>j. j \<in> set (t_jobs d) \<Longrightarrow> 0 \<le> f j"
  shows "vm_load f d v \<le> held R f (t_jobs d) v"
proof -
  have "(if jr_vm_id j = Some v \<and> jr_status j \<in> {Scheduled, Running} then f j else 0) \<le> (if jr_vm_id j = Some v \<and> holds R j then f j else 0)"
    if "j \<in> set (t_jobs d)" for j
    using assms that by (auto simp: ledger_def holds_def status_sets)
  then show ?thesis unfolding vm_load_def held_sum sum_list_map_filter' by (rule sum_list_mono)
qed

text \<open>
  C3. No VM is overcommitted. Take any run from the empty tables: clients add and cancel tasks, agents report, the
  allocator and the failure detector work, any number of schedulers start rounds, read the state, commit their plans or die
  in between, queries and commits fail. If the clock of the database does not run backwards, every task asks for a
  capacity that the size found for it serves, and a final report of a job is stored only while the job holds its
  capacity, then on every VM the idle capacity and the requirements of the jobs scheduled or running there add up to
  at most the size of the VM, in CPU and in memory.
\<close>

theorem never_overcommitted:
  assumes cfg: "config_ok cfg possible"
    and run: "orderly_run jsonb cfg possible {} ls (\<lparr>committed = empty_db, pg_now = t, faults = fs\<rparr>, \<lambda>_. Idle)"
    and s: "s = fold (run_label jsonb cfg possible) ls (\<lparr>committed = empty_db, pg_now = t, faults = fs\<rparr>, \<lambda>_. Idle)"
    and r: "r \<in> set (t_vms (committed (fst s)))"
  shows "0 \<le> vr_cpu_idle r \<and> vr_cpu_idle r + vm_load jr_cpu (committed (fst s)) (vr_id r) \<le> vr_cpu r \<and>
    0 \<le> vr_ram_idle r \<and> vr_ram_idle r + vm_load jr_ram (committed (fst s)) (vr_id r) \<le> vr_ram r"
proof -
  have "reachable jsonb cfg possible s" unfolding s using run by (rule run_reachable [OF reach_init])
  then have wf: "db_wf (committed (fst s))" using reachable_inv [OF _ cfg] by (cases s) auto
  obtain R where "cap_inv possible R s" unfolding s using cap_inv_run [OF cap_inv_init reach_init cfg run] by blast
  then have led: "ledger possible R (committed (fst s))" by (cases s) simp
  have "0 \<le> jr_cpu j" "0 \<le> jr_ram j" if "j \<in> set (t_jobs (committed (fst s)))" for j
    using wf that by (auto simp: db_wf_def job_ok_def)
  then show ?thesis
    using led r wf vm_load_held [OF led, of jr_cpu "vr_id r"] vm_load_held [OF led, of jr_ram "vr_id r"]
    by (fastforce simp: ledger_def within_def db_wf_def vm_ok_def)
qed

definition ex_run :: "sys_label list" where
  "ex_run = [Call (AddTask ex_task), StartRound 0 ''b'' None, ReadState 0, CommitPlan 0]"

definition ex_sys :: sys where
  "ex_sys = fold (run_label Some ex_cfg ex_possible) ex_run (ex_pg, \<lambda>_. Idle)"

definition ex_full :: vm_row where
  "ex_full = hd (t_vms (committed (fst ex_sys)))"

theorem never_overcommitted_witness:
  "orderly_run Some ex_cfg ex_possible {} ex_run (ex_pg, \<lambda>_. Idle) \<and> t_vms (committed (fst ex_sys)) = [ex_full] \<and>
   vr_cpu ex_full = 2 \<and> vm_load jr_cpu (committed (fst ex_sys)) (vr_id ex_full) = 2 \<and>
   0 \<le> vr_cpu_idle ex_full \<and> vr_cpu_idle ex_full + vm_load jr_cpu (committed (fst ex_sys)) (vr_id ex_full) \<le> vr_cpu ex_full \<and>
   0 \<le> vr_ram_idle ex_full \<and> vr_ram_idle ex_full + vm_load jr_ram (committed (fst ex_sys)) (vr_id ex_full) \<le> vr_ram ex_full"
proof -
  have run: "orderly_run Some ex_cfg ex_possible {} ex_run (ex_pg, \<lambda>_. Idle)" by code_simp
  have vm: "t_vms (committed (fst ex_sys)) = [ex_full]" by code_simp
  have size: "vr_cpu ex_full = 2" "vm_load jr_cpu (committed (fst ex_sys)) (vr_id ex_full) = 2" by code_simp+
  have "ex_full \<in> set (t_vms (committed (fst ex_sys)))" by (simp add: vm)
  with run vm size show ?thesis
    using never_overcommitted [OF ex_config_ok, of Some ex_run 100000000 "[]" ex_sys ex_full]
    unfolding ex_pg_def ex_sys_def by metis
qed

section \<open>Lost capacity\<close>

text \<open>
  The bound is not always an equation. \<^verbatim>\<open>commitPlanChange\<close> writes the idle capacities that the scheduler computed from its
  snapshot, and \<^verbatim>\<open>checkConflicts_\<close> looks at the statuses of the VMs only: what a report has given back in between
  is overwritten. Here two jobs run on a VM of 2 CPUs; the first ends; a third job arrives and a round reads the state; the second
  job ends; the round commits and places the third job, which ends as well. The VM has no job left, but only half of it is idle, so the
  next round does not terminate it.
\<close>

definition ended :: "JobId \<Rightarrow> sys_label" where
  "ended j = Call (UpdateJobState 1 j \<lparr>js_status = Completed, resultUrl = None\<rparr>)"

definition leak_run :: "sys_label list" where
  "leak_run = ex_run @
     [ended 1, Call (AddTask (ex_task\<lparr>jobCount := 1, jobOptions := [''{}'']\<rparr>)), Tick 100000000 [], StartRound 0 ''b'' None, ReadState 0,
      ended 2, CommitPlan 0, ended 3, Tick 100000000 [], StartRound 0 ''b'' None, ReadState 0, CommitPlan 0]"

definition leak_db :: db where
  "leak_db = committed (fst (fold (run_label Some ex_cfg ex_possible) leak_run (ex_pg, \<lambda>_. Idle)))"

lemma capacity_leak:
  "orderly_run Some ex_cfg ex_possible {} leak_run (ex_pg, \<lambda>_. Idle)"
  "map jr_status (t_jobs leak_db) = [Completed, Completed, Completed]"
  "map (\<lambda>r. (vr_cpu r, vr_cpu_idle r, vr_status r)) (t_vms leak_db) = [(2, 1, PendingAllocation)]"
  "length (t_plan leak_db) = 3"
  by code_simp+

text \<open>
  Nor can the condition on final reports go. \<^verbatim>\<open>updateJobState\<close> releases the capacity of a job at every final report,
  also of a job that has ended already: the report of job 1 is repeated, the VM seems idle while job 2 is
  still there, and the next round places two more jobs on it.
\<close>

definition repeat_run :: "sys_label list" where
  "repeat_run = ex_run @
     [ended 1, ended 1, Call (AddTask ex_task), Tick 100000000 [], StartRound 0 ''b'' None, ReadState 0, CommitPlan 0]"

definition repeat_db :: db where
  "repeat_db = committed (fst (fold (run_label Some ex_cfg ex_possible) repeat_run (ex_pg, \<lambda>_. Idle)))"

lemma repeated_report_overcommits:
  "map (\<lambda>r. (vr_id r, vr_cpu r)) (t_vms repeat_db) = [(1, 2)]" "vm_load jr_cpu repeat_db 1 = 3"
  "\<not> orderly_run Some ex_cfg ex_possible {} repeat_run (ex_pg, \<lambda>_. Idle)"
  by code_simp+

end
