(* ===== verification/VmLifecycle.thy ===== *)
theory VmLifecycle
  imports Wellformed Lifecycle
begin

text \<open>
  The life of a VM as an abstract machine, and that the storage refines it: which call of the storage
  may bring a VM from which status to which, when attempts are counted, and when a VM gets
  its provider's identifier.
\<close>

section \<open>The abstract machine\<close>

record vm_cell =
  vc_size :: "int \<times> int"
  vc_status :: VmStatus
  vc_cloud_id :: "string option"
  vc_restarts :: int

type_synonym vm_table = "VmId \<Rightarrow> vm_cell option"

definition retry_move :: "size_t \<Rightarrow> vm_cell \<Rightarrow> vm_cell \<Rightarrow> bool" where
  "retry_move attempts c c' \<longleftrightarrow> vc_status c = Allocating \<and> vc_restarts c < uint attempts \<and>
     c' = c\<lparr>vc_status := PendingAllocation, vc_restarts := vc_restarts c + 1\<rparr>"

definition give_up_move :: "size_t \<Rightarrow> vm_cell \<Rightarrow> vm_cell \<Rightarrow> bool" where
  "give_up_move attempts c c' \<longleftrightarrow> vc_status c = Allocating \<and> \<not> vc_restarts c < uint attempts \<and>
     c' = c\<lparr>vc_status := Terminated\<rparr>"

text \<open>
  Three calls name their VMs and do not look at the status they are in: saving an allocation, saving
  a termination and returning unterminated VMs; so does the commit of a plan with the VMs it terminates.
\<close>

fun vm_move :: "storage_op \<Rightarrow> VmId \<Rightarrow> vm_cell \<Rightarrow> vm_cell \<Rightarrow> bool" where
  "vm_move (CommitPlanChange ch plan) v c c' =
     (v \<in> set (vmsToTerminate ch) \<and> c' = c\<lparr>vc_status := PendingTermination\<rparr>)"
| "vm_move (GetVmsToAllocate scan n) v c c' = (vc_status c = PendingAllocation \<and> c' = c\<lparr>vc_status := Allocating\<rparr>)"
| "vm_move (GetVmsToTerminate scan n) v c c' = (vc_status c = PendingTermination \<and> c' = c\<lparr>vc_status := Terminating\<rparr>)"
| "vm_move (RollbackUnallocatedVmsState ids va ja) v c c' =
     (v \<in> set ids \<and> (retry_move va c c' \<or> give_up_move va c c'))"
| "vm_move (ReturnUnterminatedVms ids) v c c' = (v \<in> set ids \<and> c' = c\<lparr>vc_status := PendingTermination\<rparr>)"
| "vm_move (SaveVmAllocationResult w info) v c c' =
     (v = w \<and> c' = c\<lparr>vc_status := Allocated, vc_cloud_id := Some (ai_id info)\<rparr>)"
| "vm_move (SaveVmTerminationResult w) v c c' = (v = w \<and> c' = c\<lparr>vc_status := Terminated\<rparr>)"
| "vm_move (RestartStaleAllocatingVms limit va) v c c' = retry_move va c c'"
| "vm_move (TerminateStaleAllocatingVms limit va ja) v c c' = give_up_move va c c'"
| "vm_move (TerminateVmsWithInactiveAgents limit ja) v c c' =
     (vc_status c = AgentStarted \<and> c' = c\<lparr>vc_status := PendingTermination\<rparr>)"
| "vm_move (TerminateVmsWithoutAgents limit ja) v c c' =
     (vc_status c = Allocated \<and> c' = c\<lparr>vc_status := PendingTermination\<rparr>)"
| "vm_move (GetAssignedJobs w) v c c' = (v = w \<and> vc_status c = Allocated \<and> c' = c\<lparr>vc_status := AgentStarted\<rparr>)"
| "vm_move _ v c c' = False"

text \<open>
  Only the commit of a plan creates VMs, one of the sizes the plan asks for. (A plan that names one of
  the identifiers it is about to create among the VMs to terminate is not excluded here.)
\<close>

fun vm_birth :: "storage_op \<Rightarrow> VmId \<Rightarrow> vm_cell \<Rightarrow> bool" where
  "vm_birth (CommitPlanChange ch plan) v c =
     (vc_size c \<in> (\<lambda>(i, s). (uint (cpu (total s)), uint (ram (total s)))) ` set (desiredSlotMap ch) \<and>
      (vc_status c = PendingAllocation \<or> v \<in> set (vmsToTerminate ch) \<and> vc_status c = PendingTermination) \<and>
      vc_cloud_id c = None \<and> vc_restarts c = 0)"
| "vm_birth _ v c = False"

interpretation vm_machine: lifecycle "vm_move op" "vm_birth op" for op
proof
  show "c = a \<or> vm_move op v a c" if "vm_move op v a b" "vm_move op v b c" for v a b c
    using that by (cases op) (auto simp: retry_move_def give_up_move_def)
  show "vm_birth op v c" if "vm_birth op v b" "vm_move op v b c" for v b c
    using that by (cases op) auto
qed

section \<open>The abstraction\<close>

definition cell_of_vm :: "vm_row \<Rightarrow> vm_cell" where
  "cell_of_vm r = \<lparr>vc_size = (vr_cpu r, vr_ram r), vc_status = vr_status r, vc_cloud_id = vr_cloud_vm_id r,
     vc_restarts = vr_restart_count r\<rparr>"

definition vm_table_of :: "db \<Rightarrow> vm_table" where
  "vm_table_of d = table_of vr_id cell_of_vm (t_vms d)"

abbreviation vm_row_step :: "storage_op \<Rightarrow> vm_row \<Rightarrow> vm_row \<Rightarrow> bool" where
  "vm_row_step op \<equiv> row_step vr_id cell_of_vm (vm_move op)"

definition vms_step :: "storage_op \<Rightarrow> db \<Rightarrow> db \<Rightarrow> bool" where
  "vms_step op d d' \<longleftrightarrow> rows_step vr_id cell_of_vm (vm_move op) (vm_birth op) (t_vms d) (t_vms d')"

lemma cell_of_vm_trigger [simp]: "cell_of_vm (vm_trigger n r r') = cell_of_vm r'"
  by (simp add: cell_of_vm_def)

lemma vms_step_same: "t_vms d' = t_vms d \<Longrightarrow> vms_step op d d'"
  by (simp add: vms_step_def)

lemma vms_step_update:
  assumes "update_vms c a n d = Inr (rows, d')" and "\<And>r. r \<in> set (t_vms d) \<Longrightarrow> c r \<Longrightarrow> vm_row_step op r (a r)"
  shows "vms_step op d d'"
  using assms(1)
  by (rule update_vmsE) (use assms(2) in \<open>auto simp: vms_step_def row_step_def intro!: rows_step_map\<close>)

lemma vms_step_update_jobs: "update_jobs c a n d = Inr (rows, d') \<Longrightarrow> vms_step op d d'"
  by (erule update_jobsE) (simp add: vms_step_same)

lemma vms_step_release: "stmt_keeps (vms_step op) (release_stmt ids)"
  by (auto simp: stmt_keeps_def row_step_def cell_of_vm_def elim!: release_stmtE intro!: vms_step_update)

interpretation vm_life: plan_relation "vms_step op" for op
proof
  show "vms_step op a b \<Longrightarrow> vms_step op b c \<Longrightarrow> vms_step op a c" for a b c
    unfolding vms_step_def by (rule vm_machine.rows_step_trans)
qed (auto simp: stmt_keeps_def vms_step_same insert_lock_def insert_plan_def Let_def split: if_splits)

section \<open>The storage refines the machine\<close>

lemma vm_life_restartJobs: "keeps (vms_step op) (restartJobs ids s ja)"
  unfolding restartJobs_def
  by (intro vm_life.keeps_bind vm_life.keeps_exec vm_life.keeps_return vm_life.stmt_keeps_with_ids)
     (auto simp: stmt_keeps_def intro: vms_step_update_jobs)

lemma vm_life_restart:
  assumes "\<And>r now. vr_status r = Allocating \<Longrightarrow> vr_restart_count r < uint va \<Longrightarrow> (\<exists>f. cond = Inr f \<and> f now r) \<Longrightarrow>
    vm_row_step op r (r\<lparr>vr_status := PendingAllocation, vr_restart_count := vr_restart_count r + 1\<rparr>)"
  shows "stmt_keeps (vms_step op) (restart_stmt cond va)"
  unfolding stmt_keeps_def restart_stmt_def
  by (auto split: sum.splits intro!: assms elim!: vms_step_update)

lemma vm_life_terminate:
  assumes "\<And>r now. vr_status r = s0 \<Longrightarrow> vr_restart_count r \<ge> uint va \<Longrightarrow> (\<exists>f. cond = Inr f \<and> f now r) \<Longrightarrow>
    vm_row_step op r (r\<lparr>vr_status := s\<rparr>)"
  shows "stmt_keeps (vms_step op) (terminate_stmt cond s0 s va)"
  unfolding stmt_keeps_def terminate_stmt_def
  by (auto split: sum.splits intro!: assms elim!: vms_step_update)

text \<open>Handing out selects identifiers first and updates by them; identifiers are unique.\<close>

lemma vm_life_take:
  assumes step: "\<And>r. vr_status r = s0 \<Longrightarrow> vm_row_step op r (r\<lparr>vr_status := s\<rparr>)" and dist: "distinct (map vr_id (t_vms d))"
    and run: "take_vms scan s0 s k n d = Inr (rows, d')"
  shows "vms_step op d d'"
proof -
  define ids where "ids = select_limit scan s0 k d"
  obtain rows' where up: "update_vms (\<lambda>r. vr_id r \<in> set ids) (\<lambda>r. r\<lparr>vr_status := s\<rparr>) n d = Inr (rows', d')"
    using run by (auto simp: take_vms_def ids_def Let_def split: if_splits sum.splits)
  have "vm_row_step op r (r\<lparr>vr_status := s\<rparr>)" if r: "r \<in> set (t_vms d)" "vr_id r \<in> set ids" for r
  proof -
    obtain q where "q \<in> set (t_vms d)" "vr_status q = s0" "vr_id q = vr_id r"
      using r(2) by (auto simp: ids_def select_limit_def dest!: in_set_takeD)
    with r(1) dist step show ?thesis by (metis distinct_map inj_onD)
  qed
  with up show ?thesis by (rule vms_step_update)
qed

lemma vm_life_write:
  assumes "\<And>rows d'. q (pg_now p) (committed p) = Inr (rows, d') \<Longrightarrow> vms_step op (committed p) d'"
  shows "vms_step op (committed p) (committed (snd (execWritableQuery q p)))"
proof -
  let ?d = "committed (snd (execWritableQuery q p))"
  have "t_vms ?d = t_vms (committed p) \<or> (\<exists>rows d'. q (pg_now p) (committed p) = Inr (rows, d') \<and> t_vms ?d = t_vms d')"
    by (auto simp: execWritableQuery_def try_txn_def run_txn_def tx_try_def tx_bind_def tx_return_def execQuery_def tx_commit_def
        begin_txn_def end_txn_def Let_def split: fault.splits sum.splits prod.splits)
  with assms show ?thesis unfolding vms_step_def by (metis rows_step_refl)
qed

lemma vm_life_insert:
  assumes "(i, slot) \<in> set (desiredSlotMap ch)" and "insert_vm slot n d = Inr (v, d')"
  shows "vms_step (CommitPlanChange ch plan) d d'"
  using assms(2)
proof (rule insert_vmE)
  assume "d' = d\<lparr>t_vms := t_vms d @ [new_vm_row v slot n], t_vm_log := t_vm_log d @ [(v, PendingAllocation, n)],
            seqs := (seqs d)\<lparr>next_vm := v + 1\<rparr>\<rparr>"
  then show ?thesis
    unfolding vms_step_def using assms(1)
    by (auto simp: cell_of_vm_def new_vm_row_def image_iff intro!: rows_step_append bexI [of _ "(i, slot)"])
qed

lemma vm_life_commit: "vms_step (CommitPlanChange ch plan) (committed p) (committed (snd (commitPlanChange ch plan p)))"
  by (rule vm_life.commit_rule [where Q = "\<lambda>_. True"])
     (auto simp: row_step_def cell_of_vm_def assignments_stmt_def update_plan_def
       intro: vms_step_update vms_step_update_jobs vms_step_same vm_life_insert)

lemma vm_life_cancel: "vms_step op (committed p) (committed (snd (cancelJobs c p)))"
  by (rule vm_life.cancelJobs_keeps [OF _ vms_step_release]) (auto simp: stmt_keeps_def intro: vms_step_update_jobs)

lemma vm_life_report: "vms_step op (committed p) (committed (snd (updateJobState v j js p)))"
  by (rule vm_life.updateJobState_keeps [OF _ vms_step_release]) (auto simp: stmt_keeps_def intro: vms_step_update_jobs)

lemma vm_life_add: "vms_step op (committed p) (committed (snd (addTask jsonb tp p)))"
  by (rule vm_life.addTask_keeps) (auto simp: stmt_keeps_def intro: vms_step_same elim!: insert_taskE insert_jobsE)

lemma vm_life_assigned: "vms_step (GetAssignedJobs v) (committed p) (committed (snd (getAssignedJobs v p)))"
  by (rule vm_life.getAssignedJobs_keeps)
     (auto simp: stmt_keeps_def row_step_def cell_of_vm_def intro: vms_step_update)

lemma vm_life_setVmStatus:
  assumes "\<And>r. vr_id r \<in> set ids \<Longrightarrow> vm_row_step op r (r\<lparr>vr_status := s\<rparr>)"
  shows "vms_step op (committed p) (committed (snd (setVmStatus ids s p)))"
  using assms unfolding setVmStatus_def vm_life.snd_drop_rows
  by (intro vm_life.execWritableQuery_rel vm_life.stmt_keeps_with_ids) (auto simp: stmt_keeps_def intro: vms_step_update)

lemma vm_life_op:
  assumes "distinct (map vr_id (t_vms (committed p)))"
  shows "vms_step op (committed p) (committed (apply_op jsonb op p))"
proof (cases op)
  case (GetVmsToAllocate scan n)
  then show ?thesis
    using vm_life_take [OF _ assms, of PendingAllocation op Allocating scan n]
    by (auto simp: getVmsToAllocate_def row_step_def cell_of_vm_def intro!: vm_life_write)
next
  case (GetVmsToTerminate scan n)
  then show ?thesis
    using vm_life_take [OF _ assms, of PendingTermination op Terminating scan n]
    by (auto simp: getVmsToTerminate_def row_step_def cell_of_vm_def intro!: vm_life_write)
next
  case (RollbackUnallocatedVmsState ids va ja)
  then show ?thesis
    by (auto simp: ids_cond_def row_step_def cell_of_vm_def retry_move_def give_up_move_def split: if_splits
        intro!: vm_life.rollback_keeps vm_life_restart vm_life_terminate vm_life_restartJobs)
next
  case (SaveVmAllocationResult v info)
  then show ?thesis
    by (auto simp: saveVmAllocationResult_def stmt_keeps_def row_step_def cell_of_vm_def
        intro!: vm_life.execWritableQuery_rel elim!: vms_step_update)
next
  case (TerminateVmsWithInactiveAgents limit ja)
  have "stmt_keeps (vms_step op) (inactive_stmt limit)"
    unfolding stmt_keeps_def inactive_stmt_def TerminateVmsWithInactiveAgents
    by (auto simp: row_step_def cell_of_vm_def split: sum.splits elim!: vms_step_update)
  with TerminateVmsWithInactiveAgents show ?thesis by (simp add: vm_life.inactiveAgents_keeps vm_life_restartJobs)
next
  case (RestartStaleAllocatingVms limit va)
  then show ?thesis
    by (auto simp: restartStaleAllocatingVms_def row_step_def cell_of_vm_def retry_move_def
        intro!: vm_life.restartAllocatingVms_keeps vm_life_restart)
next
  case (TerminateStaleAllocatingVms limit va ja)
  then show ?thesis
    by (auto simp: terminateStaleAllocatingVms_def row_step_def cell_of_vm_def give_up_move_def
        intro!: vm_life.terminateVmsWhere_keeps vm_life_terminate vm_life_restartJobs)
next
  case (TerminateVmsWithoutAgents limit ja)
  then show ?thesis
    by (auto simp: terminateVmsWithoutAgents_def row_step_def cell_of_vm_def
        intro!: vm_life.terminateVmsWhere_keeps vm_life_terminate vm_life_restartJobs)
next
  case (ReturnUnterminatedVms ids)
  then show ?thesis
    by (auto simp: returnUnterminatedVms_def row_step_def cell_of_vm_def intro!: vm_life_setVmStatus)
next
  case (SaveVmTerminationResult v)
  then show ?thesis
    by (auto simp: saveVmTerminationResult_def row_step_def cell_of_vm_def intro!: vm_life_setVmStatus)
qed (use vm_life.apply_op_read [of op op p jsonb] in \<open>simp_all add: vm_life_add vm_life_commit vm_life.startScheduling_rel
    cancelTask_def cancelTimedOutJobs_def vm_life_cancel vm_life_report vm_life_assigned\<close>)

text \<open>
  C8. Refinement. Seen through the abstraction, every call of the storage, whatever fails during it, is
  one step of the abstract machine of VMs: no VM disappears; only committing a plan creates VMs, of a
  size the plan asks for, pending allocation; VMs are handed out for allocation and termination only
  from the pending states; an attempt is counted exactly when a VM that is being allocated goes back to the
  queue, and once the attempts are used up it is terminated; only an allocated VM becomes started; only
  started VMs whose agent is inactive and allocated VMs without an agent are given up; reports of clients and agents about jobs change no VM.
\<close>

theorem vm_lifecycle:
  assumes "distinct (map vr_id (t_vms (committed p)))"
  shows "table_step (vm_move op) (vm_birth op) (vm_table_of (committed p)) (vm_table_of (committed (apply_op jsonb op p)))"
  unfolding vm_table_of_def by (rule rows_step_refines [OF vm_life_op [OF assms, unfolded vms_step_def]])

theorem vm_lifecycle_witness:
  "table_step (vm_move (GetVmsToAllocate [1] 5)) (vm_birth (GetVmsToAllocate [1] 5))
     (vm_table_of (committed (snd (commitPlanChange ex_grow 1 ex_round))))
     (vm_table_of (committed (apply_op Some (GetVmsToAllocate [1] 5) (snd (commitPlanChange ex_grow 1 ex_round))))) \<and>
   map vr_status (t_vms (committed (snd (commitPlanChange ex_grow 1 ex_round)))) = [PendingAllocation] \<and>
   map vr_status (t_vms (committed (apply_op Some (GetVmsToAllocate [1] 5) (snd (commitPlanChange ex_grow 1 ex_round))))) = [Allocating]"
proof (intro conjI)
  have "map vr_id (t_vms (committed (snd (commitPlanChange ex_grow 1 ex_round)))) = [1]" by code_simp
  then show "table_step (vm_move (GetVmsToAllocate [1] 5)) (vm_birth (GetVmsToAllocate [1] 5))
     (vm_table_of (committed (snd (commitPlanChange ex_grow 1 ex_round))))
     (vm_table_of (committed (apply_op Some (GetVmsToAllocate [1] 5) (snd (commitPlanChange ex_grow 1 ex_round)))))"
    by (intro vm_lifecycle) simp
qed code_simp+

end
