(* ===== verification/VmRows.thy ===== *)
theory VmRows
  imports StorageVmSpec
begin

text \<open>
  VM rows followed through the operations by their identifier: what the allocator's and the failure
  detector's calls do to the row of one VM when no connection fails.
\<close>

section \<open>One row\<close>

definition vm_find :: "db \<Rightarrow> VmId \<Rightarrow> vm_row option" where
  "vm_find d i = find (\<lambda>r. vr_id r = i) (t_vms d)"

lemma find_map_keep:
  assumes "\<And>x. P (f x) = P x"
  shows "find P (map f xs) = map_option f (find P xs)"
  by (induction xs) (simp_all add: assms)

lemma vm_find_Some: "vm_find d i = Some r \<Longrightarrow> r \<in> set (t_vms d) \<and> vr_id r = i"
  by (auto simp: vm_find_def find_Some_iff)

lemma vm_find_unique:
  assumes "distinct (map vr_id (t_vms d))" and "r \<in> set (t_vms d)"
  shows "vm_find d (vr_id r) = Some r"
proof -
  obtain q where q: "vm_find d (vr_id r) = Some q"
    using assms(2) by (cases "vm_find d (vr_id r)") (auto simp: vm_find_def find_None_iff)
  then have "q = r" using vm_find_Some [OF q] assms unfolding distinct_map inj_on_def by blast
  with q show ?thesis by simp
qed

text \<open>The row a statement makes of a row.\<close>

definition vm_written :: "(vm_row \<Rightarrow> bool) \<Rightarrow> (vm_row \<Rightarrow> vm_row) \<Rightarrow> int \<Rightarrow> vm_row \<Rightarrow> vm_row" where
  "vm_written c a n r = (if c r then vm_trigger n r (a r) else r)"

lemma vm_find_map:
  assumes "t_vms d' = map (vm_written c a n) (t_vms d)" and "\<And>r. vr_id (a r) = vr_id r"
  shows "vm_find d' i = map_option (vm_written c a n) (vm_find d i)"
  unfolding vm_find_def assms(1) by (rule find_map_keep) (simp add: vm_written_def assms(2))

section \<open>Runs of one statement\<close>

lemma execWritableQuery_ok:
  assumes "faults p = []" and "q (pg_now p) (committed p) = Inr (r, d')"
  shows "execWritableQuery q p = (Returned (Inr r), p\<lparr>committed := d'\<rparr>)"
proof -
  have "execWritableQuery q p = (Returned (Inr r), \<lparr>committed = d', pg_now = pg_now p, faults = []\<rparr>)"
    using assms unfolding execWritableQuery_def by (simp add: tx_run begin_txn_def end_txn_def)
  with assms(1) show ?thesis by simp
qed

text \<open>An update of VM rows that stays in range, as its own transaction.\<close>

lemma write_vms_run:
  assumes "faults p = []" and "\<And>r. r \<in> set (t_vms (committed p)) \<Longrightarrow> c r \<Longrightarrow> vm_row_ok (a r)"
  obtains p' where "execWritableQuery (update_vms c a) p = (Returned (Inr (map a (filter c (t_vms (committed p))))), p')"
    "faults p' = []" "pg_now p' = pg_now p" "t_vms (committed p') = map (vm_written c a (pg_now p)) (t_vms (committed p))"
    "t_jobs (committed p') = t_jobs (committed p)"
proof -
  have "update_vms c a (pg_now p) (committed p) = Inr (map a (filter c (t_vms (committed p))),
     (committed p)\<lparr>t_vms := map (vm_written c a (pg_now p)) (t_vms (committed p)),
       t_vm_log := t_vm_log (committed p) @ map (\<lambda>r. (vr_id r, vr_status (a r), pg_now p))
         (filter (\<lambda>r. vr_status r \<noteq> vr_status (a r)) (filter c (t_vms (committed p))))\<rparr>)"
    unfolding vm_written_def using assms(2) by (rule update_vms_ok)
  from that [OF execWritableQuery_ok [of p "update_vms c a", OF assms(1) this]] show thesis by (simp add: assms(1))
qed

section \<open>Jobs of lost VMs\<close>

definition restarted :: "VmId list \<Rightarrow> JobStatus \<Rightarrow> size_t \<Rightarrow> job_row \<Rightarrow> job_row" where
  "restarted vmIds s attempts j =
     (if jr_status j = s \<and> on_vms vmIds j
      then if jr_restart_count j < uint attempts then j\<lparr>jr_status := Queued, jr_restart_count := jr_restart_count j + 1\<rparr>
           else j\<lparr>jr_status := InternalError\<rparr>
      else j)"

lemma restartJobs_run:
  assumes t: "faults t = []" "txn_status t = Active" and s: "s \<in> {Scheduled, Running}" and ids: "vmIds \<noteq> []"
    and ok: "\<And>j. j \<in> set (t_jobs (work t)) \<Longrightarrow> job_row_ok j \<and> job_fk_ok (work t) j" and att: "uint attempts < 2 ^ 31"
  obtains d where "restartJobs vmIds s attempts t = (Inr (), t\<lparr>work := d\<rparr>)" "t_vms d = t_vms (work t)"
    "t_jobs d = map (restarted vmIds s attempts) (t_jobs (work t))"
proof -
  define d0 n where "d0 = work t" and "n = pg_now t"
  let ?c1 = "\<lambda>r. jr_status r = s \<and> jr_restart_count r < uint attempts \<and> on_vms vmIds r"
  let ?a1 = "\<lambda>r::job_row. r\<lparr>jr_status := Queued, jr_restart_count := jr_restart_count r + 1\<rparr>"
  let ?c2 = "\<lambda>r. jr_status r = s \<and> jr_restart_count r \<ge> uint attempts \<and> on_vms vmIds r"
  let ?a2 = "\<lambda>r::job_row. r\<lparr>jr_status := InternalError\<rparr>"
  have "job_row_ok (?a1 r) \<and> job_fk_ok d0 (?a1 r)" if "r \<in> set (t_jobs d0)" "?c1 r" for r
    using ok [of r] that att by (auto simp: d0_def job_row_ok_def job_fk_ok_def int4_def)
  from update_jobs_ok [of d0 ?c1 ?a1 n, OF this] obtain rows d1 where
    one: "update_jobs ?c1 ?a1 n d0 = Inr (rows, d1)" and
    d1: "t_jobs d1 = map (\<lambda>r. if ?c1 r then ?a1 r else r) (t_jobs d0)" "t_vms d1 = t_vms d0" "t_tasks d1 = t_tasks d0" by auto
  have fk: "job_fk_ok d1 r = job_fk_ok d0 r" for r by (rule job_fk_ok_cong) (simp_all add: d1)
  have "job_row_ok (?a2 r) \<and> job_fk_ok d1 (?a2 r)" if r: "r \<in> set (t_jobs d1)" "?c2 r" for r
  proof -
    obtain q where "q \<in> set (t_jobs d0)" "r = (if ?c1 q then ?a1 q else q)" using r(1) unfolding d1 by auto
    with ok [of q] r(2) s show ?thesis unfolding fk by (auto simp: d0_def job_row_ok_def job_fk_ok_def split: if_splits)
  qed
  from update_jobs_ok [of d1 ?c2 ?a2 n, OF this] obtain rows2 d2 where
    two: "update_jobs ?c2 ?a2 n d1 = Inr (rows2, d2)" and
    d2: "t_jobs d2 = map (\<lambda>r. if ?c2 r then ?a2 r else r) (t_jobs d1)" "t_vms d2 = t_vms d1" by auto
  have "(\<lambda>r. if ?c2 r then ?a2 r else r) ((\<lambda>r. if ?c1 r then ?a1 r else r) j) = restarted vmIds s attempts j" for j
    using s by (auto simp: restarted_def)
  then have "t_jobs d2 = map (restarted vmIds s attempts) (t_jobs d0)" unfolding d2 d1 map_map comp_def by simp
  moreover have "restartJobs vmIds s attempts t = (Inr (), t\<lparr>work := d2\<rparr>)"
    using t ids one two unfolding restartJobs_def by (simp add: tx_run with_ids_def d0_def n_def)
  ultimately show thesis using that [of d2] d1 d2 by (simp add: d0_def)
qed

text \<open>The second \<^verbatim>\<open>terminateVms_\<close> on a condition that can be read.\<close>

lemma terminateVmsWhere_run:
  fixes cnd :: "int \<Rightarrow> vm_row \<Rightarrow> bool" and s s' :: VmStatus and vmAttempts jobAttempts :: size_t
  assumes nf: "faults p = []" and wf: "db_wf (committed p)" and att: "uint jobAttempts < 2 ^ 31"
  defines "c \<equiv> (\<lambda>r. vr_status r = s \<and> vr_restart_count r \<ge> uint vmAttempts \<and> cnd (pg_now p) r)"
  defines "lost \<equiv> map vr_id (filter c (t_vms (committed p)))"
  obtains p' where "terminateVmsWhere (Inr cnd) s s' vmAttempts jobAttempts p = (Returned (Inr ()), p')" "faults p' = []"
    "pg_now p' = pg_now p" "t_vms (committed p') = map (vm_written c (\<lambda>r. r\<lparr>vr_status := s'\<rparr>) (pg_now p)) (t_vms (committed p))"
    "t_jobs (committed p') = map (restarted lost Scheduled jobAttempts) (t_jobs (committed p))"
proof -
  let ?a = "\<lambda>r::vm_row. r\<lparr>vr_status := s'\<rparr>"
  define d n where "d = committed p" and "n = pg_now p"
  have "vm_row_ok (?a r)" if "r \<in> set (t_vms d)" "c r" for r
    using wf that by (auto simp: d_def db_wf_def vm_ok_def vm_row_ok_def)
  from update_vms_ok [of d c ?a n, OF this] obtain d1 where
    up: "update_vms c ?a n d = Inr (map ?a (filter c (t_vms d)), d1)" and
    d1: "t_vms d1 = map (vm_written c ?a n) (t_vms d)" "t_jobs d1 = t_jobs d" "t_tasks d1 = t_tasks d"
    by (auto simp: vm_written_def)
  have stmt: "terminate_stmt (Inr cnd) s s' vmAttempts n d = Inr (map ?a (filter c (t_vms d)), d1)"
    using up by (simp add: terminate_stmt_def c_def n_def)
  have lost: "map vr_id (map ?a (filter c (t_vms d))) = lost" by (simp add: lost_def d_def comp_def)
  show thesis
  proof (cases "lost = []")
    case True
    then have none: "\<not> c r" if "r \<in> set (t_vms d)" for r using that by (auto simp: lost_def d_def filter_empty_conv)
    have run: "terminateVmsWhere (Inr cnd) s s' vmAttempts jobAttempts p = (Returned (Inr ()), end_txn (begin_txn p\<lparr>work := d1\<rparr>))"
      using nf stmt lost True unfolding terminateVmsWhere_def by (simp add: tx_run d_def n_def Let_def)
    have "map (vm_written c ?a n) (t_vms d) = t_vms d" using none by (intro map_idI) (simp add: vm_written_def)
    moreover have "map (restarted lost Scheduled jobAttempts) (t_jobs d) = t_jobs d"
      by (intro map_idI) (simp add: True restarted_def on_vms_def split: option.splits)
    ultimately show thesis using that [OF run] nf by (simp add: end_txn_def begin_txn_def d_def n_def)
  next
    case False
    then have hit: "filter c (t_vms (committed p)) \<noteq> []" by (auto simp: lost_def)
    define t where "t = (begin_txn p)\<lparr>work := d1\<rparr>"
    have t: "faults t = []" "txn_status t = Active" "work t = d1" "pg_now t = n" using nf by (simp_all add: t_def n_def)
    have "map vr_id (t_vms d1) = map vr_id (t_vms d)" by (simp add: d1 vm_written_def)
    then have "vr_id ` set (t_vms d1) = vr_id ` set (t_vms d)" by (metis set_map)
    then have "job_fk_ok d1 j = job_fk_ok d j" for j by (intro job_fk_ok_cong) (simp_all add: d1)
    then have "job_row_ok j \<and> job_fk_ok d1 j" if "j \<in> set (t_jobs d1)" for j
      using wf that by (auto simp: d_def d1 db_wf_def job_ok_def)
    then obtain d2 where rs: "restartJobs lost Scheduled jobAttempts t = (Inr (), t\<lparr>work := d2\<rparr>)" and
      d2: "t_vms d2 = t_vms d1" "t_jobs d2 = map (restarted lost Scheduled jobAttempts) (t_jobs d1)"
      using restartJobs_run [OF t(1,2) _ False _ att, of Scheduled] t(3) by auto
    have run: "terminateVmsWhere (Inr cnd) s s' vmAttempts jobAttempts p =
        (Returned (Inr ()), end_txn (t\<lparr>work := d2, committed := d2, txn_status := Closed\<rparr>))"
      using nf stmt lost rs t hit unfolding terminateVmsWhere_def by (simp add: tx_run d_def n_def Let_def t_def)
    show thesis using that [OF run] d2 d1 t by (simp add: end_txn_def d_def n_def)
  qed
qed

section \<open>Taking VMs and giving them back\<close>

text \<open>What giving back an unallocated VM makes of its row.\<close>

definition given_back :: "VmId list \<Rightarrow> size_t \<Rightarrow> int \<Rightarrow> vm_row \<Rightarrow> vm_row" where
  "given_back vmIds attempts now r =
     (if vr_status r = Allocating \<and> vr_id r \<in> set vmIds
      then if vr_restart_count r < uint attempts
           then r\<lparr>vr_status := PendingAllocation, vr_restart_count := vr_restart_count r + 1, vr_last_status_update := now\<rparr>
           else r\<lparr>vr_status := Terminated, vr_last_status_update := now\<rparr>
      else r)"

definition given_up :: "VmId list \<Rightarrow> size_t \<Rightarrow> db \<Rightarrow> VmId list" where
  "given_up vmIds attempts d = map vr_id (filter (\<lambda>r. vr_status r = Allocating \<and> vr_restart_count r \<ge> uint attempts \<and>
     vr_id r \<in> set vmIds) (t_vms d))"

lemma rollback_run:
  assumes "faults p = []" and "db_wf (committed p)" and "vmIds \<noteq> []"
    and "uint vmAttempts < 2 ^ 31" and "uint jobAttempts < 2 ^ 31"
  shows "\<exists>p'. rollbackUnallocatedVmsState vmIds vmAttempts jobAttempts p = (Returned (Inr ()), p') \<and> faults p' = [] \<and>
     t_vms (committed p') = map (given_back vmIds vmAttempts (pg_now p)) (t_vms (committed p)) \<and>
     t_jobs (committed p') = map (restarted (given_up vmIds vmAttempts (committed p)) Scheduled jobAttempts) (t_jobs (committed p))"
proof -
  define d n where "d = committed p" and "n = pg_now p"
  let ?c = "\<lambda>r. vr_status r = Allocating \<and> vr_restart_count r < uint vmAttempts \<and> vr_id r \<in> set vmIds"
  let ?a = "\<lambda>r::vm_row. r\<lparr>vr_status := PendingAllocation, vr_restart_count := vr_restart_count r + 1\<rparr>"
  have "vm_row_ok (?a r)" if "r \<in> set (t_vms (committed p))" "?c r" for r
    using assms(2,4) that by (auto simp: db_wf_def vm_ok_def vm_row_ok_def int4_def)
  then obtain p1 where run1: "execWritableQuery (update_vms ?c ?a) p = (Returned (Inr (map ?a (filter ?c (t_vms (committed p))))), p1)"
    and p1: "faults p1 = []" "pg_now p1 = n" "t_vms (committed p1) = map (vm_written ?c ?a n) (t_vms d)"
      "t_jobs (committed p1) = t_jobs d"
    unfolding d_def n_def by (rule write_vms_run [OF assms(1)]) 
  have "restart_stmt (ids_cond vmIds) vmAttempts = update_vms ?c ?a"
    using assms(3) by (intro ext) (simp add: restart_stmt_def ids_cond_def)
  with run1 have re: "restartAllocatingVms (ids_cond vmIds) vmAttempts p = (Returned (Inr ()), p1)"
    by (simp add: restartAllocatingVms_def drop_rows_def)
  then have wf1: "db_wf (committed p1)"
    using wf_rel.restartAllocatingVms_keeps [OF wf.stmt_keeps_writes(3), of p "ids_cond vmIds" vmAttempts] assms(2) by (simp add: wf_step_def)
  let ?c2 = "\<lambda>r. vr_status r = Allocating \<and> vr_restart_count r \<ge> uint vmAttempts \<and> vr_id r \<in> set vmIds"
  obtain p' where run2: "terminateVmsWhere (Inr (\<lambda>_ r. vr_id r \<in> set vmIds)) Allocating Terminated vmAttempts jobAttempts p1 =
      (Returned (Inr ()), p')" and p': "faults p' = []" "pg_now p' = n"
    "t_vms (committed p') = map (vm_written ?c2 (\<lambda>r. r\<lparr>vr_status := Terminated\<rparr>) n) (t_vms (committed p1))"
    "t_jobs (committed p') = map (restarted (map vr_id (filter ?c2 (t_vms (committed p1)))) Scheduled jobAttempts) (t_jobs (committed p1))"
    by (rule terminateVmsWhere_run [OF p1(1) wf1 assms(5), of "\<lambda>_ r. vr_id r \<in> set vmIds" Allocating Terminated vmAttempts,
          unfolded p1(2)]) blast
  have "map vr_id (filter ?c2 (map (vm_written ?c ?a n) rs)) = map vr_id (filter ?c2 rs)" for rs
    by (induction rs) (auto simp: vm_written_def vm_trigger_def)
  then have lost: "map vr_id (filter ?c2 (t_vms (committed p1))) = given_up vmIds vmAttempts d"
    unfolding p1(3) given_up_def .
  have "vm_written ?c2 (\<lambda>r. r\<lparr>vr_status := Terminated\<rparr>) n (vm_written ?c ?a n r) = given_back vmIds vmAttempts n r" for r
    by (auto simp: vm_written_def vm_trigger_def given_back_def)
  then have "t_vms (committed p') = map (given_back vmIds vmAttempts n) (t_vms d)" unfolding p'(3) p1(3) by simp
  with p' re run2 lost show ?thesis
    using assms(3) by (simp add: rollbackUnallocatedVmsState_def ids_cond_def p1(4) d_def n_def)
qed

text \<open>
  C28. Without faults, giving back VMs that could not be allocated succeeds and settles each of them:
  an allocating VM of the list goes back to pending with one more restart counted, or, once its
  attempts are used up, becomes terminated; then its scheduled jobs go back to the queue, or fail
  once their own attempts are used up. No other VM or job changes.
\<close>

theorem rollback_effect:
  assumes "faults p = []" and "db_wf (committed p)" and "vmIds \<noteq> []"
    and "uint vmAttempts < 2 ^ 31" and "uint jobAttempts < 2 ^ 31"
  shows "\<exists>p'. rollbackUnallocatedVmsState vmIds vmAttempts jobAttempts p = (Returned (Inr ()), p') \<and> faults p' = [] \<and>
     t_vms (committed p') = map (given_back vmIds vmAttempts (pg_now p)) (t_vms (committed p)) \<and>
     t_jobs (committed p') = map (restarted (given_up vmIds vmAttempts (committed p)) Scheduled jobAttempts) (t_jobs (committed p))"
  by (rule rollback_run [OF assms])

definition ex_allocating :: pg where
  "ex_allocating = snd (getVmsToAllocate [1] 1 ex_scheduled)"

lemma ex_allocating_wf: "db_wf (committed ex_allocating)" and ex_allocating_faults: "faults ex_allocating = []"
  by code_simp+

theorem rollback_effect_witness:
  "\<exists>p'. rollbackUnallocatedVmsState [1] 0 3 ex_allocating = (Returned (Inr ()), p') \<and>
     map vr_status (t_vms (committed p')) = [Terminated] \<and> map jr_status (t_jobs (committed p')) = [Queued, Queued]"
proof -
  have "map vr_status (map (given_back [1] 0 (pg_now ex_allocating)) (t_vms (committed ex_allocating))) = [Terminated]"
    "map jr_status (map (restarted (given_up [1] 0 (committed ex_allocating)) Scheduled 3) (t_jobs (committed ex_allocating))) =
       [Queued, Queued]"
    by code_simp+
  then show ?thesis
    using rollback_effect [OF ex_allocating_faults ex_allocating_wf, of "[1]" 0 3] by (auto simp del: map_map)
qed

end
