(* ===== verification/Allocator.thy ===== *)
theory Allocator
  imports StorageVms
begin

text \<open>
  \<^verbatim>\<open>Allocator\<close> (\<^verbatim>\<open>libs/allocator/impl/allocator.cpp\<close>): the background jobs that turn pending VMs into
  running ones, terminate VMs, and terminate what the provider runs but the database does not know.
  The cloud provider is the interface \<^verbatim>\<open>CloudClient\<close>, a record of operations over a state of its own;
  while the provider works, other processes use the database, which is the argument \<open>others\<close>.
\<close>

section \<open>The provider's interface\<close>

text \<open>
  \<^verbatim>\<open>AllocatedVmInfos\<close> is a hash set; where the code iterates over it, it is a list in iteration order.
\<close>

record 'c CloudClient =
  cc_allocate :: "VmId \<Rightarrow> SlotCapacity \<Rightarrow> 'c \<Rightarrow> AllocatedVmInfo result \<times> 'c"
  cc_terminate :: "CloudVmId \<Rightarrow> 'c \<Rightarrow> unit result \<times> 'c"
  cc_getAllAllocatedVms :: "'c \<Rightarrow> AllocatedVmInfo list result \<times> 'c"
  cc_getPossibleSlots :: "'c \<Rightarrow> SlotCapacity list \<times> 'c"

record CommonConfig =
  jobRestartAttemptCount :: size_t
  vmRestartAttemptCount :: size_t

record AllocatorConfig =
  maxVmAllocationCount :: size_t
  maxVmTerminationCount :: size_t
  ac_common :: CommonConfig

type_synonym 'c world = "pg \<times> 'c"

section \<open>Allocating\<close>

text \<open>The loop over the VMs; the accumulator is \<^verbatim>\<open>unallocatedVms\<close>. A failed save is only logged.\<close>

fun allocate_vms ::
    "'c CloudClient \<Rightarrow> ('c \<Rightarrow> pg \<Rightarrow> pg) \<Rightarrow> AllocationPendingVmInfo list \<Rightarrow> VmId list \<Rightarrow> 'c world \<Rightarrow> VmId list call \<times> 'c world" where
  "allocate_vms cc others [] unallocated w = (Returned unallocated, w)"
| "allocate_vms cc others (vm # rest) unallocated (p, c) =
     (case cc_allocate cc (ap_id vm) (ap_capacity vm) c of
        (Inr info, c') \<Rightarrow>
          (case saveVmAllocationResult (ap_id vm) info (others c' p) of
             (StdTerminate, p') \<Rightarrow> (StdTerminate, p', c')
           | (Returned _, p') \<Rightarrow> allocate_vms cc others rest unallocated (p', c'))
      | (Inl _, c') \<Rightarrow> allocate_vms cc others rest (unallocated @ [ap_id vm]) (others c' p, c'))"

definition Allocator_allocate ::
    "AllocatorConfig \<Rightarrow> 'c CloudClient \<Rightarrow> VmId list \<Rightarrow> ('c \<Rightarrow> pg \<Rightarrow> pg) \<Rightarrow> 'c world \<Rightarrow> unit call \<times> 'c world" where
  "Allocator_allocate cfg cc scan others w =
     (case w of (p, c) \<Rightarrow>
     (case getVmsToAllocate scan (maxVmAllocationCount cfg) p of
        (StdTerminate, p1) \<Rightarrow> (StdTerminate, p1, c)
      | (Returned (Inl _), p1) \<Rightarrow> (Returned (), p1, c)
      | (Returned (Inr found), p1) \<Rightarrow>
          (case allocate_vms cc others found [] (p1, c) of
             (StdTerminate, w2) \<Rightarrow> (StdTerminate, w2)
           | (Returned unallocated, (p2, c2)) \<Rightarrow>
               if unallocated = [] then (Returned (), p2, c2)
               else (case rollbackUnallocatedVmsState unallocated
                         (vmRestartAttemptCount (ac_common cfg)) (jobRestartAttemptCount (ac_common cfg)) p2 of
                       (StdTerminate, p3) \<Rightarrow> (StdTerminate, p3, c2)
                     | (Returned _, p3) \<Rightarrow> (Returned (), p3, c2)))))"

section \<open>Terminating\<close>

fun terminate_vms ::
    "'c CloudClient \<Rightarrow> ('c \<Rightarrow> pg \<Rightarrow> pg) \<Rightarrow> TerminationPendingVmInfo list \<Rightarrow> VmId list \<Rightarrow> 'c world \<Rightarrow> VmId list call \<times> 'c world" where
  "terminate_vms cc others [] unterminated w = (Returned unterminated, w)"
| "terminate_vms cc others (vm # rest) unterminated (p, c) =
     (case cc_terminate cc (tpv_cloudVmId vm) c of
        (Inr _, c') \<Rightarrow>
          (case saveVmTerminationResult (tpv_id vm) (others c' p) of
             (StdTerminate, p') \<Rightarrow> (StdTerminate, p', c')
           | (Returned _, p') \<Rightarrow> terminate_vms cc others rest unterminated (p', c'))
      | (Inl _, c') \<Rightarrow> terminate_vms cc others rest (unterminated @ [tpv_id vm]) (others c' p, c'))"

definition Allocator_terminate ::
    "AllocatorConfig \<Rightarrow> 'c CloudClient \<Rightarrow> VmId list \<Rightarrow> ('c \<Rightarrow> pg \<Rightarrow> pg) \<Rightarrow> 'c world \<Rightarrow> unit call \<times> 'c world" where
  "Allocator_terminate cfg cc scan others w =
     (case w of (p, c) \<Rightarrow>
     (case getVmsToTerminate scan (maxVmTerminationCount cfg) p of
        (StdTerminate, p1) \<Rightarrow> (StdTerminate, p1, c)
      | (Returned (Inl _), p1) \<Rightarrow> (Returned (), p1, c)
      | (Returned (Inr found), p1) \<Rightarrow>
          (case terminate_vms cc others found [] (p1, c) of
             (StdTerminate, w2) \<Rightarrow> (StdTerminate, w2)
           | (Returned unterminated, (p2, c2)) \<Rightarrow>
               if unterminated = [] then (Returned (), p2, c2)
               else (case returnUnterminatedVms unterminated p2 of
                       (StdTerminate, p3) \<Rightarrow> (StdTerminate, p3, c2)
                     | (Returned _, p3) \<Rightarrow> (Returned (), p3, c2)))))"

section \<open>Terminating what is not tracked\<close>

text \<open>
  The results of the terminations are only logged. The early return on an empty answer of the
  provider is the case of no iteration.
\<close>

fun terminate_untracked :: "'c CloudClient \<Rightarrow> AllocatedVmInfo list \<Rightarrow> 'c \<Rightarrow> 'c" where
  "terminate_untracked cc [] c = c"
| "terminate_untracked cc (vm # rest) c = terminate_untracked cc rest (snd (cc_terminate cc (ai_id vm) c))"

definition Allocator_terminateUntrackedVms ::
    "'c CloudClient \<Rightarrow> ('c \<Rightarrow> pg \<Rightarrow> pg) \<Rightarrow> 'c world \<Rightarrow> unit call \<times> 'c world" where
  "Allocator_terminateUntrackedVms cc others w =
     (case w of (p, c) \<Rightarrow>
     (case getAllocatedVms p of
        (StdTerminate, p1) \<Rightarrow> (StdTerminate, p1, c)
      | (Returned (Inl _), p1) \<Rightarrow> (Returned (), p1, c)
      | (Returned (Inr tracked), p1) \<Rightarrow>
          (case cc_getAllAllocatedVms cc c of
             (Inl _, c1) \<Rightarrow> (Returned (), others c1 p1, c1)
           | (Inr all, c1) \<Rightarrow>
               let c2 = terminate_untracked cc (filter (\<lambda>vm. vm \<notin> tracked) all) c1
               in (Returned (), others c2 p1, c2))))"

end
