(* ===== verification/FailureDetector.thy ===== *)
theory FailureDetector
  imports Allocator
begin

text \<open>
  \<^verbatim>\<open>FailureDetector\<close> (\<^verbatim>\<open>libs/failure_detector/impl/failure_detector.cpp\<close>): one iteration of the monitor is
  five handlers in a row; a failure of one is logged and the next one runs.
\<close>

record FailureDetectorConfig =
  fd_allocationTimeLimit :: int
  fd_agentStartupTimeLimit :: int
  fd_agentInactivityTimeLimit :: int
  fd_terminationTimeLimit :: int
  fd_common :: CommonConfig

text \<open>Run a call whose failure is only logged; an exception out of it ends the process.\<close>

definition logged :: "'a result call \<times> pg \<Rightarrow> unit call \<times> pg" where
  "logged res = (case res of (StdTerminate, p) \<Rightarrow> (StdTerminate, p) | (Returned _, p) \<Rightarrow> (Returned (), p))"

definition then_run :: "unit call \<times> 'w \<Rightarrow> ('w \<Rightarrow> unit call \<times> 'w) \<Rightarrow> unit call \<times> 'w" where
  "then_run r k = (case r of (StdTerminate, w) \<Rightarrow> (StdTerminate, w) | (Returned _, w) \<Rightarrow> k w)"

definition handleStaleAllocatingVms :: "FailureDetectorConfig \<Rightarrow> pg \<Rightarrow> unit call \<times> pg" where
  "handleStaleAllocatingVms cfg p =
     then_run (logged (restartStaleAllocatingVms (fd_allocationTimeLimit cfg) (vmRestartAttemptCount (fd_common cfg)) p))
       (\<lambda>p. logged (terminateStaleAllocatingVms (fd_allocationTimeLimit cfg) (vmRestartAttemptCount (fd_common cfg))
          (jobRestartAttemptCount (fd_common cfg)) p))"

definition handleInactiveAgents :: "FailureDetectorConfig \<Rightarrow> pg \<Rightarrow> unit call \<times> pg" where
  "handleInactiveAgents cfg p =
     logged (terminateVmsWithInactiveAgents (fd_agentInactivityTimeLimit cfg) (jobRestartAttemptCount (fd_common cfg)) p)"

definition handleVmsWithoutAgents :: "FailureDetectorConfig \<Rightarrow> pg \<Rightarrow> unit call \<times> pg" where
  "handleVmsWithoutAgents cfg p =
     logged (terminateVmsWithoutAgents (fd_agentStartupTimeLimit cfg) (jobRestartAttemptCount (fd_common cfg)) p)"

definition FailureDetector_cancelTimedOutJobs :: "pg \<Rightarrow> unit call \<times> pg" where
  "FailureDetector_cancelTimedOutJobs p = logged (cancelTimedOutJobs p)"

definition on_pg :: "(pg \<Rightarrow> unit call \<times> pg) \<Rightarrow> 'c world \<Rightarrow> unit call \<times> 'c world" where
  "on_pg f w = (case w of (p, c) \<Rightarrow> (case f p of (r, p') \<Rightarrow> (r, p', c)))"

definition monitor ::
    "FailureDetectorConfig \<Rightarrow> 'c CloudClient \<Rightarrow> ('c \<Rightarrow> pg \<Rightarrow> pg) \<Rightarrow> 'c world \<Rightarrow> unit call \<times> 'c world" where
  "monitor cfg cc others w =
     then_run (on_pg (handleStaleAllocatingVms cfg) w) (\<lambda>w.
     then_run (on_pg (handleInactiveAgents cfg) w) (\<lambda>w.
     then_run (on_pg (handleVmsWithoutAgents cfg) w) (\<lambda>w.
     then_run (Allocator_terminateUntrackedVms cc others w) (\<lambda>w.
     on_pg FailureDetector_cancelTimedOutJobs w))))"

end
