(* ===== verification/ServerApi.thy ===== *)
theory ServerApi
  imports StorageVms
begin

text \<open>
  The two gRPC services (\<^verbatim>\<open>libs/server/impl/public_api_service.cpp\<close>, \<^verbatim>\<open>agent_api_service.cpp\<close>,
  \<^verbatim>\<open>helpers.cpp\<close>) over the storage: messages as records with the widths of the \<^verbatim>\<open>proto\<close> files, validation,
  the mapping of statuses, and one function per handler. The JSON parser is a parameter: \<open>parse s\<close>
  is the offset at which it rejects \<open>s\<close>, or \<open>None\<close>.
\<close>

section \<open>Messages\<close>

type_synonym uint32 = "32 word"
type_synonym uint64 = "64 word"

datatype ProtoJobStatus = JOB_QUEUED | JOB_RUNNING | JOB_COMPLETED | JOB_CANCELLED | JOB_FAILED

datatype ProtoTaskStatus = TASK_QUEUED | TASK_RUNNING | TASK_COMPLETED

record ProtoTask =
  pt_memory_mb :: uint32
  pt_cpu_cores :: uint32
  pt_execution_s :: uint32
  pt_settings :: string
  pt_job_count :: uint32
  pt_image_version :: string
  pt_client_id :: string
  pt_job_options :: "string list"

record ProtoTaskState =
  pts_status :: ProtoTaskStatus
  pts_job_states :: "ProtoJobStatus list"

record ProtoJobExecutionResult =
  per_status :: ProtoJobStatus
  per_result_url :: "string option"

record ProtoTaskExecutionResult =
  ptr_status :: ProtoTaskStatus
  ptr_job_results :: "ProtoJobExecutionResult list"

record ProtoJobToLaunch =
  pjl_id :: uint64
  pjl_image_version :: string
  pjl_memory_mb :: uint32
  pjl_cpu_cores :: uint32
  pjl_task_settings :: string
  pjl_job_options :: string

record ProtoExecutionJobState =
  pes_vm_id :: uint64
  pes_job_id :: uint64
  pes_result :: ProtoJobExecutionResult

section \<open>Replies\<close>

datatype StatusCode = OK | INVALID_ARGUMENT | NOT_FOUND | INTERNAL | CANCELLED

text \<open>
  A handler answers with a status and, when it filled it in, the response; or an exception leaves
  it; or the process ends inside the storage.
\<close>

datatype 'r reply = Reply StatusCode string "'r option" | HandlerThrows exn | ProcessDies

definition grpcInternalErrorStatus :: "exn \<Rightarrow> string \<Rightarrow> 'r reply" where
  "grpcInternalErrorStatus ex msg = Reply INTERNAL (''Internal error. Incident id: '' @ ''123-345-5656'') None"

fun jobStatusToProto :: "JobStatus \<Rightarrow> ProtoJobStatus" where
  "jobStatusToProto Queued = JOB_QUEUED"
| "jobStatusToProto Scheduled = JOB_QUEUED"
| "jobStatusToProto Running = JOB_RUNNING"
| "jobStatusToProto Completed = JOB_COMPLETED"
| "jobStatusToProto Cancelling = JOB_CANCELLED"
| "jobStatusToProto Cancelled = JOB_CANCELLED"
| "jobStatusToProto Error = JOB_FAILED"
| "jobStatusToProto InternalError = JOB_FAILED"

text \<open>An unsigned identifier of a message becomes an \<^verbatim>\<open>int64_t\<close>, and back.\<close>

definition id_of_proto :: "uint64 \<Rightarrow> int" where
  "id_of_proto w = sint w"

definition id_to_proto :: "int \<Rightarrow> uint64" where
  "id_to_proto i = word_of_int i"

definition show_id :: "uint64 \<Rightarrow> string" where
  "show_id w = show_nat (unat w)"

text \<open>What a field keeps that is set from \<^verbatim>\<open>s.c_str()\<close>.\<close>

definition c_str :: "string \<Rightarrow> string" where
  "c_str s = takeWhile (\<lambda>ch. ch \<noteq> char_of (0::nat)) s"

section \<open>The public service\<close>

definition validateJson :: "(string \<Rightarrow> nat option) \<Rightarrow> string \<Rightarrow> string \<Rightarrow> unit result" where
  "validateJson parse jsonStr fieldName =
     (case parse jsonStr of
        None \<Rightarrow> Inr ()
      | Some offset \<Rightarrow> Inl (InputValidationException (''Field `'' @ fieldName @ ''` validation failed. ''
          @ ''Invalid json at position: '' @ show_nat offset)))"

fun validate_options :: "(string \<Rightarrow> nat option) \<Rightarrow> nat \<Rightarrow> string list \<Rightarrow> unit result" where
  "validate_options parse i [] = Inr ()"
| "validate_options parse i (opt # opts) =
     (case validateJson parse opt (''options['' @ show_nat i @ '']'') of
        Inl e \<Rightarrow> Inl e
      | Inr _ \<Rightarrow> validate_options parse (Suc i) opts)"

definition validateProtoTaskParameters :: "(string \<Rightarrow> nat option) \<Rightarrow> ProtoTask \<Rightarrow> unit result" where
  "validateProtoTaskParameters parse task =
     (if length (pt_job_options task) \<noteq> unat (pt_job_count task)
      then Inl (InputValidationException (''`job_options` size ('' @ show_nat (length (pt_job_options task))
             @ '') must be equal to `job_count`('' @ show_nat (unat (pt_job_count task)) @ '').''))
      else case validateJson parse (pt_settings task) ''settings'' of
        Inl e \<Rightarrow> Inl e
      | Inr _ \<Rightarrow> validate_options parse 0 (pt_job_options task))"

definition params_of_proto :: "ProtoTask \<Rightarrow> TaskParameters" where
  "params_of_proto task =
     \<lparr>tp_requiredCapacity = SlotCapacity (ucast (pt_cpu_cores task)) (ucast (pt_memory_mb task)),
      estimation = uint (pt_execution_s task), jobCount = ucast (pt_job_count task), settings = pt_settings task,
      imageVersion = pt_image_version task, clientId = pt_client_id task, jobOptions = pt_job_options task\<rparr>"

definition taskParametersFromProto :: "(string \<Rightarrow> nat option) \<Rightarrow> ProtoTask \<Rightarrow> TaskParameters result" where
  "taskParametersFromProto parse task =
     (case validateProtoTaskParameters parse task of Inl e \<Rightarrow> Inl e | Inr _ \<Rightarrow> Inr (params_of_proto task))"

definition jobStatesToTaskStatus :: "ProtoJobStatus list \<Rightarrow> ProtoTaskStatus" where
  "jobStatesToTaskStatus ss =
     (if find (\<lambda>s. s = JOB_RUNNING) ss \<noteq> None then TASK_RUNNING
      else if find (\<lambda>s. s = JOB_QUEUED) ss \<noteq> None then TASK_QUEUED
      else TASK_COMPLETED)"

definition protoTaskStateFromJobStates :: "JobState list \<Rightarrow> ProtoTaskState" where
  "protoTaskStateFromJobStates jobStates =
     (let protoJobStates = map (\<lambda>s. jobStatusToProto (js_status s)) jobStates
      in \<lparr>pts_status = jobStatesToTaskStatus protoJobStates, pts_job_states = protoJobStates\<rparr>)"

definition protoTaskExecutionResultFromJobStates :: "JobState list \<Rightarrow> ProtoTaskExecutionResult" where
  "protoTaskExecutionResultFromJobStates jobStates =
     (let protoJobResults = map (\<lambda>s. \<lparr>per_status = jobStatusToProto (js_status s), per_result_url = map_option c_str (resultUrl s)\<rparr>) jobStates
      in \<lparr>ptr_status = jobStatesToTaskStatus (map per_status protoJobResults), ptr_job_results = protoJobResults\<rparr>)"

text \<open>On a failure of the storage the handler asks the validated parameters for their error.\<close>

definition PublicApi_addTask ::
    "(string \<Rightarrow> string option) \<Rightarrow> (string \<Rightarrow> nat option) \<Rightarrow> ProtoTask \<Rightarrow> pg \<Rightarrow> uint64 reply \<times> pg" where
  "PublicApi_addTask jsonb parse task p =
     (let taskParameters = taskParametersFromProto parse task in
      case taskParameters of
        Inl e \<Rightarrow> (Reply INVALID_ARGUMENT (what e) None, p)
      | Inr tp \<Rightarrow>
          (case addTask jsonb tp p of
             (StdTerminate, p') \<Rightarrow> (ProcessDies, p')
           | (Returned (Inl _), p') \<Rightarrow>
               (case ErrorOrThrow taskParameters of
                  Inl ex \<Rightarrow> (HandlerThrows ex, p')
                | Inr e \<Rightarrow> (grpcInternalErrorStatus e ''Failed to add task: '', p'))
           | (Returned (Inr created), p') \<Rightarrow> (Reply OK [] (Some (id_to_proto (cj_taskId created))), p')))"

text \<open>\<^verbatim>\<open>getTaskState\<close> and \<^verbatim>\<open>getTaskResult\<close> differ in the message they build.\<close>

definition task_reply :: "(JobState list \<Rightarrow> 'r) \<Rightarrow> string \<Rightarrow> uint64 \<Rightarrow> pg \<Rightarrow> 'r reply \<times> pg" where
  "task_reply build msg taskId p =
     (case getJobStates (id_of_proto taskId) p of
        (StdTerminate, p') \<Rightarrow> (ProcessDies, p')
      | (Returned (Inl e), p') \<Rightarrow> (grpcInternalErrorStatus e msg, p')
      | (Returned (Inr jobStates), p') \<Rightarrow>
          if jobStates = [] then (Reply NOT_FOUND (''Task '' @ show_id taskId @ '' not found.'') None, p')
          else (Reply OK [] (Some (build jobStates)), p'))"

definition getTaskState :: "uint64 \<Rightarrow> pg \<Rightarrow> ProtoTaskState reply \<times> pg" where
  "getTaskState = task_reply protoTaskStateFromJobStates ''getTaskState: Unexpected error while querying job statuses: ''"

definition getTaskResult :: "uint64 \<Rightarrow> pg \<Rightarrow> ProtoTaskExecutionResult reply \<times> pg" where
  "getTaskResult = task_reply protoTaskExecutionResultFromJobStates ''getTaskResult: Unexpected error while querying job statuses: ''"

definition cancelRunningJobs :: "uint64 \<Rightarrow> pg \<Rightarrow> unit reply \<times> pg" where
  "cancelRunningJobs taskId p =
     (case cancelTask (id_of_proto taskId) p of
        (StdTerminate, p') \<Rightarrow> (ProcessDies, p')
      | (Returned (Inl e), p') \<Rightarrow> (grpcInternalErrorStatus e ''cancelRunningJobs: Unexpected error while cancelling task: '', p')
      | (Returned (Inr _), p') \<Rightarrow> (Reply OK [] (Some ()), p'))"

definition healthCheck :: "pg \<Rightarrow> unit reply \<times> pg" where
  "healthCheck p = (Reply OK [] (Some ()), p)"

section \<open>The agents' service\<close>

fun protoJobStatusToJobStatus :: "ProtoJobStatus \<Rightarrow> JobStatus" where
  "protoJobStatusToJobStatus JOB_QUEUED = Queued"
| "protoJobStatusToJobStatus JOB_RUNNING = Running"
| "protoJobStatusToJobStatus JOB_COMPLETED = Completed"
| "protoJobStatusToJobStatus JOB_CANCELLED = JobStatus.Cancelled"
| "protoJobStatusToJobStatus JOB_FAILED = Error"

text \<open>The accessor of an unset optional string returns the empty string.\<close>

definition protoExecutionJobStateToJobState :: "ProtoExecutionJobState \<Rightarrow> JobState" where
  "protoExecutionJobStateToJobState s =
     \<lparr>js_status = protoJobStatusToJobStatus (per_status (pes_result s)),
      resultUrl = Some (case per_result_url (pes_result s) of None \<Rightarrow> [] | Some u \<Rightarrow> u)\<rparr>"

definition getAllowedAgentUpdateJobStatuses :: "JobStatus set" where
  "getAllowedAgentUpdateJobStatuses = {Running, Completed, JobStatus.Cancelled, Error}"

definition setAssignedJobs :: "AssignedJob list \<Rightarrow> (uint64 \<times> ProtoJobStatus) list" where
  "setAssignedJobs jobs = map (\<lambda>j. (id_to_proto (aj_id j), jobStatusToProto (aj_status j))) jobs"

definition setJobToLaunch :: "JobToLaunch \<Rightarrow> ProtoJobToLaunch" where
  "setJobToLaunch job =
     \<lparr>pjl_id = id_to_proto (jl_id job), pjl_image_version = c_str (jl_imageVersion job),
      pjl_memory_mb = ucast (ram (capacityLimits job)), pjl_cpu_cores = ucast (cpu (capacityLimits job)),
      pjl_task_settings = c_str (taskSettings job), pjl_job_options = c_str (jl_jobOptions job)\<rparr>"

definition AgentApi_getAssignedJobs :: "uint64 \<Rightarrow> pg \<Rightarrow> (uint64 \<times> ProtoJobStatus) list reply \<times> pg" where
  "AgentApi_getAssignedJobs vmId p =
     (case getAssignedJobs (id_of_proto vmId) p of
        (StdTerminate, p') \<Rightarrow> (ProcessDies, p')
      | (Returned (Inl e), p') \<Rightarrow>
          (grpcInternalErrorStatus e ''getAssignedJobs: Unexpected error while querying job statuses: '', p')
      | (Returned (Inr jobs), p') \<Rightarrow> (Reply OK [] (Some (setAssignedJobs jobs)), p'))"

definition AgentApi_getJobToLaunch :: "uint64 \<Rightarrow> uint64 \<Rightarrow> pg \<Rightarrow> ProtoJobToLaunch reply \<times> pg" where
  "AgentApi_getJobToLaunch vmId jobId p =
     (case getJobToLaunch (id_of_proto vmId) (id_of_proto jobId) p of
        (StdTerminate, p') \<Rightarrow> (ProcessDies, p')
      | (Returned (Inl e), p') \<Rightarrow>
          if holdsErrorType is_JobNotFoundException (Inl e :: JobToLaunch result)
          then (Reply NOT_FOUND (''Job '' @ show_id jobId @ '' not found.'') None, p')
          else (grpcInternalErrorStatus e ''getJobToLaunch: Unexpected error while getting job to launch: '', p')
      | (Returned (Inr job), p') \<Rightarrow> (Reply OK [] (Some (setJobToLaunch job)), p'))"

definition AgentApi_updateJobState :: "ProtoExecutionJobState \<Rightarrow> pg \<Rightarrow> unit reply \<times> pg" where
  "AgentApi_updateJobState s p =
     (let jobState = protoExecutionJobStateToJobState s in
      if js_status jobState \<notin> getAllowedAgentUpdateJobStatuses
      then (Reply INVALID_ARGUMENT (''Status '' @ toString_JobStatus (js_status jobState) @ '' is not allowed to be set by agent'') None, p)
      else case updateJobState (id_of_proto (pes_vm_id s)) (id_of_proto (pes_job_id s)) jobState p of
        (StdTerminate, p') \<Rightarrow> (ProcessDies, p')
      | (Returned (Inl e), p') \<Rightarrow>
          if holdsErrorType is_JobNotFoundException (Inl e :: unit result)
          then (Reply NOT_FOUND (''Job '' @ show_id (pes_job_id s) @ '' not found.'') None, p')
          else if holdsErrorType is_JobCancelledException (Inl e :: unit result)
          then (Reply CANCELLED (''Job '' @ show_id (pes_job_id s) @ '' was cancelled.'') None, p')
          else (grpcInternalErrorStatus e ''updateJobState: Unexpected error while getting job to launch: '', p')
      | (Returned (Inr _), p') \<Rightarrow> (Reply OK [] (Some ()), p'))"

end
