(* ===== verification/Services.thy ===== *)
theory Services
  imports System FailureDetector ServerApi
begin

text \<open>
  The clients of the storage: allocator, failure detector and the two services only reach the
  database through the operations of the storage. What every operation other than a plan commit keeps
  therefore holds after them, however their calls end. This is proved once, over an interface with
  that one law, and used for reachability in the system and for well-formedness.
\<close>

section \<open>Clients that use storage operations only\<close>

locale storage_closed =
  fixes jsonb :: "string \<Rightarrow> string option" and Good :: "pg \<Rightarrow> bool"
  assumes good_op: "Good p \<Longrightarrow> \<not> is_commit op \<Longrightarrow> Good (apply_op jsonb op p)"
begin

lemma good_ops:
  assumes "Good p"
  shows "Good (snd (addTask jsonb tp p))" "Good (snd (getVmsToAllocate scan n p))" "Good (snd (getVmsToTerminate scan n p))"
    "Good (snd (rollbackUnallocatedVmsState ids va ja p))" "Good (snd (returnUnterminatedVms ids p))"
    "Good (snd (saveVmAllocationResult v info p))" "Good (snd (saveVmTerminationResult v p))"
    "Good (snd (getJobStates t p))" "Good (snd (cancelTask t p))" "Good (snd (restartStaleAllocatingVms limit va p))"
    "Good (snd (terminateStaleAllocatingVms limit va ja p))" "Good (snd (terminateVmsWithInactiveAgents limit ja p))"
    "Good (snd (terminateVmsWithoutAgents limit ja p))" "Good (snd (getAssignedJobs v p))" "Good (snd (getJobToLaunch v j p))"
    "Good (snd (updateJobState v j js p))" "Good (snd (getAllocatedVms p))" "Good (snd (cancelTimedOutJobs p))"
  using good_op [OF assms, of "AddTask tp"] good_op [OF assms, of "GetVmsToAllocate scan n"] good_op [OF assms, of "GetVmsToTerminate scan n"]
    good_op [OF assms, of "RollbackUnallocatedVmsState ids va ja"] good_op [OF assms, of "ReturnUnterminatedVms ids"]
    good_op [OF assms, of "SaveVmAllocationResult v info"] good_op [OF assms, of "SaveVmTerminationResult v"]
    good_op [OF assms, of "GetJobStates t"] good_op [OF assms, of "CancelTask t"]
    good_op [OF assms, of "RestartStaleAllocatingVms limit va"] good_op [OF assms, of "TerminateStaleAllocatingVms limit va ja"]
    good_op [OF assms, of "TerminateVmsWithInactiveAgents limit ja"] good_op [OF assms, of "TerminateVmsWithoutAgents limit ja"]
    good_op [OF assms, of "GetAssignedJobs v"] good_op [OF assms, of "GetJobToLaunch v j"]
    good_op [OF assms, of "UpdateJobState v j js"] good_op [OF assms, of GetAllocatedVms] good_op [OF assms, of CancelTimedOutJobs]
  by simp_all

lemma allocate_vms_good:
  assumes others: "\<And>c p. Good p \<Longrightarrow> Good (others c p)"
  shows "Good p \<Longrightarrow> Good (fst (snd (allocate_vms cc others found un (p, c))))"
proof (induction found arbitrary: un p c)
  case (Cons vm rest)
  obtain r c' where a: "cc_allocate cc (ap_id vm) (ap_capacity vm) c = (r, c')" by fastforce
  have o: "Good (others c' p)" using others Cons.prems by blast
  show ?case
  proof (cases r)
    case (Inl e)
    with a o Cons.IH show ?thesis by simp
  next
    case (Inr info)
    have "Good (snd (saveVmAllocationResult (ap_id vm) info (others c' p)))" by (rule good_ops(6) [OF o])
    with a Inr Cons.IH show ?thesis by (auto split: prod.splits call.splits)
  qed
qed simp

lemma terminate_vms_good:
  assumes others: "\<And>c p. Good p \<Longrightarrow> Good (others c p)"
  shows "Good p \<Longrightarrow> Good (fst (snd (terminate_vms cc others found un (p, c))))"
proof (induction found arbitrary: un p c)
  case (Cons vm rest)
  obtain r c' where a: "cc_terminate cc (tpv_cloudVmId vm) c = (r, c')" by fastforce
  have o: "Good (others c' p)" using others Cons.prems by blast
  show ?case
  proof (cases r)
    case (Inl e)
    with a o Cons.IH show ?thesis by simp
  next
    case (Inr u)
    have "Good (snd (saveVmTerminationResult (tpv_id vm) (others c' p)))" by (rule good_ops(7) [OF o])
    with a Inr Cons.IH show ?thesis by (auto split: prod.splits call.splits)
  qed
qed simp

lemma Allocator_allocate_good:
  assumes "Good p" and "\<And>c p. Good p \<Longrightarrow> Good (others c p)"
  shows "Good (fst (snd (Allocator_allocate cfg cc scan others (p, c))))"
proof -
  have "Good (snd (getVmsToAllocate scan (maxVmAllocationCount cfg) p))" by (rule good_ops(2) [OF assms(1)])
  moreover have "Good (fst (snd (allocate_vms cc others found [] (p1, c1))))" if "Good p1" for found p1 c1
    using allocate_vms_good [of others] assms(2) that by blast
  ultimately show ?thesis
    unfolding Allocator_allocate_def
    by (auto split: prod.splits call.splits sum.splits) (metis fst_conv good_ops(4) snd_conv)+
qed

lemma Allocator_terminate_good:
  assumes "Good p" and "\<And>c p. Good p \<Longrightarrow> Good (others c p)"
  shows "Good (fst (snd (Allocator_terminate cfg cc scan others (p, c))))"
proof -
  have "Good (snd (getVmsToTerminate scan (maxVmTerminationCount cfg) p))" by (rule good_ops(3) [OF assms(1)])
  moreover have "Good (fst (snd (terminate_vms cc others found [] (p1, c1))))" if "Good p1" for found p1 c1
    using terminate_vms_good [of others] assms(2) that by blast
  ultimately show ?thesis
    unfolding Allocator_terminate_def
    by (auto split: prod.splits call.splits sum.splits) (metis fst_conv good_ops(5) snd_conv)+
qed

lemma Allocator_terminateUntrackedVms_good:
  assumes "Good p" and "\<And>c p. Good p \<Longrightarrow> Good (others c p)"
  shows "Good (fst (snd (Allocator_terminateUntrackedVms cc others (p, c))))"
  using good_ops(17) [OF assms(1)] assms(2) unfolding Allocator_terminateUntrackedVms_def
  by (auto simp: Let_def split: prod.splits call.splits sum.splits)

lemma logged_good: "Good (snd r) \<Longrightarrow> Good (snd (logged r))"
  by (auto simp: logged_def split: prod.splits call.splits)

lemma then_run_good:
  assumes "P (snd r)" and "\<And>w. P w \<Longrightarrow> P (snd (k w))"
  shows "P (snd (then_run r k))"
  using assms by (auto simp: then_run_def split: prod.splits call.splits)

lemma on_pg_good: "Good (fst w) \<Longrightarrow> (\<And>p. Good p \<Longrightarrow> Good (snd (f p))) \<Longrightarrow> Good (fst (snd (on_pg f w)))"
  by (auto simp: on_pg_def split: prod.splits) (metis snd_conv)

lemma monitor_good:
  assumes "Good p" and "\<And>c p. Good p \<Longrightarrow> Good (others c p)"
  shows "Good (fst (snd (monitor cfg cc others (p, c))))"
proof -
  note run = then_run_good [of "\<lambda>w. Good (fst w)"]
  have stale: "Good (snd (handleStaleAllocatingVms cfg q))" if "Good q" for q
    unfolding handleStaleAllocatingVms_def by (intro then_run_good [of Good] logged_good good_ops that)
  have agents: "Good (snd (handleInactiveAgents cfg q))" "Good (snd (handleVmsWithoutAgents cfg q))"
    "Good (snd (FailureDetector_cancelTimedOutJobs q))" if "Good q" for q
    unfolding handleInactiveAgents_def handleVmsWithoutAgents_def FailureDetector_cancelTimedOutJobs_def
    by (intro logged_good good_ops that)+
  have untracked: "Good (fst (snd (Allocator_terminateUntrackedVms cc others w)))" if "Good (fst w)" for w
    using Allocator_terminateUntrackedVms_good [of "fst w" others cc "snd w"] assms(2) that by simp
  show ?thesis
    unfolding monitor_def by (intro run on_pg_good stale agents untracked) (simp_all add: assms(1))
qed

lemma services_good:
  assumes "Good p"
  shows "Good (snd (PublicApi_addTask jsonb parse task p))" "Good (snd (getTaskState i p))" "Good (snd (getTaskResult i p))"
    "Good (snd (cancelRunningJobs i p))" "Good (snd (healthCheck p))" "Good (snd (AgentApi_getAssignedJobs i p))"
    "Good (snd (AgentApi_getJobToLaunch i j p))" "Good (snd (AgentApi_updateJobState s p))"
  using assms good_ops(1) [OF assms, of "params_of_proto task"] good_ops(8,9) [OF assms, of "id_of_proto i"]
    good_ops(14) [OF assms, of "id_of_proto i"] good_ops(15) [OF assms, of "id_of_proto i" "id_of_proto j"]
    good_ops(16) [OF assms, of "id_of_proto (pes_vm_id s)" "id_of_proto (pes_job_id s)" "protoExecutionJobStateToJobState s"]
  unfolding PublicApi_addTask_def taskParametersFromProto_def getTaskState_def getTaskResult_def task_reply_def cancelRunningJobs_def
    healthCheck_def AgentApi_getAssignedJobs_def AgentApi_getJobToLaunch_def AgentApi_updateJobState_def Let_def
  by (auto simp: ErrorOrThrow_def split: prod.splits call.splits sum.splits)

end

section \<open>Well-formedness and reachability\<close>

lemma op_ok_not_commit: "\<not> is_commit op \<Longrightarrow> op_ok okc d op"
  by (cases op) simp_all

interpretation wf_services: storage_closed jsonb "\<lambda>p. db_wf (committed p)" for jsonb
proof
  fix p :: pg and op
  assume "db_wf (committed p)" and "\<not> is_commit op"
  then show "db_wf (committed (apply_op jsonb op p))"
    using wf.apply_op_rel [OF op_ok_not_commit, of op p jsonb] by (simp add: wf_step_def)
qed

interpretation reach_services: storage_closed jsonb "\<lambda>p. \<exists>c. reachable jsonb cfg possible (p, c)" for jsonb cfg possible
proof
  fix p op
  assume "\<exists>c. reachable jsonb cfg possible (p, c)" and "\<not> is_commit op"
  then show "\<exists>c. reachable jsonb cfg possible (apply_op jsonb op p, c)"
    using reach_step [OF _ sys_op] by blast
qed

text \<open>A provider that runs what it is asked to, as a list of running VMs and a counter.\<close>

definition simple_cloud :: "(AllocatedVmInfo list \<times> nat) CloudClient" where
  "simple_cloud = \<lparr>cc_allocate = (\<lambda>v s (ms, k). let m = \<lparr>ai_id = ''i-'' @ show_nat k, ai_type = ''t''\<rparr> in (Inr m, (m # ms, Suc k))),
     cc_terminate = (\<lambda>i (ms, k). (Inr (), (filter (\<lambda>m. ai_id m \<noteq> i) ms, k))),
     cc_getAllAllocatedVms = (\<lambda>(ms, k). (Inr ms, (ms, k))),
     cc_getPossibleSlots = (\<lambda>w. (ex_possible, w))\<rparr>"

definition ex_acfg :: AllocatorConfig where
  "ex_acfg = \<lparr>maxVmAllocationCount = 1, maxVmTerminationCount = 1,
     ac_common = \<lparr>jobRestartAttemptCount = 3, vmRestartAttemptCount = 3\<rparr>\<rparr>"

definition ex_fcfg :: FailureDetectorConfig where
  "ex_fcfg = \<lparr>fd_allocationTimeLimit = 30, fd_agentStartupTimeLimit = 300, fd_agentInactivityTimeLimit = 120,
     fd_terminationTimeLimit = 120, fd_common = ac_common ex_acfg\<rparr>"

end
