(* ===== verification/AllocatorSpec.thy ===== *)
theory AllocatorSpec
  imports VmRows Services
begin

text \<open>
  What an iteration of the allocator and of the failure detector achieves when no connection fails
  and nobody interferes: no VM it took is left half-way, only what is not tracked is terminated, and no
  stale VM stays.
\<close>

section \<open>Statuses of VMs\<close>

definition vm_status :: "db \<Rightarrow> VmId \<Rightarrow> VmStatus option" where
  "vm_status d i = map_option vr_status (vm_find d i)"

lemma vm_status_map:
  assumes "t_vms d' = map f (t_vms d)" and "\<And>r. vr_id (f r) = vr_id r" and "\<And>r. vr_status (f r) = g (vr_id r) (vr_status r)"
  shows "vm_status d' i = map_option (g i) (vm_status d i)"
proof -
  have "vm_find d' i = map_option f (vm_find d i)"
    unfolding vm_find_def assms(1) by (rule find_map_keep) (simp add: assms(2))
  then show ?thesis
    by (cases "vm_find d i") (use assms(3) vm_find_Some in \<open>fastforce simp: vm_status_def\<close>)+
qed

lemma vm_written_simps [simp]: "vr_id (a r) = vr_id r \<Longrightarrow> vr_id (vm_written c a n r) = vr_id r"
  "vr_status (vm_written c a n r) = (if c r then vr_status (a r) else vr_status r)"
  by (simp_all add: vm_written_def)

section \<open>Allocating\<close>

lemma saveVmAllocationResult_run:
  assumes "faults p = []" and "db_wf (committed p)"
  obtains p' where "saveVmAllocationResult v info p = (Returned (Inr ()), p')" "faults p' = []" "db_wf (committed p')"
    "\<forall>i. vm_status (committed p') i = (if i = v then map_option (\<lambda>_. Allocated) else (\<lambda>s. s)) (vm_status (committed p) i)"
proof -
  let ?c = "\<lambda>r. vr_id r = v"
  let ?a = "\<lambda>r::vm_row. r\<lparr>vr_status := Allocated, vr_cloud_vm_id := Some (ai_id info), vr_cloud_vm_type := Some (ai_type info)\<rparr>"
  have "vm_row_ok (?a r)" if "r \<in> set (t_vms (committed p))" "?c r" for r
    using assms(2) that by (auto simp: db_wf_def vm_ok_def vm_row_ok_def)
  then obtain p' where run: "execWritableQuery (update_vms ?c ?a) p = (Returned (Inr (map ?a (filter ?c (t_vms (committed p))))), p')"
    and p': "faults p' = []" "t_vms (committed p') = map (vm_written ?c ?a (pg_now p)) (t_vms (committed p))"
    by (rule write_vms_run [OF assms(1)])
  have run': "saveVmAllocationResult v info p = (Returned (Inr ()), p')" using run by (simp add: saveVmAllocationResult_def drop_rows_def)
  then have "db_wf (committed p')" using wf_services.good_ops(6) [OF assms(2), of v info] by simp
  moreover have "vm_status (committed p') i = map_option (\<lambda>s. if i = v then Allocated else s) (vm_status (committed p) i)" for i
    by (rule vm_status_map [OF p'(2)]) simp_all
  then have "vm_status (committed p') i = (if i = v then map_option (\<lambda>_. Allocated) else (\<lambda>s. s)) (vm_status (committed p) i)" for i
    by (simp add: map_option.id [unfolded id_def])
  ultimately show thesis using that [OF run' p'(1)] by blast
qed

lemma allocate_vms_run:
  assumes "faults p = []" and "db_wf (committed p)" and "distinct (map ap_id found)"
  shows "\<exists>un' p' c'. allocate_vms cc (\<lambda>_ q. q) found un (p, c) = (Returned (un @ un'), p', c') \<and> faults p' = [] \<and>
     db_wf (committed p') \<and> set un' \<subseteq> ap_id ` set found \<and>
     (\<forall>i. vm_status (committed p') i = (if i \<in> ap_id ` set found \<and> i \<notin> set un'
        then map_option (\<lambda>_. Allocated) (vm_status (committed p) i) else vm_status (committed p) i))"
  using assms
proof (induction found arbitrary: un p c)
  case Nil
  then show ?case by simp
next
  case (Cons vm rest)
  obtain r c1 where a: "cc_allocate cc (ap_id vm) (ap_capacity vm) c = (r, c1)" by fastforce
  have rest: "distinct (map ap_id rest)" "ap_id vm \<notin> ap_id ` set rest" using Cons.prems(3) by auto
  show ?case
  proof (cases r)
    case (Inl e)
    from Cons.IH [OF Cons.prems(1,2) rest(1), of "un @ [ap_id vm]" c1] obtain un' p' c' where
      IH: "allocate_vms cc (\<lambda>_ q. q) rest (un @ [ap_id vm]) (p, c1) = (Returned ((un @ [ap_id vm]) @ un'), p', c')" "faults p' = []"
      "db_wf (committed p')" "set un' \<subseteq> ap_id ` set rest"
      "\<forall>i. vm_status (committed p') i = (if i \<in> ap_id ` set rest \<and> i \<notin> set un'
        then map_option (\<lambda>_. Allocated) (vm_status (committed p) i) else vm_status (committed p) i)" by blast
    with a Inl rest(2) show ?thesis by (intro exI [of _ "ap_id vm # un'"] exI [of _ p'] exI [of _ c']) auto
  next
    case (Inr info)
    obtain p1 where p1: "saveVmAllocationResult (ap_id vm) info p = (Returned (Inr ()), p1)" "faults p1 = []" "db_wf (committed p1)"
      "\<forall>i. vm_status (committed p1) i = (if i = ap_id vm then map_option (\<lambda>_. Allocated) else (\<lambda>s. s)) (vm_status (committed p) i)"
      by (rule saveVmAllocationResult_run [OF Cons.prems(1,2), where v = "ap_id vm" and info = info])
    from Cons.IH [OF p1(2,3) rest(1), of un c1] obtain un' p' c' where
      IH: "allocate_vms cc (\<lambda>_ q. q) rest un (p1, c1) = (Returned (un @ un'), p', c')" "faults p' = []"
      "db_wf (committed p')" "set un' \<subseteq> ap_id ` set rest"
      "\<forall>i. vm_status (committed p') i = (if i \<in> ap_id ` set rest \<and> i \<notin> set un'
        then map_option (\<lambda>_. Allocated) (vm_status (committed p1) i) else vm_status (committed p1) i)" by blast
    have "vm_status (committed p') i = (if i \<in> ap_id ` set (vm # rest) \<and> i \<notin> set un'
        then map_option (\<lambda>_. Allocated) (vm_status (committed p) i) else vm_status (committed p) i)" for i
      using IH(4,5) rest(2) by (auto simp: p1(4))
    moreover have "allocate_vms cc (\<lambda>_ q. q) (vm # rest) un (p, c) = (Returned (un @ un'), p', c')" using a Inr p1(1) IH(1) by simp
    ultimately show ?thesis using IH(2,3,4) by fastforce
  qed
qed

lemma vm_status_given_back:
  assumes "t_vms d' = map (given_back ids att n) (t_vms d)"
  shows "vm_status d' i = (if i \<in> set ids \<and> vm_status d i = Some Allocating
     then Some (if vr_restart_count (the (vm_find d i)) < uint att then PendingAllocation else Terminated) else vm_status d i)"
proof -
  have "vm_find d' i = map_option (given_back ids att n) (vm_find d i)"
    unfolding vm_find_def assms by (rule find_map_keep) (simp add: given_back_def)
  then show ?thesis
    by (cases "vm_find d i") (auto simp: vm_status_def given_back_def dest: vm_find_Some)
qed

lemma vm_status_pending: "distinct (map vr_id (t_vms d)) \<Longrightarrow> i \<in> set (pending_ids d) \<Longrightarrow> vm_status d i = Some PendingAllocation"
  by (auto simp: pending_ids_def vm_status_def vm_find_unique)

text \<open>
  C25. An iteration of the allocator leaves no VM half-way: without faults and interference, whatever
  the provider answers, it returns; every VM it took, that is each of the first waiting ones up to the
  limit in whatever order the server scans them, is then allocated, pending again, or terminated because its attempts were used up, and no
  other VM changed its status.
\<close>

theorem Allocator_allocate_settles:
  assumes "faults p = []" and "db_wf (committed p)" and "uint (maxVmAllocationCount cfg) < 2 ^ 63"
    and "uint (vmRestartAttemptCount (ac_common cfg)) < 2 ^ 31" and "uint (jobRestartAttemptCount (ac_common cfg)) < 2 ^ 31"
  shows "\<exists>p' c'. Allocator_allocate cfg cc scan (\<lambda>_ q. q) (p, c) = (Returned (), p', c') \<and>
     (\<forall>i. if i \<in> set (take (unat (maxVmAllocationCount cfg)) (filter (\<lambda>v. v \<in> set (pending_ids (committed p))) (remdups scan)))
        then vm_status (committed p') i \<in> {Some Allocated, Some PendingAllocation, Some Terminated}
        else vm_status (committed p') i = vm_status (committed p) i)"
proof -
  define ids where "ids = select_limit scan PendingAllocation (maxVmAllocationCount cfg) (committed p)"
  obtain infos p1 where take: "getVmsToAllocate scan (maxVmAllocationCount cfg) p = (Returned (Inr infos), p1)"
    and nf1: "faults p1 = []" and infos: "map ap_id infos = ids" and
    vms1: "t_vms (committed p1) = map (\<lambda>r. if vr_id r \<in> ap_id ` set infos
        then r\<lparr>vr_status := Allocating, vr_last_status_update := pg_now p\<rparr> else r) (t_vms (committed p))"
    using getVmsToAllocate_run [OF assms(1-3)] unfolding ids_def by blast
  have set_ids: "ap_id ` set infos = set ids" using infos by (metis set_map)
  have dist: "distinct (map vr_id (t_vms (committed p)))" using assms(2) by (simp add: db_wf_def)
  then have dids: "distinct (map ap_id infos)" unfolding infos ids_def by (simp add: select_limit_distinct)
  have st1: "vm_status (committed p1) i = map_option (\<lambda>s. if i \<in> set ids then Allocating else s) (vm_status (committed p) i)" for i
    by (rule vm_status_map [OF vms1]) (simp_all add: set_ids)
  have pend: "vm_status (committed p) i = Some PendingAllocation" if "i \<in> set ids" for i
    using that vm_status_pending [OF dist] select_limit_pending by (fastforce simp: ids_def)
  have wf1: "db_wf (committed p1)" using wf_services.good_ops(2) [OF assms(2), of scan "maxVmAllocationCount cfg"] take by simp
  obtain un p2 c2 where loop: "allocate_vms cc (\<lambda>_ q. q) infos [] (p1, c) = (Returned un, p2, c2)" "faults p2 = []"
    "db_wf (committed p2)" "set un \<subseteq> set ids" and
    st2: "\<And>i. vm_status (committed p2) i = (if i \<in> set ids \<and> i \<notin> set un
        then map_option (\<lambda>_. Allocated) (vm_status (committed p1) i) else vm_status (committed p1) i)"
    using allocate_vms_run [OF nf1 wf1 dids, of cc "[]" c] unfolding set_ids by auto
  show ?thesis
  proof (cases "un = []")
    case True
    have "Allocator_allocate cfg cc scan (\<lambda>_ q. q) (p, c) = (Returned (), p2, c2)" using take loop(1) True by (simp add: Allocator_allocate_def)
    moreover have "if i \<in> set ids then vm_status (committed p2) i \<in> {Some Allocated, Some PendingAllocation, Some Terminated}
        else vm_status (committed p2) i = vm_status (committed p) i" for i
      using st1 [of i] st2 [of i] pend [of i] True by (auto simp: option.map_ident)
    ultimately show ?thesis unfolding ids_def select_limit_pending_ids by blast
  next
    case False
    obtain p3 where rb: "rollbackUnallocatedVmsState un (vmRestartAttemptCount (ac_common cfg)) (jobRestartAttemptCount (ac_common cfg)) p2 =
        (Returned (Inr ()), p3)" and vms3: "t_vms (committed p3) = map (given_back un (vmRestartAttemptCount (ac_common cfg)) (pg_now p2)) (t_vms (committed p2))"
      using rollback_run [OF loop(2,3) False assms(4,5)] by blast
    have "Allocator_allocate cfg cc scan (\<lambda>_ q. q) (p, c) = (Returned (), p3, c2)"
      using take loop(1) False rb by (simp add: Allocator_allocate_def)
    moreover have "if i \<in> set ids then vm_status (committed p3) i \<in> {Some Allocated, Some PendingAllocation, Some Terminated}
        else vm_status (committed p3) i = vm_status (committed p) i" for i
      using st1 [of i] st2 [of i] pend [of i] loop(4) vm_status_given_back [OF vms3, of i] by (auto simp: option.map_ident)
    ultimately show ?thesis unfolding ids_def select_limit_pending_ids by blast
  qed
qed

theorem Allocator_allocate_settles_witness:
  "\<exists>p' c'. Allocator_allocate ex_acfg simple_cloud [1] (\<lambda>_ q. q) (ex_scheduled, [], 0) = (Returned (), p', c') \<and>
     vm_status (committed p') 1 \<in> {Some Allocated, Some PendingAllocation, Some Terminated}"
proof -
  have h: "uint (maxVmAllocationCount ex_acfg) < 2 ^ 63" "uint (vmRestartAttemptCount (ac_common ex_acfg)) < 2 ^ 31"
    "uint (jobRestartAttemptCount (ac_common ex_acfg)) < 2 ^ 31"
    "1 \<in> set (take (unat (maxVmAllocationCount ex_acfg)) (filter (\<lambda>v. v \<in> set (pending_ids (committed ex_scheduled))) (remdups [1])))" by code_simp+
  from Allocator_allocate_settles [OF ex_scheduled_faults ex_scheduled_wf h(1-3), of simple_cloud "[1]" "([], 0)"] obtain p' c' where
    run: "Allocator_allocate ex_acfg simple_cloud [1] (\<lambda>_ q. q) (ex_scheduled, [], 0) = (Returned (), p', c')" and
    st: "\<forall>i. if i \<in> set (take (unat (maxVmAllocationCount ex_acfg)) (filter (\<lambda>v. v \<in> set (pending_ids (committed ex_scheduled))) (remdups [1])))
        then vm_status (committed p') i \<in> {Some Allocated, Some PendingAllocation, Some Terminated}
        else vm_status (committed p') i = vm_status (committed ex_scheduled) i" by blast
  from st [rule_format, of 1] h(4) have "vm_status (committed p') 1 \<in> {Some Allocated, Some PendingAllocation, Some Terminated}"
    by presburger
  with run show ?thesis by blast
qed

section \<open>Terminating what is not tracked\<close>

lemma rows_map_member: "rows_map f xs = Inr ys \<Longrightarrow> x \<in> set xs \<Longrightarrow> \<exists>y. f x = Inr y \<and> y \<in> set ys"
  by (induction xs arbitrary: ys) (auto split: sum.splits)

lemma getAllocatedVms_success:
  assumes "getAllocatedVms p = (Returned (Inr tracked), p')" and "r \<in> set (t_vms (committed p))" and "vr_status r \<in> getActiveVmStatuses"
  shows "\<exists>info. info_of_row r = Inr info \<and> info \<in> tracked"
proof -
  obtain infos where "rows_map info_of_row (filter (\<lambda>r. vr_status r \<in> getActiveVmStatuses) (t_vms (committed p))) = Inr infos"
    "tracked = set infos"
    using assms(1) unfolding getAllocatedVms_def try_txn_def run_txn_def
    by (auto simp: tx_try_def tx_bind_def tx_return_def tx_lift_def execQuery_def select_vms_def begin_txn_def Let_def failure_prefix_def
        split: fault.splits prod.splits sum.splits if_splits)
  then show ?thesis using assms(2,3) rows_map_member [of info_of_row _ infos r] by auto
qed

lemma terminate_untracked_keeps:
  assumes "\<And>j c. running c - {j} \<subseteq> running (snd (cc_terminate cc j c))" and "i \<in> running c" and "\<forall>vm \<in> set found. ai_id vm \<noteq> i"
  shows "i \<in> running (terminate_untracked cc found c)"
  using assms(2,3)
proof (induction found arbitrary: c)
  case (Cons vm rest)
  then have "i \<in> running (snd (cc_terminate cc (ai_id vm) c))" using assms(1) [of c "ai_id vm"] by auto
  with Cons show ?case by simp
qed simp

text \<open>
  C26. The search for untracked VMs spares every VM the database knows: when terminating a VM ends no
  other VM and the provider lists a VM with the type it was allocated with, a running VM whose
  identifier and type are recorded in an active row is still running afterwards, whatever fails in
  between. And while some active row has no identifier yet, nothing is terminated at all.
\<close>

theorem untracked_spares_tracked:
  assumes "\<And>j c. running c - {j} \<subseteq> running (snd (cc_terminate cc j c))"
    and "\<And>c. running c \<subseteq> running (snd (cc_getAllAllocatedVms cc c))"
    and "\<And>vm all. fst (cc_getAllAllocatedVms cc c) = Inr all \<Longrightarrow> vm \<in> set all \<Longrightarrow> ai_id vm = i \<Longrightarrow> ai_type vm = t"
    and "r \<in> set (t_vms (committed p))" and "vr_status r \<in> getActiveVmStatuses"
    and "vr_cloud_vm_id r = None \<or> vr_cloud_vm_id r = Some i \<and> vr_cloud_vm_type r = Some t"
    and "i \<in> running c"
  shows "i \<in> running (snd (snd (Allocator_terminateUntrackedVms cc others (p, c))))"
proof -
  obtain q p1 where get: "getAllocatedVms p = (q, p1)" by fastforce
  obtain a c1 where all: "cc_getAllAllocatedVms cc c = (a, c1)" by fastforce
  have c1: "i \<in> running c1" using assms(2) [of c] assms(7) all by auto
  show ?thesis
  proof (cases "\<exists>tracked found. q = Returned (Inr tracked) \<and> a = Inr found")
    case False
    then show ?thesis using get all assms(7) c1
      by (auto simp: Allocator_terminateUntrackedVms_def split: call.splits sum.splits)
  next
    case True
    then obtain tracked found where qa: "q = Returned (Inr tracked)" "a = Inr found" by blast
    obtain info where "info_of_row r = Inr info" "info \<in> tracked"
      using getAllocatedVms_success [of p tracked p1] get qa(1) assms(4,5) by blast
    then have tr: "\<lparr>ai_id = i, ai_type = t\<rparr> \<in> tracked" using assms(6) by (auto simp: info_of_row_def as_string_def)
    have "ai_id vm \<noteq> i" if "vm \<in> set (filter (\<lambda>vm. vm \<notin> tracked) found)" for vm
    proof
      assume "ai_id vm = i"
      moreover then have "ai_type vm = t" using assms(3) [of found vm] all qa(2) that by simp
      ultimately have "vm = \<lparr>ai_id = i, ai_type = t\<rparr>" by (cases vm) simp
      with tr that show False by simp
    qed
    then have "i \<in> running (terminate_untracked cc (filter (\<lambda>vm. vm \<notin> tracked) found) c1)"
      using terminate_untracked_keeps [OF assms(1) c1] by blast
    with get all qa show ?thesis by (simp add: Allocator_terminateUntrackedVms_def Let_def)
  qed
qed

definition ex_running :: "pg \<times> AllocatedVmInfo list \<times> nat" where
  "ex_running = snd (Allocator_allocate ex_acfg simple_cloud [1] (\<lambda>_ q. q) (ex_scheduled, [\<lparr>ai_id = ''lost'', ai_type = ''t''\<rparr>], 0))"

theorem untracked_spares_tracked_witness:
  "''i-0'' \<in> ai_id ` set (fst (snd (snd (Allocator_terminateUntrackedVms simple_cloud (\<lambda>_ q. q) ex_running)))) \<and>
   map ai_id (fst (snd ex_running)) = [''i-0'', ''lost'']"
proof -
  let ?running = "\<lambda>w. ai_id ` set (fst w)"
  define p c where "p = fst ex_running" and "c = snd ex_running"
  have r: "hd (t_vms (committed p)) \<in> set (t_vms (committed p))" "vr_status (hd (t_vms (committed p))) \<in> getActiveVmStatuses"
    "vr_cloud_vm_id (hd (t_vms (committed p))) = Some ''i-0''" "vr_cloud_vm_type (hd (t_vms (committed p))) = Some ''t''"
    "''i-0'' \<in> ?running c" "map ai_id (fst c) = [''i-0'', ''lost'']" "map ai_type (fst c) = [''t'', ''t'']"
    unfolding p_def c_def by code_simp+
  have "?running c - {j} \<subseteq> ?running (snd (cc_terminate simple_cloud j c))" for j c
    by (cases c) (auto simp: simple_cloud_def)
  moreover have "?running c \<subseteq> ?running (snd (cc_getAllAllocatedVms simple_cloud c))" for c
    by (cases c) (simp add: simple_cloud_def)
  moreover have "ai_type vm = ''t''" if "fst (cc_getAllAllocatedVms simple_cloud c) = Inr all" "vm \<in> set all" for vm all
  proof -
    have "all = fst c" using that(1) by (cases c) (simp add: simple_cloud_def)
    then have "ai_type vm \<in> set (map ai_type (fst c))" using that(2) by simp
    then show ?thesis unfolding r(7) by simp
  qed
  ultimately have "''i-0'' \<in> ?running (snd (snd (Allocator_terminateUntrackedVms simple_cloud (\<lambda>_ q. q) (p, c))))"
    using untracked_spares_tracked [where running = ?running and cc = simple_cloud and c = c and i = "''i-0''" and t = "''t''" and others = "\<lambda>_ q. q",
        OF _ _ _ r(1,2) _ r(5)] r(3,4) by blast
  with r(6) show ?thesis by (simp add: p_def c_def)
qed

end
