(* ===== verification/FailureSpec.thy ===== *)
theory FailureSpec
  imports AllocatorSpec
begin

text \<open>
  What an iteration of the failure detector achieves: the VMs that were allocating for too long are
  settled by its first handler, and none of the other handlers makes a VM allocating again.
\<close>

section \<open>No handler makes a VM allocating\<close>

definition no_new_allocating :: "db \<Rightarrow> db \<Rightarrow> bool" where
  "no_new_allocating d d' \<longleftrightarrow> (\<forall>r \<in> set (t_vms d'). vr_status r = Allocating \<longrightarrow>
     (\<exists>q \<in> set (t_vms d). vr_status q = Allocating \<and> vr_id q = vr_id r \<and> vr_last_status_update q = vr_last_status_update r))"

interpretation alloc_rel: db_relation no_new_allocating
proof
  fix a b c
  assume ab: "no_new_allocating a b" and bc: "no_new_allocating b c"
  show "no_new_allocating a c"
    unfolding no_new_allocating_def
  proof (intro ballI impI)
    fix r assume "r \<in> set (t_vms c)" "vr_status r = Allocating"
    then obtain q where "q \<in> set (t_vms b)" "vr_status q = Allocating" "vr_id q = vr_id r"
      "vr_last_status_update q = vr_last_status_update r" using bc unfolding no_new_allocating_def by blast
    with ab show "\<exists>q \<in> set (t_vms a). vr_status q = Allocating \<and> vr_id q = vr_id r \<and> vr_last_status_update q = vr_last_status_update r"
      unfolding no_new_allocating_def by fastforce
  qed
qed (auto simp: no_new_allocating_def)

lemma alloc_update_vms:
  assumes "update_vms c a n d = Inr (rows, d')"
    and "\<And>r. c r \<Longrightarrow> vr_status (a r) = Allocating \<Longrightarrow>
       vr_status r = Allocating \<and> vr_id (a r) = vr_id r \<and> vr_last_status_update (a r) = vr_last_status_update r"
  shows "no_new_allocating d d'"
  using assms(1)
proof (rule update_vmsE)
  assume d': "d' = d\<lparr>t_vms := map (\<lambda>r. if c r then vm_trigger n r (a r) else r) (t_vms d),
      t_vm_log := t_vm_log d @ map (\<lambda>r. (vr_id r, vr_status (a r), n))
        (filter (\<lambda>r. vr_status r \<noteq> vr_status (a r)) (filter c (t_vms d)))\<rparr>"
  show ?thesis
    unfolding no_new_allocating_def
  proof (intro ballI impI)
    fix r' assume "r' \<in> set (t_vms d')" and al: "vr_status r' = Allocating"
    then obtain r where r: "r \<in> set (t_vms d)" "r' = (if c r then vm_trigger n r (a r) else r)" by (auto simp: d')
    with al assms(2) [of r] show "\<exists>q \<in> set (t_vms d). vr_status q = Allocating \<and> vr_id q = vr_id r' \<and>
        vr_last_status_update q = vr_last_status_update r'"
      by (intro bexI [of _ r]) (auto simp: vm_trigger_def split: if_splits)
  qed
qed

lemma alloc_same_vms: "t_vms d' = t_vms d \<Longrightarrow> no_new_allocating d d'"
  by (auto simp: no_new_allocating_def)

lemma alloc_update_jobs: "stmt_keeps no_new_allocating (update_jobs cj aj)"
  by (auto simp: stmt_keeps_def elim!: update_jobsE intro!: alloc_same_vms)

lemma alloc_stmts:
  "stmt_keeps no_new_allocating (release_stmt ids)"
  "s \<noteq> Allocating \<Longrightarrow> stmt_keeps no_new_allocating (terminate_stmt cond from s va)"
  "stmt_keeps no_new_allocating (inactive_stmt limit)"
  by (auto simp: stmt_keeps_def terminate_stmt_def inactive_stmt_def split: sum.splits
      elim!: release_stmtE alloc_update_vms)

lemma alloc_restartJobs: "keeps no_new_allocating (restartJobs ids s ja)"
  unfolding restartJobs_def by (intro alloc_rel.keeps_rules alloc_rel.stmt_keeps_with_ids alloc_update_jobs)

lemma alloc_terminateVmsWhere:
  "s \<noteq> Allocating \<Longrightarrow> no_new_allocating (committed p) (committed (snd (terminateVmsWhere cond from s va ja p)))"
  unfolding terminateVmsWhere_def Let_def
  by (intro alloc_rel.try_txn_rel alloc_rel.keeps_bind alloc_rel.keeps_exec alloc_stmts)
     (auto intro!: alloc_rel.keeps_rules alloc_restartJobs)

lemma alloc_inactive: "no_new_allocating (committed p) (committed (snd (terminateVmsWithInactiveAgents limit ja p)))"
  unfolding terminateVmsWithInactiveAgents_def Let_def
  by (intro alloc_rel.try_txn_rel alloc_rel.keeps_bind alloc_rel.keeps_exec alloc_stmts)
     (auto intro!: alloc_rel.keeps_rules alloc_restartJobs)

lemma alloc_cancelJobs: "no_new_allocating (committed p) (committed (snd (cancelJobs c p)))"
proof -
  have "stmt_keeps no_new_allocating (\<lambda>n. update_jobs (c n) cancel_assign n)"
    using alloc_update_jobs unfolding stmt_keeps_def by blast
  then show ?thesis
    unfolding cancelJobs_def Let_def releaseVmResources_def
    by (intro alloc_rel.try_txn_rel alloc_rel.keeps_bind alloc_rel.keeps_exec) (auto intro!: alloc_rel.keeps_rules alloc_stmts)
qed

lemma alloc_getAllocatedVms: "no_new_allocating (committed p) (committed (snd (getAllocatedVms p)))"
  unfolding getAllocatedVms_def by (intro alloc_rel.try_txn_rel alloc_rel.keeps_rules alloc_rel.stmt_keeps_read)

section \<open>Stale VMs are settled\<close>

lemma handleStaleAllocatingVms_run:
  assumes nf: "faults p = []" and wf: "db_wf (committed p)" and lim: "int4 (fd_allocationTimeLimit cfg)"
    and att: "uint (vmRestartAttemptCount (fd_common cfg)) < 2 ^ 31" "uint (jobRestartAttemptCount (fd_common cfg)) < 2 ^ 31"
  shows "\<exists>p'. handleStaleAllocatingVms cfg p = (Returned (), p') \<and> (\<forall>r \<in> set (t_vms (committed p')). vr_status r = Allocating \<longrightarrow>
     pg_now p \<le> vr_last_status_update r + seconds (fd_allocationTimeLimit cfg))"
proof -
  define n i va ja where "n = pg_now p" and "i = seconds (fd_allocationTimeLimit cfg)" and
    "va = vmRestartAttemptCount (fd_common cfg)" and "ja = jobRestartAttemptCount (fd_common cfg)"
  have cond: "stale_cond (fd_allocationTimeLimit cfg) = Inr (\<lambda>now r. now > vr_last_status_update r + i)"
    using lim by (simp add: stale_cond_def interval_seconds_def i_def)
  let ?c = "\<lambda>r. vr_status r = Allocating \<and> vr_restart_count r < uint va \<and> n > vr_last_status_update r + i"
  let ?a = "\<lambda>r::vm_row. r\<lparr>vr_status := PendingAllocation, vr_restart_count := vr_restart_count r + 1\<rparr>"
  let ?c2 = "\<lambda>r. vr_status r = Allocating \<and> vr_restart_count r \<ge> uint va \<and> n > vr_last_status_update r + i"
  let ?a2 = "\<lambda>r::vm_row. r\<lparr>vr_status := Terminated\<rparr>"
  have "vm_row_ok (?a r)" if "r \<in> set (t_vms (committed p))" "?c r" for r
    using wf att(1) that by (auto simp: db_wf_def vm_ok_def vm_row_ok_def int4_def va_def)
  then obtain p1 where run1: "execWritableQuery (update_vms ?c ?a) p = (Returned (Inr (map ?a (filter ?c (t_vms (committed p))))), p1)"
    and p1: "faults p1 = []" "pg_now p1 = n" "t_vms (committed p1) = map (vm_written ?c ?a n) (t_vms (committed p))"
    unfolding n_def by (rule write_vms_run [OF nf])
  have "restart_stmt (stale_cond (fd_allocationTimeLimit cfg)) va (pg_now p) (committed p) = update_vms ?c ?a (pg_now p) (committed p)"
    by (simp add: restart_stmt_def cond n_def)
  then have "execWritableQuery (restart_stmt (stale_cond (fd_allocationTimeLimit cfg)) va) p = execWritableQuery (update_vms ?c ?a) p"
    using nf by (simp add: execWritableQuery_def tx_run)
  with run1 have re: "restartStaleAllocatingVms (fd_allocationTimeLimit cfg) va p = (Returned (Inr ()), p1)"
    by (simp add: restartStaleAllocatingVms_def restartAllocatingVms_def drop_rows_def)
  then have wf1: "db_wf (committed p1)" using wf_services.good_ops(10) [OF wf, of "fd_allocationTimeLimit cfg" va] by simp
  obtain p2 where run2: "terminateVmsWhere (Inr (\<lambda>now r. now > vr_last_status_update r + i)) Allocating Terminated va ja p1 =
      (Returned (Inr ()), p2)" and p2: "t_vms (committed p2) = map (vm_written ?c2 ?a2 n) (t_vms (committed p1))"
    by (rule terminateVmsWhere_run [OF p1(1) wf1 att(2) [folded ja_def], of "\<lambda>now r. now > vr_last_status_update r + i" Allocating Terminated va,
          unfolded p1(2)]) blast
  have "n \<le> vr_last_status_update r + i" if r: "r \<in> set (t_vms (committed p2))" "vr_status r = Allocating" for r
  proof -
    obtain q where "r = vm_written ?c2 ?a2 n (vm_written ?c ?a n q)" using r(1) unfolding p2 p1(3) by auto
    with r(2) show ?thesis by (auto simp: vm_written_def vm_trigger_def split: if_splits)
  qed
  moreover have "handleStaleAllocatingVms cfg p = (Returned (), p2)"
    using re run2 by (simp add: handleStaleAllocatingVms_def terminateStaleAllocatingVms_def cond then_run_def logged_def va_def ja_def)
  ultimately show ?thesis unfolding n_def i_def by blast
qed

lemma then_run_alloc:
  assumes "no_new_allocating d (committed (fst (snd r)))"
    and "\<And>w. no_new_allocating (committed (fst w)) (committed (fst (snd (k w))))"
  shows "no_new_allocating d (committed (fst (snd (then_run r k))))"
  using assms alloc_rel.rel_trans by (auto simp: then_run_def split: prod.splits call.splits)

lemma on_pg_alloc: "(\<And>p. no_new_allocating (committed p) (committed (snd (f p)))) \<Longrightarrow>
    no_new_allocating (committed (fst w)) (committed (fst (snd (on_pg f w))))"
  by (auto simp: on_pg_def split: prod.splits) (metis snd_conv)

lemma snd_logged [simp]: "snd (logged r) = snd r"
  by (auto simp: logged_def split: prod.splits call.splits)

text \<open>
  C27. An iteration of the failure detector leaves no stale VM: without faults and interference, no VM is
  afterwards allocating for longer than the limit (each was put back to pending or, with its attempts
  used up, terminated).
\<close>

theorem monitor_clears_stale:
  assumes "faults p = []" and "db_wf (committed p)" and "int4 (fd_allocationTimeLimit cfg)"
    and "uint (vmRestartAttemptCount (fd_common cfg)) < 2 ^ 31" and "uint (jobRestartAttemptCount (fd_common cfg)) < 2 ^ 31"
    and "r \<in> set (t_vms (committed (fst (snd (monitor cfg cc (\<lambda>_ q. q) (p, c))))))" and "vr_status r = Allocating"
  shows "pg_now p \<le> vr_last_status_update r + seconds (fd_allocationTimeLimit cfg)"
proof -
  obtain p1 where first: "handleStaleAllocatingVms cfg p = (Returned (), p1)" and
    clean: "\<forall>r \<in> set (t_vms (committed p1)). vr_status r = Allocating \<longrightarrow>
      pg_now p \<le> vr_last_status_update r + seconds (fd_allocationTimeLimit cfg)"
    using handleStaleAllocatingVms_run [OF assms(1-5)] by blast
  have untracked: "no_new_allocating (committed (fst w)) (committed (fst (snd (Allocator_terminateUntrackedVms cc (\<lambda>_ q. q) w))))" for w
    using alloc_getAllocatedVms [of "fst w"] unfolding Allocator_terminateUntrackedVms_def
    by (auto simp: Let_def split: prod.splits call.splits sum.splits)
  have "monitor cfg cc (\<lambda>_ q. q) (p, c) = then_run (on_pg (handleInactiveAgents cfg) (p1, c)) (\<lambda>w.
     then_run (on_pg (handleVmsWithoutAgents cfg) w) (\<lambda>w. then_run (Allocator_terminateUntrackedVms cc (\<lambda>_ q. q) w) (\<lambda>w.
     on_pg FailureDetector_cancelTimedOutJobs w)))"
    by (simp add: monitor_def on_pg_def first then_run_def [of "(Returned (), p1, c)"])
  moreover have "no_new_allocating (committed p1) (committed (fst (snd (then_run (on_pg (handleInactiveAgents cfg) (p1, c)) (\<lambda>w.
     then_run (on_pg (handleVmsWithoutAgents cfg) w) (\<lambda>w. then_run (Allocator_terminateUntrackedVms cc (\<lambda>_ q. q) w) (\<lambda>w.
     on_pg FailureDetector_cancelTimedOutJobs w)))))))"
    using on_pg_alloc [of "handleInactiveAgents cfg" "(p1, c)"]
    by (intro then_run_alloc on_pg_alloc untracked)
       (simp_all add: handleInactiveAgents_def handleVmsWithoutAgents_def FailureDetector_cancelTimedOutJobs_def alloc_inactive
         terminateVmsWithoutAgents_def cancelTimedOutJobs_def alloc_terminateVmsWhere alloc_cancelJobs)
  ultimately obtain q where "q \<in> set (t_vms (committed p1))" "vr_status q = Allocating"
    "vr_last_status_update q = vr_last_status_update r"
    using assms(6,7) unfolding no_new_allocating_def by metis
  with clean show ?thesis by metis
qed

definition ex_monitored :: db where
  "ex_monitored = committed (fst (snd (monitor ex_fcfg simple_cloud (\<lambda>_ q. q) (ex_allocating, [], 0))))"

theorem monitor_clears_stale_witness:
  "map vr_status (t_vms ex_monitored) = [Allocating] \<and>
   pg_now ex_allocating \<le> vr_last_status_update (hd (t_vms ex_monitored)) + seconds 30"
proof -
  have h: "int4 (fd_allocationTimeLimit ex_fcfg)" "uint (vmRestartAttemptCount (fd_common ex_fcfg)) < 2 ^ 31"
    "uint (jobRestartAttemptCount (fd_common ex_fcfg)) < 2 ^ 31" "fd_allocationTimeLimit ex_fcfg = 30"
    and st: "map vr_status (t_vms ex_monitored) = [Allocating]" by code_simp+
  then have "hd (t_vms ex_monitored) \<in> set (t_vms ex_monitored)" "vr_status (hd (t_vms ex_monitored)) = Allocating"
    by (cases "t_vms ex_monitored"; simp)+
  from monitor_clears_stale [OF ex_allocating_faults ex_allocating_wf h(1-3), of _ simple_cloud "([], 0)", folded ex_monitored_def,
      OF this] h(4) st show ?thesis by simp
qed

end
