(* ===== verification/ServerSpec.thy ===== *)
theory ServerSpec
  imports StorageVmSpec Services
begin

text \<open>
  What clients and agents see of the services: which requests are refused, that an accepted task
  can be read back, and what an agent's report is answered with.
\<close>

section \<open>Identifiers\<close>

lemma id_roundtrip:
  assumes "int4 i"
  shows "id_of_proto (id_to_proto i) = i"
proof -
  have "signed_take_bit 63 i = i" using assms by (intro signed_take_bit_int_eq_self) (simp_all add: int4_def)
  then show ?thesis by (simp add: id_of_proto_def id_to_proto_def signed_of_int)
qed

section \<open>Adding a task\<close>

definition request_ok :: "(string \<Rightarrow> nat option) \<Rightarrow> ProtoTask \<Rightarrow> bool" where
  "request_ok parse task \<longleftrightarrow> length (pt_job_options task) = unat (pt_job_count task) \<and> parse (pt_settings task) = None \<and>
     list_all (\<lambda>opt. parse opt = None) (pt_job_options task)"

lemma validate_options_iff: "IsSuccess (validate_options parse i opts) \<longleftrightarrow> list_all (\<lambda>opt. parse opt = None) opts"
  by (induction opts arbitrary: i) (auto simp: validateJson_def split: option.splits)

lemma request_ok_iff: "IsSuccess (taskParametersFromProto parse task) \<longleftrightarrow> request_ok parse task"
  using validate_options_iff [of parse 0 "pt_job_options task"]
  by (auto simp: taskParametersFromProto_def validateProtoTaskParameters_def request_ok_def validateJson_def IsSuccess_def
      split: option.splits sum.splits)

lemma params_of_request:
  "taskParametersFromProto parse task = (if request_ok parse task then Inr (params_of_proto task)
     else taskParametersFromProto parse task)"
  using request_ok_iff [of parse task] by (auto simp: taskParametersFromProto_def split: sum.splits)

text \<open>
  C31. A request to add a task is refused as invalid exactly when the number of options is not the job
  count, or the settings or some options are not JSON; a refused request does not touch the database.
\<close>

theorem addTask_refusal:
  "if request_ok parse task
   then \<forall>m r. fst (PublicApi_addTask jsonb parse task p) \<noteq> Reply INVALID_ARGUMENT m r
   else \<exists>m. PublicApi_addTask jsonb parse task p = (Reply INVALID_ARGUMENT m None, p)"
proof (cases "request_ok parse task")
  case True
  then have tp: "taskParametersFromProto parse task = Inr (params_of_proto task)" using params_of_request by metis
  with True show ?thesis
    by (auto simp: PublicApi_addTask_def ErrorOrThrow_def grpcInternalErrorStatus_def split: prod.splits call.splits sum.splits)
next
  case False
  then obtain e where "taskParametersFromProto parse task = Inl e"
    using request_ok_iff [of parse task] by (cases "taskParametersFromProto parse task") auto
  with False show ?thesis by (simp add: PublicApi_addTask_def)
qed

text \<open>
  C32. Without faults, a valid request whose texts the server reads as \<^verbatim>\<open>jsonb\<close> is answered with the
  identifier of the new task, and asking for that task's state then answers that it is queued, with one
  queued job per entry of the options.
\<close>

theorem addTask_visible:
  assumes "faults p = []" and "db_wf (committed p)" and "request_ok parse task"
    and "task_valid jsonb (params_of_proto task) (committed p)"
  shows "\<exists>i p'. PublicApi_addTask jsonb parse task p = (Reply OK [] (Some i), p') \<and>
     id_of_proto i = next_task (seqs (committed p)) \<and>
     fst (getTaskState i p') = Reply OK []
       (Some \<lparr>pts_status = TASK_QUEUED, pts_job_states = replicate (length (pt_job_options task)) JOB_QUEUED\<rparr>)"
proof -
  have tp: "taskParametersFromProto parse task = Inr (params_of_proto task)" using params_of_request assms(3) by metis
  have opts: "jobOptions (params_of_proto task) = pt_job_options task" by (simp add: params_of_proto_def)
  obtain ids p' where add: "addTask jsonb (params_of_proto task) p =
      (Returned (Inr \<lparr>cj_taskId = next_task (seqs (committed p)), cj_jobIds = ids\<rparr>), p')"
    and states: "fst (getJobStates (next_task (seqs (committed p))) p') =
      Returned (Inr (replicate (length (pt_job_options task)) \<lparr>js_status = Queued, resultUrl = Some ''''\<rparr>))"
    using addTask_run [OF assms(1,2,4)] unfolding opts by blast
  have i: "id_of_proto (id_to_proto (next_task (seqs (committed p)))) = next_task (seqs (committed p))"
    using assms(4) by (intro id_roundtrip) (simp add: task_valid_def)
  have ne: "pt_job_options task \<noteq> []" using assms(4) opts by (simp add: task_valid_def jobs_valid_def)
  have "jobStatesToTaskStatus (replicate k JOB_QUEUED) = TASK_QUEUED" if "0 < k" for k
    using that by (cases k) (auto simp: jobStatesToTaskStatus_def find_None_iff)
  then have "fst (getTaskState (id_to_proto (next_task (seqs (committed p)))) p') = Reply OK []
       (Some \<lparr>pts_status = TASK_QUEUED, pts_job_states = replicate (length (pt_job_options task)) JOB_QUEUED\<rparr>)"
    using states ne by (auto simp: getTaskState_def task_reply_def i protoTaskStateFromJobStates_def Let_def split: prod.splits)
  with i add tp show ?thesis by (simp add: PublicApi_addTask_def)
qed

definition ex_request :: ProtoTask where
  "ex_request = \<lparr>pt_memory_mb = 4, pt_cpu_cores = 1, pt_execution_s = 60, pt_settings = ''{}'', pt_job_count = 2,
     pt_image_version = ''v1'', pt_client_id = ''me'', pt_job_options = [''{}'', ''{}'']\<rparr>"

text \<open>A parser that knows one text only.\<close>

definition ex_parse :: "string \<Rightarrow> nat option" where
  "ex_parse s = (if s = ''{}'' then None else Some 0)"

theorem addTask_visible_witness:
  "\<exists>i p'. PublicApi_addTask ex_jsonb ex_parse ex_request ex_pg = (Reply OK [] (Some i), p') \<and>
     fst (getTaskState i p') = Reply OK [] (Some \<lparr>pts_status = TASK_QUEUED, pts_job_states = replicate 2 JOB_QUEUED\<rparr>)"
proof -
  have h: "faults ex_pg = []" "db_wf (committed ex_pg)" "request_ok ex_parse ex_request"
    "task_valid ex_jsonb (params_of_proto ex_request) (committed ex_pg)" "length (pt_job_options ex_request) = 2" by code_simp+
  from addTask_visible [OF h(1-4)] show ?thesis unfolding h(5) by blast
qed

text \<open>
  A request for a task without jobs passes the validation, the storage then fails, and the handler
  does not answer with an internal error: it asks the valid parameters for their error, and that
  throws. The tables are as before.
\<close>

lemma addTask_without_jobs_throws:
  assumes "faults p = []" and "request_ok parse task" and "pt_job_options task = []"
  shows "fst (PublicApi_addTask jsonb parse task p) = HandlerThrows (RuntimeException ''Tried to extract error from Result with value'') \<and>
     same_tables (committed p) (committed (snd (PublicApi_addTask jsonb parse task p)))"
proof -
  have tp: "taskParametersFromProto parse task = Inr (params_of_proto task)" using params_of_request assms(2) by metis
  have no: "insert_jobs jsonb (params_of_proto task) i n d = Inl syntax_error" for i n d
    using assms(3) by (simp add: insert_jobs_def params_of_proto_def)
  obtain e p' where add: "addTask jsonb (params_of_proto task) p = (Returned (Inl e), p')"
    and same: "same_tables (committed p) (committed p')"
    using assms(1) unfolding addTask_def
    by (cases "insert_task jsonb (params_of_proto task) (pg_now p) (committed p)")
       (auto simp: tx_run no failure_prefix_def same_tables_def end_txn_def begin_txn_def)
  with tp show ?thesis by (simp add: PublicApi_addTask_def ErrorOrThrow_def)
qed

section \<open>An agent's report\<close>

lemma allowed_statuses:
  "js_status (protoExecutionJobStateToJobState s) \<in> getAllowedAgentUpdateJobStatuses \<longleftrightarrow> per_status (pes_result s) \<noteq> JOB_QUEUED"
  by (cases "per_status (pes_result s)") (simp_all add: protoExecutionJobStateToJobState_def getAllowedAgentUpdateJobStatuses_def)

lemma updateJobState_known:
  assumes "faults p = []" and "db_wf (committed p)" and "r \<in> set (t_jobs (committed p))" and "jr_vm_id r = Some v"
  shows "\<exists>p'. updateJobState v (jr_id r) js p = (Returned (Inr ()), p') \<and> (\<forall>q \<in> set (t_jobs (committed p')).
     q \<in> set (t_jobs (committed p)) \<or> jr_id q = jr_id r \<and> jr_vm_id q = Some v \<and> jr_status q = js_status js \<and>
       jr_status r \<notin> getFinalJobStatuses)"
proof -
  have same: "q = r" if "q \<in> set (t_jobs (committed p))" "jr_id q = jr_id r" for q
    using assms(2,3) that unfolding db_wf_def distinct_map inj_on_def by blast
  show ?thesis
  proof (cases "jr_status r = Cancelling \<and> js_status js \<noteq> JobStatus.Cancelled")
    case True
    then have "(\<forall>q \<in> set (t_jobs (committed p)). jr_vm_id q = Some v \<and> jr_id q = jr_id r \<longrightarrow>
         jr_status q = Cancelling \<and> js_status js \<noteq> JobStatus.Cancelled)" using same by blast
    then have "updateJobState v (jr_id r) js p = (Returned (Inr ()), p)"
      using updateJobState_no_effect [OF assms(1), of v "jr_id r" js] assms(3,4) by auto
    then show ?thesis by blast
  next
    case False
    from updateJobState_run [OF assms False] obtain p' where run: "updateJobState v (jr_id r) js p = (Returned (Inr ()), p')"
      and after: "after_report v r js (pg_now p) (committed p) (committed p')" by blast
    have "q \<in> set (t_jobs (committed p)) \<or> jr_id q = jr_id r \<and> jr_vm_id q = Some v \<and> jr_status q = js_status js \<and>
       jr_status r \<notin> getFinalJobStatuses" if q: "q \<in> set (t_jobs (committed p'))" for q
    proof -
      obtain q0 where q0: "q0 \<in> set (t_jobs (committed p))"
        "q = (if jr_id q0 = jr_id r \<and> jr_status q0 \<notin> getFinalJobStatuses then report_assign js (pg_now p) q0 else q0)"
        using q after unfolding after_report_def by auto
      then show ?thesis using same [OF q0(1)] assms(4) by (cases "jr_id q0 = jr_id r") auto
    qed
    with run show ?thesis by blast
  qed
qed

text \<open>
  C33. Without faults, an agent's report is answered so: reporting \<^verbatim>\<open>JOB_QUEUED\<close> is refused as invalid, a
  report on a job that is not on the agent's VM is answered with not found, and neither touches the
  database; every other report is answered with success, and the only row it can change is that of an
  open job on that VM, whose status becomes running, completed, cancelled or error.
\<close>

theorem agent_report_replies:
  assumes "faults p = []" and "db_wf (committed p)"
  shows "if per_status (pes_result s) = JOB_QUEUED
     then AgentApi_updateJobState s p = (Reply INVALID_ARGUMENT ''Status queued is not allowed to be set by agent'' None, p)
     else if \<exists>r \<in> set (t_jobs (committed p)). job_of (id_of_proto (pes_vm_id s)) (id_of_proto (pes_job_id s)) r
     then \<exists>p'. AgentApi_updateJobState s p = (Reply OK [] (Some ()), p') \<and> (\<forall>q \<in> set (t_jobs (committed p')).
        q \<in> set (t_jobs (committed p)) \<or> job_of (id_of_proto (pes_vm_id s)) (id_of_proto (pes_job_id s)) q \<and>
          jr_status q \<in> {Running, Completed, JobStatus.Cancelled, Error})
     else AgentApi_updateJobState s p = (Reply NOT_FOUND (''Job '' @ show_id (pes_job_id s) @ '' not found.'') None, p)"
proof (cases "per_status (pes_result s) = JOB_QUEUED")
  case True
  then show ?thesis using allowed_statuses [of s]
    by (simp add: AgentApi_updateJobState_def Let_def protoExecutionJobStateToJobState_def)
next
  case False
  define js v j where "js = protoExecutionJobStateToJobState s" and "v = id_of_proto (pes_vm_id s)" and "j = id_of_proto (pes_job_id s)"
  have ok: "js_status js \<in> getAllowedAgentUpdateJobStatuses" using allowed_statuses False by (simp add: js_def)
  have eq: "AgentApi_updateJobState s p = (case updateJobState v j js p of
        (StdTerminate, p') \<Rightarrow> (ProcessDies, p')
      | (Returned (Inl e), p') \<Rightarrow>
          if holdsErrorType is_JobNotFoundException (Inl e :: unit result)
          then (Reply NOT_FOUND (''Job '' @ show_id (pes_job_id s) @ '' not found.'') None, p')
          else if holdsErrorType is_JobCancelledException (Inl e :: unit result)
          then (Reply CANCELLED (''Job '' @ show_id (pes_job_id s) @ '' was cancelled.'') None, p')
          else (grpcInternalErrorStatus e ''updateJobState: Unexpected error while getting job to launch: '', p')
      | (Returned (Inr _), p') \<Rightarrow> (Reply OK [] (Some ()), p'))"
    using ok unfolding AgentApi_updateJobState_def js_def v_def j_def Let_def by simp
  show ?thesis
  proof (cases "\<exists>r \<in> set (t_jobs (committed p)). job_of v j r")
    case True
    then obtain r where r: "r \<in> set (t_jobs (committed p))" "jr_vm_id r = Some v" "jr_id r = j" by (auto simp: job_of_def)
    obtain p' where p': "updateJobState v j js p = (Returned (Inr ()), p')" "\<forall>q \<in> set (t_jobs (committed p')).
       q \<in> set (t_jobs (committed p)) \<or> jr_id q = j \<and> jr_vm_id q = Some v \<and> jr_status q = js_status js"
      using updateJobState_known [OF assms r(1,2), of js] r(3) by blast
    then have "AgentApi_updateJobState s p = (Reply OK [] (Some ()), p')" unfolding eq by simp
    moreover have "\<forall>q \<in> set (t_jobs (committed p')). q \<in> set (t_jobs (committed p)) \<or> job_of v j q \<and>
          jr_status q \<in> {Running, Completed, JobStatus.Cancelled, Error}"
      using p'(2) ok unfolding job_of_def getAllowedAgentUpdateJobStatuses_def by metis
    ultimately show ?thesis using False True unfolding v_def j_def by auto
  next
    case no: False
    then have "updateJobState v j js p = (Returned (Inl (JobNotFoundException (job_not_found v j))), p)"
      using updateJobState_no_effect [OF assms(1), of v j js] by (auto simp: job_of_def)
    then have "AgentApi_updateJobState s p = (Reply NOT_FOUND (''Job '' @ show_id (pes_job_id s) @ '' not found.'') None, p)"
      unfolding eq by (simp add: holdsErrorType_def)
    with False no show ?thesis unfolding v_def j_def by auto
  qed
qed

definition ex_report :: ProtoExecutionJobState where
  "ex_report = \<lparr>pes_vm_id = 1, pes_job_id = 2, pes_result = \<lparr>per_status = JOB_RUNNING, per_result_url = None\<rparr>\<rparr>"

theorem agent_report_replies_witness:
  "AgentApi_updateJobState ex_report ex_scheduled = (Reply NOT_FOUND (''Job '' @ show_id 2 @ '' not found.'') None, ex_scheduled)"
proof -
  have h: "per_status (pes_result ex_report) \<noteq> JOB_QUEUED" "pes_job_id ex_report = 2"
    "\<not> (\<exists>r \<in> set (t_jobs (committed ex_scheduled)). job_of (id_of_proto (pes_vm_id ex_report)) (id_of_proto (pes_job_id ex_report)) r)"
    by code_simp+
  from agent_report_replies [OF ex_scheduled_faults ex_scheduled_wf, of ex_report] show ?thesis
    unfolding if_not_P [OF h(1)] if_not_P [OF h(3)] unfolding h(2) .
qed

end
