(* ===== verification/Env.thy ===== *)
theory Env
  imports Result
begin

text \<open>
  Environment variables (\<^verbatim>\<open>libs/common/impl/env.cpp\<close>) and the C conversion \<^verbatim>\<open>std::atoi\<close> they are read
  with. The environment is a map from names to values.
\<close>

type_synonym environment = "string \<rightharpoonup> string"

section \<open>std::atoi\<close>

definition is_space :: "char \<Rightarrow> bool" where
  "is_space ch \<longleftrightarrow> ch = CHR '' '' \<or> (9 \<le> (of_char ch :: nat) \<and> of_char ch \<le> (13 :: nat))"

definition is_digit :: "char \<Rightarrow> bool" where
  "is_digit ch \<longleftrightarrow> 48 \<le> (of_char ch :: nat) \<and> of_char ch \<le> (57 :: nat)"

definition digit_value :: "char \<Rightarrow> nat" where
  "digit_value ch = of_char ch - 48"

definition digits_value :: "string \<Rightarrow> nat" where
  "digits_value ds = foldl (\<lambda>n ch. 10 * n + digit_value ch) 0 ds"

text \<open>
  White space, an optional sign and the digits that follow. The C standard leaves the result
  undefined when the number leaves the range of \<^verbatim>\<open>int\<close>; the model takes what \<^verbatim>\<open>glibc\<close> computes: the
  number clamped to \<^verbatim>\<open>long\<close> and cut to 32 bits.
\<close>

definition strtol10 :: "string \<Rightarrow> int" where
  "strtol10 s =
     (let t = dropWhile is_space s;
          v = (case t of
                 [] \<Rightarrow> 0
               | ch # r \<Rightarrow> if ch = CHR ''-'' then - int (digits_value (takeWhile is_digit r))
                          else if ch = CHR ''+'' then int (digits_value (takeWhile is_digit r))
                          else int (digits_value (takeWhile is_digit t)))
      in max (- (2 ^ 63)) (min (2 ^ 63 - 1) v))"

definition atoi :: "string \<Rightarrow> 32 word" where
  "atoi s = word_of_int (strtol10 s)"

text \<open>The implicit conversion of an \<^verbatim>\<open>int\<close> to \<^verbatim>\<open>size_t\<close> extends the sign.\<close>

definition size_of_int :: "32 word \<Rightarrow> size_t" where
  "size_of_int i = scast i"

section \<open>Reading variables\<close>

definition getFromEnvOrDefault_str :: "environment \<Rightarrow> string \<Rightarrow> string \<Rightarrow> string" where
  "getFromEnvOrDefault_str env envVarName defaultValue =
     (case env envVarName of Some v \<Rightarrow> v | None \<Rightarrow> defaultValue)"

definition getFromEnvOrDefault :: "environment \<Rightarrow> string \<Rightarrow> size_t \<Rightarrow> size_t" where
  "getFromEnvOrDefault env envVarName defaultValue =
     (case env envVarName of Some v \<Rightarrow> size_of_int (atoi v) | None \<Rightarrow> defaultValue)"

definition getFromEnvOrThrow :: "environment \<Rightarrow> string \<Rightarrow> string result" where
  "getFromEnvOrThrow env envVarName =
     (case env envVarName of Some v \<Rightarrow> Inr v
      | None \<Rightarrow> Inl (RuntimeException (''Env var `'' @ envVarName @ ''` must be specified.'')))"

section \<open>Printed numbers are read back\<close>

lemma digit_of_char [simp]:
  "d < 10 \<Longrightarrow> is_digit (char_of (48 + d))" "d < 10 \<Longrightarrow> digit_value (char_of (48 + d)) = d"
  by (simp_all add: is_digit_def digit_value_def of_char_of)

lemma digits_value_append: "digits_value (xs @ [c]) = 10 * digits_value xs + digit_value c"
  by (simp add: digits_value_def)

lemma digits_value_zeros: "digits_value (replicate k (CHR ''0'') @ xs) = digits_value xs"
  by (induction k) (simp_all add: digits_value_def digit_value_def)

lemma digits_show_nat: "list_all is_digit (show_nat n) \<and> digits_value (show_nat n) = n"
proof (induction n rule: show_nat.induct)
  case (1 n)
  show ?case
  proof (cases "n < 10")
    case True
    then show ?thesis
      by (simp add: show_nat.simps [of n] digits_value_def)
  next
    case False
    then have "list_all is_digit (show_nat (n div 10)) \<and> digits_value (show_nat (n div 10)) = n div 10"
      using 1 by blast
    moreover have "show_nat n = show_nat (n div 10) @ [char_of (48 + n mod 10)]"
      using False by (simp only: show_nat.simps [of n] if_False)
    ultimately show ?thesis by (simp only: list_all_append digits_value_append) simp
  qed
qed

lemma digit_not_space: "is_digit ch \<Longrightarrow> \<not> is_space ch \<and> ch \<noteq> CHR ''-'' \<and> ch \<noteq> CHR ''+''"
  by (auto simp: is_digit_def is_space_def)

text \<open>A string of digits whose number fits in \<^verbatim>\<open>int\<close> is converted to it.\<close>

lemma atoi_digits:
  assumes "list_all is_digit ds" and "digits_value ds < 2 ^ 31"
  shows "size_of_int (atoi ds) = of_nat (digits_value ds)"
proof -
  have "takeWhile is_digit ds = ds" using assms(1) by (simp add: list_all_iff takeWhile_eq_all_conv)
  moreover have "dropWhile is_space ds = ds" using assms(1) digit_not_space by (cases ds) auto
  ultimately have "strtol10 ds = max (- (2 ^ 63)) (min (2 ^ 63 - 1) (int (digits_value ds)))"
  proof (cases ds)
    case (Cons c cs)
    moreover have "c \<noteq> CHR ''-''" "c \<noteq> CHR ''+''" using assms(1) Cons digit_not_space by auto
    ultimately show ?thesis
      using \<open>takeWhile is_digit ds = ds\<close> \<open>dropWhile is_space ds = ds\<close>
      by (simp only: strtol10_def Let_def list.case if_False)
  qed (simp add: strtol10_def digits_value_def)
  also have "\<dots> = int (digits_value ds)" using assms(2) by simp
  finally have "atoi ds = word_of_int (int (digits_value ds))" by (simp add: atoi_def)
  moreover have "sint (word_of_int (int (digits_value ds)) :: 32 word) = int (digits_value ds)"
  proof -
    have "int (digits_value ds) < 2 ^ 31" using assms(2) by (simp flip: of_nat_less_iff)
    then show ?thesis by (subst sint_sbintrunc') (simp add: signed_take_bit_int_eq_self)
  qed
  ultimately show ?thesis by (simp only: size_of_int_def scast_eq of_int_of_nat_eq)
qed

end
