(* ===== verification/PgPool.thy ===== *)
theory PgPool
  imports Env
begin

text \<open>
  The connection pool (\<^verbatim>\<open>libs/postgres/impl\<close>): a queue of connections under a mutex with a condition
  variable, and the handles that borrow from it. Threads are the positions of a list; each step is one
  critical section, one notification, or one construction or destruction outside of them. A transaction handle destroys
  its members in reverse order: the connection goes back before the transaction object ends.
\<close>

section \<open>Configuration\<close>

definition getConnectionString :: "environment \<Rightarrow> string option \<Rightarrow> string result" where
  "getConnectionString env connectionString =
     (case connectionString of
        Some s \<Rightarrow> Inr s
      | None \<Rightarrow>
          (case (getFromEnvOrThrow env ''PG_USER'', getFromEnvOrThrow env ''PG_DB_NAME'', getFromEnvOrThrow env ''PG_HOSTS'',
                 getFromEnvOrThrow env ''PG_PASSWORD'') of
             (Inr user, Inr dbName, Inr hosts, Inr password) \<Rightarrow>
               Inr (''user='' @ user @ '' '' @ ''dbname='' @ dbName @ '' '' @ ''host='' @ hosts @ '' '' @
                    ''password='' @ password @ '' '' @ ''port='' @ show_nat (unat (getFromEnvOrDefault env ''PG_PORT'' 5432)))
           | (Inl e, _, _, _) \<Rightarrow> Inl e
           | (Inr _, Inl e, _, _) \<Rightarrow> Inl e
           | (Inr _, Inr _, Inl e, _) \<Rightarrow> Inl e
           | (Inr _, Inr _, Inr _, Inl e) \<Rightarrow> Inl e))"

definition getPoolSize :: "environment \<Rightarrow> size_t option \<Rightarrow> size_t result" where
  "getPoolSize env poolSize =
     (case poolSize of
        Some n \<Rightarrow> Inr n
      | None \<Rightarrow> (case getFromEnvOrThrow env ''PG_POOL_SIZE'' of Inl e \<Rightarrow> Inl e | Inr s \<Rightarrow> Inr (size_of_int (atoi s))))"

section \<open>State\<close>

text \<open>
  What a thread does: nothing with the pool; blocked on \<^verbatim>\<open>poolNotEmpty_\<close>; woken and about to test the
  queue again; in a \<^verbatim>\<open>ConnectionHandle\<close> without transaction; in a \<^verbatim>\<open>TransactionHandle\<close>; in \<^verbatim>\<open>freeConnection\<close> between the push and the
  notification, with the transaction object that is still there, if any; in the destructor of the \<^verbatim>\<open>TransactionHandle\<close>, the
  connection given back and the transaction not ended yet.
\<close>

datatype worker = Away | Waiting | Notified | Holds nat | InTxn nat | Returned "nat option" | Ending nat

record pool =
  connectionPool :: "nat list"
  workers :: "worker list"

definition PgPool_init :: "nat \<Rightarrow> nat \<Rightarrow> pool" where
  "PgPool_init poolSize threads = \<lparr>connectionPool = [0..<poolSize], workers = replicate threads Away\<rparr>"

definition set_worker :: "nat \<Rightarrow> worker \<Rightarrow> pool \<Rightarrow> pool" where
  "set_worker i w p = p\<lparr>workers := (workers p)[i := w]\<rparr>"

section \<open>Operations\<close>

text \<open>One pass of the loop of \<^verbatim>\<open>connection()\<close>: take the front, or block.\<close>

definition connection :: "nat \<Rightarrow> pool \<Rightarrow> pool" where
  "connection i p =
     (case connectionPool p of
        [] \<Rightarrow> set_worker i Waiting p
      | conn # rest \<Rightarrow> set_worker i (Holds conn) (p\<lparr>connectionPool := rest\<rparr>))"

text \<open>\<^verbatim>\<open>freeConnection\<close> up to the end of its critical section; \<open>txn\<close> is what the thread's transaction object uses.\<close>

definition freeConnection :: "nat \<Rightarrow> nat \<Rightarrow> nat option \<Rightarrow> pool \<Rightarrow> pool" where
  "freeConnection i conn txn p = set_worker i (Returned txn) (p\<lparr>connectionPool := connectionPool p @ [conn]\<rparr>)"

text \<open>\<^verbatim>\<open>notify_one\<close> wakes one blocked thread, if there is any; which one is the argument.\<close>

definition notify_one :: "nat \<Rightarrow> pool \<Rightarrow> pool" where
  "notify_one k p = (if Waiting \<in> set (workers p) then set_worker k Notified p else p)"

definition can_notify :: "nat \<Rightarrow> pool \<Rightarrow> bool" where
  "can_notify k p \<longleftrightarrow> (Waiting \<in> set (workers p) \<longrightarrow> k < length (workers p) \<and> workers p ! k = Waiting)"

text \<open>The rest of \<^verbatim>\<open>freeConnection\<close>, outside of the mutex, and the return from it.\<close>

definition freeConnection_notify :: "nat \<Rightarrow> nat option \<Rightarrow> nat \<Rightarrow> pool \<Rightarrow> pool" where
  "freeConnection_notify i txn k p = set_worker i (case txn of None \<Rightarrow> Away | Some conn \<Rightarrow> Ending conn) (notify_one k p)"

text \<open>The connection of which a thread owns the handle, and the connection that its transaction object uses.\<close>

fun handle_of :: "worker \<Rightarrow> nat list" where
  "handle_of (Holds c) = [c]"
| "handle_of (InTxn c) = [c]"
| "handle_of w = []"

fun txn_of :: "worker \<Rightarrow> nat list" where
  "txn_of (InTxn c) = [c]"
| "txn_of (Returned (Some c)) = [c]"
| "txn_of (Ending c) = [c]"
| "txn_of w = []"

definition busy :: "nat \<Rightarrow> pool \<Rightarrow> bool" where
  "busy conn p \<longleftrightarrow> conn \<in> set (concat (map txn_of (workers p)))"

text \<open>
  The steps. The library refuses to start a transaction on a connection that has one. \<open>begin_failed\<close>: the constructor of the transaction
  throws, because it is refused or because the lazy connection cannot be opened; the exception destroys
  the connection handle. A blocked thread may also wake up without a notification.
\<close>

inductive pool_step :: "pool \<Rightarrow> pool \<Rightarrow> bool" where
  ask: "i < length (workers p) \<Longrightarrow> workers p ! i \<in> {Away, Notified} \<Longrightarrow> pool_step p (connection i p)"
| spurious: "i < length (workers p) \<Longrightarrow> workers p ! i = Waiting \<Longrightarrow> pool_step p (set_worker i Notified p)"
| begin_txn: "i < length (workers p) \<Longrightarrow> workers p ! i = Holds conn \<Longrightarrow> \<not> busy conn p \<Longrightarrow> pool_step p (set_worker i (InTxn conn) p)"
| begin_failed: "i < length (workers p) \<Longrightarrow> workers p ! i = Holds conn \<Longrightarrow> pool_step p (freeConnection i conn None p)"
| give_back: "i < length (workers p) \<Longrightarrow> workers p ! i = InTxn conn \<Longrightarrow> pool_step p (freeConnection i conn (Some conn) p)"
| notify: "i < length (workers p) \<Longrightarrow> workers p ! i = Returned txn \<Longrightarrow> can_notify k p \<Longrightarrow> pool_step p (freeConnection_notify i txn k p)"
| end_txn: "i < length (workers p) \<Longrightarrow> workers p ! i = Ending conn \<Longrightarrow> pool_step p (set_worker i Away p)"

inductive pool_reachable :: "nat \<Rightarrow> nat \<Rightarrow> pool \<Rightarrow> bool" for n m where
  start: "pool_reachable n m (PgPool_init n m)"
| step: "pool_reachable n m p \<Longrightarrow> pool_step p p' \<Longrightarrow> pool_reachable n m p'"

section \<open>The invariant\<close>

text \<open>The connections of all threads, and the number of threads at a place.\<close>

definition conns :: "(worker \<Rightarrow> nat list) \<Rightarrow> pool \<Rightarrow> nat multiset" where
  "conns f p = mset (concat (map f (workers p)))"

definition cnt :: "(worker \<Rightarrow> bool) \<Rightarrow> pool \<Rightarrow> nat" where
  "cnt P p = length (filter P (workers p))"

lemma set_worker_simps [simp]:
  "connectionPool (set_worker i w p) = connectionPool p" "workers (set_worker i w p) = (workers p)[i := w]"
  by (simp_all add: set_worker_def)

lemma worker_split:
  assumes "i < length (workers p)"
  obtains as bs where "workers p = as @ workers p ! i # bs" "\<And>w. workers (set_worker i w p) = as @ w # bs"
  using that [of "take i (workers p)" "drop (Suc i) (workers p)"] assms by (simp add: id_take_nth_drop upd_conv_take_nth_drop)

lemma conns_set_worker:
  assumes "i < length (workers p)"
  shows "conns f (set_worker i w p) + mset (f (workers p ! i)) = conns f p + mset (f w)"
proof -
  obtain as bs where "workers p = as @ workers p ! i # bs" "\<And>w. workers (set_worker i w p) = as @ w # bs"
    using worker_split [OF assms] by blast
  then have "conns f p = mset (concat (map f (as @ workers p ! i # bs)))" "conns f (set_worker i w p) = mset (concat (map f (as @ w # bs)))"
    by (metis conns_def)+
  then show ?thesis by simp
qed

lemma cnt_set_worker:
  assumes "i < length (workers p)"
  shows "cnt P (set_worker i w p) + of_bool (P (workers p ! i)) = cnt P p + of_bool (P w)"
proof -
  obtain as bs where "workers p = as @ workers p ! i # bs" "\<And>w. workers (set_worker i w p) = as @ w # bs"
    using worker_split [OF assms] by blast
  then have "cnt P p = length (filter P (as @ workers p ! i # bs))" "cnt P (set_worker i w p) = length (filter P (as @ w # bs))"
    by (metis cnt_def)+
  then show ?thesis by simp
qed

lemma queue_update [simp]: "conns f (p\<lparr>connectionPool := q\<rparr>) = conns f p" "cnt P (p\<lparr>connectionPool := q\<rparr>) = cnt P p"
  by (simp_all add: conns_def cnt_def)

lemma cnt_pos: "0 < cnt P p \<longleftrightarrow> (\<exists>w \<in> set (workers p). P w)"
  by (auto simp: cnt_def filter_empty_conv)

text \<open>A thread that will still take from the queue, or wake another one.\<close>

definition awake :: "worker \<Rightarrow> bool" where
  "awake w \<longleftrightarrow> w = Notified \<or> (\<exists>txn. w = Returned txn)"

lemma awake_simps [simp]:
  "awake Notified" "awake (Returned txn)" "\<not> awake Away" "\<not> awake Waiting" "\<not> awake (Holds c)" "\<not> awake (InTxn c)" "\<not> awake (Ending c)"
  by (auto simp: awake_def)

text \<open>
  No connection is lost or has two owners; no connection has two transactions; every free connection beyond the
  threads that are awake is one that no blocked thread misses.
\<close>

definition pool_inv :: "nat \<Rightarrow> pool \<Rightarrow> bool" where
  "pool_inv n p \<longleftrightarrow> mset (connectionPool p) + conns handle_of p = mset [0..<n] \<and> distinct (concat (map txn_of (workers p))) \<and>
     (length (connectionPool p) \<le> cnt awake p \<or> cnt ((=) Waiting) p = 0)"

text \<open>The part about the transactions: a thread starts one on a connection without one, keeps it, or ends it.\<close>

lemma txns_move:
  assumes i: "i < length (workers p)" and dist: "distinct (concat (map txn_of (workers p)))"
    and w: "txn_of w = txn_of (workers p ! i) \<or> txn_of w = [] \<or> (\<exists>c. txn_of w = [c] \<and> \<not> busy c p)"
  shows "distinct (concat (map txn_of (workers (set_worker i w p))))"
proof -
  obtain as bs where ws: "workers p = as @ workers p ! i # bs" and ws': "workers (set_worker i w p) = as @ w # bs"
    using worker_split [OF i] by blast
  let ?A = "concat (map txn_of as)" and ?B = "concat (map txn_of bs)"
  have all: "concat (map txn_of (workers p)) = ?A @ txn_of (workers p ! i) @ ?B" by (subst ws) simp
  have "distinct (?A @ txn_of w @ ?B)"
    using w dist unfolding all busy_def by (elim disjE) auto
  then show ?thesis unfolding ws' by simp
qed

lemma pool_inv_move:
  assumes "pool_inv n p" and "i < length (workers p)" and "handle_of w = handle_of (workers p ! i)"
    and "txn_of w = txn_of (workers p ! i) \<or> txn_of w = [] \<or> (\<exists>c. txn_of w = [c] \<and> \<not> busy c p)"
    and "awake (workers p ! i) \<longrightarrow> awake w" and "w \<noteq> Waiting"
  shows "pool_inv n (set_worker i w p)"
  using assms txns_move [OF assms(2) _ assms(4)] conns_set_worker [OF assms(2), of handle_of w]
    cnt_set_worker [OF assms(2), of awake w] cnt_set_worker [OF assms(2), of "(=) Waiting" w]
  by (auto simp: pool_inv_def of_bool_def split: if_splits)

lemma pool_inv_connection:
  assumes inv: "pool_inv n p" and i: "i < length (workers p)" "workers p ! i \<in> {Away, Notified}"
  shows "pool_inv n (connection i p)"
proof (cases "connectionPool p")
  case Nil
  then show ?thesis
    using inv i txns_move [OF i(1), of Waiting] conns_set_worker [OF i(1), of handle_of Waiting]
    by (auto simp: connection_def pool_inv_def)
next
  case (Cons c rest)
  let ?q = "p\<lparr>connectionPool := rest\<rparr>"
  have len: "i < length (workers ?q)" using i(1) by simp
  have "distinct (concat (map txn_of (workers (set_worker i (Holds c) ?q))))"
    by (rule txns_move [OF len]) (use inv in \<open>simp_all add: pool_inv_def\<close>)
  then show ?thesis
    using inv i(2) Cons conns_set_worker [OF len, of handle_of "Holds c"] cnt_set_worker [OF len, of awake "Holds c"]
      cnt_set_worker [OF len, of "(=) Waiting" "Holds c"]
    by (auto simp: connection_def pool_inv_def)
qed

lemma pool_inv_free:
  assumes inv: "pool_inv n p" and i: "i < length (workers p)" "handle_of (workers p ! i) = [c]"
    and txn: "txn_of (Returned txn) = txn_of (workers p ! i)"
  shows "pool_inv n (freeConnection i c txn p)"
proof -
  let ?q = "p\<lparr>connectionPool := connectionPool p @ [c]\<rparr>"
  have len: "i < length (workers ?q)" using i(1) by simp
  have "\<not> awake (workers p ! i)" "workers p ! i \<noteq> Waiting" using i(2) by (auto simp: awake_def)
  moreover have "distinct (concat (map txn_of (workers (set_worker i (Returned txn) ?q))))"
    by (rule txns_move [OF len]) (use inv txn in \<open>simp_all add: pool_inv_def\<close>)
  moreover have "conns handle_of p = add_mset c (conns handle_of (set_worker i (Returned txn) ?q))"
    using conns_set_worker [OF len, of handle_of "Returned txn"] i(2) by simp
  ultimately show ?thesis
    using inv cnt_set_worker [OF len, of awake "Returned txn"] cnt_set_worker [OF len, of "(=) Waiting" "Returned txn"]
    by (auto simp: freeConnection_def pool_inv_def)
qed

lemma pool_inv_notify:
  assumes inv: "pool_inv n p" and i: "i < length (workers p)" "workers p ! i = Returned txn" and k: "can_notify k p"
  shows "pool_inv n (freeConnection_notify i txn k p)"
proof -
  define w where "w = (case txn of None \<Rightarrow> Away | Some conn \<Rightarrow> Ending conn)"
  have w: "handle_of w = []" "txn_of w = txn_of (Returned txn)" "\<not> awake w" "w \<noteq> Waiting" by (auto simp: w_def split: option.splits)
  define q where "q = notify_one k p"
  have q: "i < length (workers q)" "workers q ! i = Returned txn"
    using i k by (auto simp: q_def notify_one_def can_notify_def nth_list_update)
  have "mset (connectionPool q) + conns handle_of q = mset [0..<n]" "distinct (concat (map txn_of (workers q)))"
    "length (connectionPool q) < cnt awake q \<or> cnt ((=) Waiting) q = 0"
  proof -
    show "mset (connectionPool q) + conns handle_of q = mset [0..<n]"
      using inv k conns_set_worker [of k p handle_of Notified] by (auto simp: q_def notify_one_def can_notify_def pool_inv_def)
    show "distinct (concat (map txn_of (workers q)))"
      using inv k txns_move [of k p Notified] by (auto simp: q_def notify_one_def can_notify_def pool_inv_def)
    show "length (connectionPool q) < cnt awake q \<or> cnt ((=) Waiting) q = 0"
    proof (cases "Waiting \<in> set (workers p)")
      case True
      then have "0 < cnt ((=) Waiting) p" by (auto simp: cnt_pos)
      then show ?thesis
        using True inv k cnt_set_worker [of k p awake Notified] by (auto simp: q_def notify_one_def can_notify_def pool_inv_def)
    next
      case False
      then have "\<not> 0 < cnt ((=) Waiting) p" by (auto simp: cnt_pos)
      then show ?thesis using False by (simp add: q_def notify_one_def)
    qed
  qed
  then show ?thesis
    using q w conns_set_worker [OF q(1), of handle_of w] cnt_set_worker [OF q(1), of awake w]
      cnt_set_worker [OF q(1), of "(=) Waiting" w] txns_move [OF q(1), of w]
    unfolding freeConnection_notify_def w_def [symmetric] q_def [symmetric] by (auto simp: pool_inv_def)
qed

lemma pool_inv_step: "pool_step p p' \<Longrightarrow> pool_inv n p \<Longrightarrow> pool_inv n p'"
proof (induction rule: pool_step.induct)
  case (ask i p)
  then show ?case by (intro pool_inv_connection)
next
  case (notify i p txn k)
  then show ?case by (intro pool_inv_notify)
next
  case (begin_txn i p conn)
  then show ?case by (intro pool_inv_move) auto
qed (auto intro!: pool_inv_move pool_inv_free)

lemma pool_reachable_inv: "pool_reachable n m p \<Longrightarrow> pool_inv n p"
proof (induction rule: pool_reachable.induct)
  case start
  have "concat (map f (replicate m Away)) = []" if "f Away = []" for f :: "worker \<Rightarrow> nat list" using that by (induction m) auto
  then show ?case by (simp add: PgPool_init_def pool_inv_def conns_def cnt_def)
qed (rule pool_inv_step)

text \<open>
  C35. In every reachable state of the pool each connection is in the queue or owned by exactly one connection handle; none
  is lost and none has two owners. No connection has two transaction objects. (A thread may own the handle of a connection on which
  the transaction of another thread has not ended, since that one gave it back first; a transaction of its own is then refused.)
  When a connection is free and a thread is blocked, some thread is awake to take it or about to notify.
\<close>

theorem pool_exclusive:
  assumes "pool_reachable n m p"
  shows "distinct (connectionPool p @ concat (map handle_of (workers p))) \<and>
     set (connectionPool p) \<union> set (concat (map handle_of (workers p))) = {0..<n} \<and>
     distinct (concat (map txn_of (workers p))) \<and>
     (connectionPool p \<noteq> [] \<longrightarrow> Waiting \<in> set (workers p) \<longrightarrow> Notified \<in> set (workers p) \<or> (\<exists>txn. Returned txn \<in> set (workers p)))"
proof -
  have inv: "pool_inv n p" using assms by (rule pool_reachable_inv)
  then have all: "mset (connectionPool p @ concat (map handle_of (workers p))) = mset [0..<n]" by (simp add: pool_inv_def conns_def)
  have "distinct (connectionPool p @ concat (map handle_of (workers p)))" using mset_eq_imp_distinct_iff [OF all] by simp
  moreover have "set (connectionPool p @ concat (map handle_of (workers p))) = {0..<n}" using mset_eq_setD [OF all] by simp
  moreover have "\<exists>w \<in> set (workers p). awake w" if "connectionPool p \<noteq> []" "Waiting \<in> set (workers p)"
  proof -
    have "0 < cnt ((=) Waiting) p" using that(2) by (auto simp: cnt_pos)
    then have "length (connectionPool p) \<le> cnt awake p" using inv by (auto simp: pool_inv_def)
    moreover have "0 < length (connectionPool p)" using that(1) by simp
    ultimately have "0 < cnt awake p" by linarith
    then show ?thesis by (simp add: cnt_pos)
  qed
  ultimately show ?thesis using inv by (auto simp: awake_def pool_inv_def)
qed

section \<open>The order of destruction\<close>

text \<open>
  Two threads and one connection: the first gives the connection back, the second takes it, and the
  library refuses its transaction because that of the first has not ended.
\<close>

definition ex_overlap :: pool where
  "ex_overlap = \<lparr>connectionPool = [], workers = [Ending 0, Holds 0]\<rparr>"

lemma overlap_reachable: "pool_reachable 1 2 ex_overlap"
proof -
  let ?p = "\<lambda>q ws. \<lparr>connectionPool = q, workers = ws\<rparr>"
  have "pool_step (PgPool_init 1 2) (?p [] [Holds 0, Away])"
    using pool_step.ask [of 0 "PgPool_init 1 2"] by (simp add: PgPool_init_def connection_def set_worker_def numeral_2_eq_2)
  moreover have "pool_step (?p [] [Holds 0, Away]) (?p [] [InTxn 0, Away])"
    using pool_step.begin_txn [of 0 "?p [] [Holds 0, Away]" 0] by (simp add: set_worker_def busy_def)
  moreover have "pool_step (?p [] [InTxn 0, Away]) (?p [0] [Returned (Some 0), Away])"
    using pool_step.give_back [of 0 "?p [] [InTxn 0, Away]" 0] by (simp add: freeConnection_def set_worker_def)
  moreover have "pool_step (?p [0] [Returned (Some 0), Away]) (?p [0] [Ending 0, Away])"
    using pool_step.notify [of 0 "?p [0] [Returned (Some 0), Away]" "Some 0" 0]
    by (simp add: freeConnection_notify_def notify_one_def can_notify_def set_worker_def)
  moreover have "pool_step (?p [0] [Ending 0, Away]) ex_overlap"
    using pool_step.ask [of 1 "?p [0] [Ending 0, Away]"] by (simp add: connection_def set_worker_def ex_overlap_def)
  ultimately show ?thesis by (meson pool_reachable.intros)
qed

theorem pool_exclusive_witness:
  "pool_reachable 1 2 ex_overlap \<and> distinct (connectionPool ex_overlap @ concat (map handle_of (workers ex_overlap))) \<and>
   set (connectionPool ex_overlap) \<union> set (concat (map handle_of (workers ex_overlap))) = {0} \<and>
   distinct (concat (map txn_of (workers ex_overlap)))"
  using pool_exclusive [OF overlap_reachable] overlap_reachable by auto

lemma pool_hands_out_busy:
  "pool_reachable 1 2 ex_overlap \<and> workers ex_overlap ! 1 = Holds 0 \<and> busy 0 ex_overlap \<and>
   (\<forall>p. pool_step ex_overlap p \<longrightarrow> workers p ! 1 \<noteq> InTxn 0)"
proof -
  have "workers p ! 1 \<noteq> InTxn 0" if "pool_step ex_overlap p" for p
    using that by cases (auto simp: ex_overlap_def busy_def connection_def freeConnection_def freeConnection_notify_def
        notify_one_def set_worker_def less_Suc_eq nth_Cons' split: if_splits option.splits)
  then show ?thesis using overlap_reachable by (auto simp: ex_overlap_def busy_def)
qed

end
