(* ===== verification/Base64.thy ===== *)
theory Base64
  imports Prelude
begin

unbundle bit_operations_syntax

text \<open>
  \<^verbatim>\<open>base64Encode\<close> (\<^verbatim>\<open>libs/common/impl/base64.cpp\<close>). A character is read as a signed byte and promoted to a
  32-bit \<^verbatim>\<open>int\<close>; lengths and positions are \<^verbatim>\<open>size_t\<close>, so the loop bound \<^verbatim>\<open>in_len - 2\<close> wraps around for
  inputs shorter than two characters. Reading a string behind its terminating null is undefined: \<open>None\<close>.
\<close>

section \<open>The encoder\<close>

definition sEncodingTable :: string where
  "sEncodingTable = ''ABCDEFGHIJKLMNOPQRSTUVWXYZabcdefghijklmnopqrstuvwxyz0123456789+/''"

definition promote :: "char \<Rightarrow> 32 word" where
  "promote ch = scast (of_char ch :: 8 word)"

definition code_at :: "32 word \<Rightarrow> char" where
  "code_at w = sEncodingTable ! unat w"

definition char_at :: "string \<Rightarrow> nat \<Rightarrow> char option" where
  "char_at data i = (if i < length data then Some (data ! i) else if i = length data then Some (char_of (0::nat)) else None)"

definition first6 :: "char \<Rightarrow> char" where
  "first6 a = code_at (signed_drop_bit 2 (promote a) AND 0x3F)"

definition second6 :: "char \<Rightarrow> char \<Rightarrow> char" where
  "second6 a b = code_at (push_bit 4 (promote a AND 0x3) OR signed_drop_bit 4 (promote b AND 0xF0))"

definition third6 :: "char \<Rightarrow> char \<Rightarrow> char" where
  "third6 b c = code_at (push_bit 2 (promote b AND 0xF) OR signed_drop_bit 6 (promote c AND 0xC0))"

definition fourth6 :: "char \<Rightarrow> char" where
  "fourth6 c = code_at (promote c AND 0x3F)"

text \<open>The loop over full groups: what it writes, and the position it stops at.\<close>

function base64_loop :: "string \<Rightarrow> nat \<Rightarrow> nat \<Rightarrow> (string \<times> nat) option" where
  "base64_loop data bound i =
     (if i < bound
      then (case (char_at data i, char_at data (i + 1), char_at data (i + 2)) of
              (Some a, Some b, Some c) \<Rightarrow>
                (case base64_loop data bound (i + 3) of
                   Some (out, j) \<Rightarrow> Some (first6 a # second6 a b # third6 b c # fourth6 c # out, j)
                 | None \<Rightarrow> None)
            | _ \<Rightarrow> None)
      else Some ([], i))"
  by pat_completeness auto
termination
  by (relation "measure (\<lambda>(data, bound, i). bound - i)") auto

declare base64_loop.simps [simp del]

text \<open>What is written behind the loop for one or two characters that are left.\<close>

definition base64_tail :: "string \<Rightarrow> nat \<Rightarrow> string" where
  "base64_tail data i =
     (if i < length data
      then if i = length data - 1
           then [first6 (data ! i), code_at (push_bit 4 (promote (data ! i) AND 0x3)), CHR ''='', CHR ''='']
           else [first6 (data ! i), second6 (data ! i) (data ! (i + 1)),
                 code_at (push_bit 2 (promote (data ! (i + 1)) AND 0xF)), CHR ''='']
      else [])"

text \<open>The buffer of \<^verbatim>\<open>out_len\<close> nulls keeps the rest of its nulls; writing beyond it is undefined.\<close>

definition base64Encode :: "string \<Rightarrow> string option" where
  "base64Encode data =
     (let in_len = (of_nat (length data) :: size_t);
          out_len = 4 * ((length data + 2) div 3)
      in case base64_loop data (unat (in_len - 2)) 0 of
           None \<Rightarrow> None
         | Some (out, i) \<Rightarrow>
             let written = out @ base64_tail data i
             in if length written \<le> out_len then Some (written @ replicate (out_len - length written) (char_of (0::nat)))
                else None)"

section \<open>What the four characters encode\<close>

text \<open>The signedness of the characters does not matter under the masks.\<close>

definition byte :: "char \<Rightarrow> 8 word" where
  "byte ch = of_char ch"

lemma of_char_256: "(of_char ch :: nat) < 256"
  by simp

lemma unat_byte: "unat (byte ch) = of_char ch"
proof -
  have "(of_char ch :: nat) < 256" by simp
  moreover have "byte ch = of_nat (of_char ch)" by (simp only: byte_def of_nat_of_char)
  ultimately show ?thesis by (simp add: unat_of_nat)
qed

lemma bit_promote: "bit (promote ch) i \<longleftrightarrow> i < 32 \<and> bit (byte ch) (if i < 8 then i else 7)"
  by (cases "i = 7") (auto simp: promote_def byte_def [symmetric] bit_simps min_def)

lemma masks: "(0x3F :: 32 word) = mask 6" "(0x3 :: 32 word) = mask 2" "(0xF :: 32 word) = mask 4"
  "(0xF0 :: 32 word) = push_bit 4 (mask 4)" "(0xC0 :: 32 word) = push_bit 6 (mask 2)"
  by (simp_all add: mask_eq_exp_minus_1)

lemma sextet_words:
  "signed_drop_bit 2 (promote ch) AND 0x3F = ucast (drop_bit 2 (byte ch))"
  "push_bit 4 (promote ch AND 0x3) = push_bit 4 (ucast (take_bit 2 (byte ch)))"
  "signed_drop_bit 4 (promote ch AND 0xF0) = ucast (drop_bit 4 (byte ch))"
  "push_bit 2 (promote ch AND 0xF) = push_bit 2 (ucast (take_bit 4 (byte ch)))"
  "signed_drop_bit 6 (promote ch AND 0xC0) = ucast (drop_bit 6 (byte ch))"
  "promote ch AND 0x3F = ucast (take_bit 6 (byte ch))"
  unfolding masks
  by (rule bit_word_eqI; auto simp: bit_simps bit_promote not_le not_less dest: bit_imp_le_length)+

lemma sextets:
  "unat (signed_drop_bit 2 (promote ch) AND 0x3F) = of_char ch div 4"
  "unat (push_bit 4 (promote ch AND 0x3)) = of_char ch mod 4 * 16"
  "unat (signed_drop_bit 4 (promote ch AND 0xF0)) = of_char ch div 16"
  "unat (push_bit 2 (promote ch AND 0xF)) = of_char ch mod 16 * 4"
  "unat (signed_drop_bit 6 (promote ch AND 0xC0)) = of_char ch div 64"
  "unat (promote ch AND 0x3F) = of_char ch mod 64"
proof -
  have b: "unat (byte ch) < 256" by (simp add: unat_byte)
  have d: "unat (ucast (drop_bit k (byte ch)) :: 32 word) = unat (byte ch) div 2 ^ k" for k
  proof -
    have "unat (byte ch) div 2 ^ k < 4294967296" using b by (intro le_less_trans [OF div_le_dividend]) simp
    moreover have "unat (drop_bit k (byte ch)) = unat (byte ch) div 2 ^ k"
      by (subst unsigned_drop_bit_eq) (simp add: drop_bit_eq_div take_bit_eq_mod b)
    ultimately show ?thesis by (simp only: unsigned_ucast_eq) (simp add: take_bit_eq_mod)
  qed
  have t: "unat (ucast (take_bit k (byte ch)) :: 32 word) = unat (byte ch) mod 2 ^ k" for k
  proof -
    have "unat (byte ch) mod 2 ^ k < 256" using b by (intro le_less_trans [OF mod_less_eq_dividend])
    moreover have "unat (take_bit k (byte ch)) = unat (byte ch) mod 2 ^ k"
      by (subst unsigned_take_bit_eq) (simp add: take_bit_eq_mod)
    ultimately show ?thesis by (simp only: unsigned_ucast_eq) (simp add: take_bit_eq_mod)
  qed
  have p: "unat (push_bit k w) = unat w * 2 ^ k mod 2 ^ 32" for k and w :: "32 word"
    by (subst unsigned_push_bit_eq) (simp add: push_bit_eq_mult take_bit_eq_mod)
  show "unat (signed_drop_bit 2 (promote ch) AND 0x3F) = of_char ch div 4"
    "unat (signed_drop_bit 4 (promote ch AND 0xF0)) = of_char ch div 16"
    "unat (signed_drop_bit 6 (promote ch AND 0xC0)) = of_char ch div 64"
    "unat (promote ch AND 0x3F) = of_char ch mod 64"
    unfolding sextet_words d t unat_byte by simp_all
  show "unat (push_bit 4 (promote ch AND 0x3)) = of_char ch mod 4 * 16"
    "unat (push_bit 2 (promote ch AND 0xF)) = of_char ch mod 16 * 4"
    unfolding sextet_words p t unat_byte by simp_all
qed

lemma unat_or:
  fixes x y :: "32 word"
  assumes "x AND y = 0" and "unat x + unat y < 2 ^ 32"
  shows "unat (x OR y) = unat x + unat y"
proof -
  have "x OR y = x + y" using word_plus_and_or [of x y] assms(1) by simp
  then show ?thesis using assms(2) by (simp add: unat_word_ariths)
qed

section \<open>The reference encoding\<close>

definition sextet :: "nat \<Rightarrow> char" where
  "sextet n = sEncodingTable ! n"

definition six1 :: "char \<Rightarrow> char" where "six1 a = sextet (of_char a div 4)"
definition six2 :: "char \<Rightarrow> nat \<Rightarrow> char" where "six2 a b = sextet (of_char a mod 4 * 16 + b div 16)"
definition six3 :: "char \<Rightarrow> nat \<Rightarrow> char" where "six3 b c = sextet (of_char b mod 16 * 4 + c div 64)"
definition six4 :: "char \<Rightarrow> char" where "six4 c = sextet (of_char c mod 64)"

fun enc64 :: "string \<Rightarrow> string" where
  "enc64 [] = []"
| "enc64 [a] = [six1 a, six2 a 0, CHR ''='', CHR ''='']"
| "enc64 [a, b] = [six1 a, six2 a (of_char b), six3 b 0, CHR ''='']"
| "enc64 (a # b # c # rest) = six1 a # six2 a (of_char b) # six3 b (of_char c) # six4 c # enc64 rest"

lemma sixes:
  "first6 a = six1 a" "second6 a b = six2 a (of_char b)" "third6 b c = six3 b (of_char c)" "fourth6 c = six4 c"
  "code_at (push_bit 4 (promote a AND 0x3)) = six2 a 0" "code_at (push_bit 2 (promote b AND 0xF)) = six3 b 0"
proof -
  have small: "x mod 4 * 16 + y div 16 < 2 ^ 32" "x mod 16 * 4 + y div 64 < 2 ^ 32" if "y < 256" for x y :: nat
  proof -
    have "x mod 4 \<le> 3" "x mod 16 \<le> 15" "y div 16 \<le> 15" "y div 64 \<le> 15" using that by auto
    then show "x mod 4 * 16 + y div 16 < 2 ^ 32" "x mod 16 * 4 + y div 64 < 2 ^ 32" by simp_all
  qed
  have "push_bit 4 (promote a AND 0x3) AND signed_drop_bit 4 (promote b AND 0xF0) = 0"
    unfolding sextet_words by (rule bit_word_eqI) (auto simp: bit_simps dest: bit_imp_le_length)
  then have "unat (push_bit 4 (promote a AND 0x3) OR signed_drop_bit 4 (promote b AND 0xF0)) = of_char a mod 4 * 16 + of_char b div 16"
    using small(1) [OF of_char_256] by (subst unat_or) (simp_all only: sextets)
  then show "second6 a b = six2 a (of_char b)" by (simp add: second6_def six2_def code_at_def sextet_def)
  have "push_bit 2 (promote b AND 0xF) AND signed_drop_bit 6 (promote c AND 0xC0) = 0"
    unfolding sextet_words by (rule bit_word_eqI) (auto simp: bit_simps dest: bit_imp_le_length)
  then have "unat (push_bit 2 (promote b AND 0xF) OR signed_drop_bit 6 (promote c AND 0xC0)) = of_char b mod 16 * 4 + of_char c div 64"
    using small(2) [OF of_char_256] by (subst unat_or) (simp_all only: sextets)
  then show "third6 b c = six3 b (of_char c)" by (simp add: third6_def six3_def code_at_def sextet_def)
  show "code_at (push_bit 4 (promote a AND 0x3)) = six2 a 0" "code_at (push_bit 2 (promote b AND 0xF)) = six3 b 0"
    by (simp_all only: six2_def six3_def code_at_def sextet_def sextets div_0 add_0_right)
qed (simp_all add: first6_def fourth6_def six1_def six4_def code_at_def sextet_def sextets)

text \<open>The reference decoder.\<close>

definition value64 :: "char \<Rightarrow> nat" where
  "value64 ch = length (takeWhile (\<lambda>x. x \<noteq> ch) sEncodingTable)"

fun dec64 :: "string \<Rightarrow> string option" where
  "dec64 [] = Some []"
| "dec64 (w # x # y # z # rest) =
     (let a = char_of (value64 w * 4 + value64 x div 16);
          b = char_of (value64 x mod 16 * 16 + value64 y div 4);
          c = char_of (value64 y mod 4 * 64 + value64 z)
      in if y = CHR ''='' then Some [a] else if z = CHR ''='' then Some [a, b]
         else map_option (\<lambda>s. a # b # c # s) (dec64 rest))"
| "dec64 _ = None"

lemma sextet_inverse:
  assumes "n < 64"
  shows "value64 (sextet n) = n" and "sextet n \<noteq> CHR ''=''"
proof -
  have "list_all (\<lambda>n. value64 (sextet n) = n \<and> sextet n \<noteq> CHR ''='') [0..<64]" by code_simp
  then show "value64 (sextet n) = n" "sextet n \<noteq> CHR ''=''" using assms by (auto simp: list_all_iff)
qed

lemma sixes_decode:
  "value64 (six1 a) = of_char a div 4" "b < 256 \<Longrightarrow> value64 (six2 a b) = of_char a mod 4 * 16 + b div 16"
  "d < 256 \<Longrightarrow> value64 (six3 e d) = of_char e mod 16 * 4 + d div 64" "value64 (six4 a) = of_char a mod 64"
  "d < 256 \<Longrightarrow> six3 e d \<noteq> CHR ''=''" "six4 a \<noteq> CHR ''=''"
proof -
  have "of_char a div 4 < (64::nat)" using of_char_256 [of a] by (simp only: less_mult_imp_div_less)
  then show "value64 (six1 a) = of_char a div 4" by (simp add: six1_def sextet_inverse)
  show "value64 (six2 a b) = of_char a mod 4 * 16 + b div 16" if "b < 256"
  proof -
    have "of_char a mod 4 < (4::nat)" "b div 16 < 16" using that by simp_all
    then have "of_char a mod 4 * 16 + b div 16 < 64" by linarith
    then show ?thesis by (simp add: six2_def sextet_inverse)
  qed
  have lt: "of_char e mod 16 * 4 + d div 64 < 64" if "d < 256" for d :: nat
  proof -
    have "of_char e mod 16 < (16::nat)" "d div 64 < 4" using that by simp_all
    then show ?thesis by linarith
  qed
  show "value64 (six3 e d) = of_char e mod 16 * 4 + d div 64" "six3 e d \<noteq> CHR ''=''" if "d < 256"
    using lt [OF that] by (simp_all add: six3_def sextet_inverse)
  show "value64 (six4 a) = of_char a mod 64" "six4 a \<noteq> CHR ''=''" by (simp_all add: six4_def sextet_inverse)
qed

lemma regroup:
  fixes a b c :: nat
  assumes "a < 256" "b < 256" "c < 256"
  shows "a div 4 * 4 + (a mod 4 * 16 + b div 16) div 16 = a"
    "(a mod 4 * 16 + b div 16) mod 16 * 16 + (b mod 16 * 4 + c div 64) div 4 = b"
    "(b mod 16 * 4 + c div 64) mod 4 * 64 + c mod 64 = c"
proof -
  have lt: "b div 16 < 16" "c div 64 < 4" using assms by simp_all
  have "(a mod 4 * 16 + b div 16) div 16 = a mod 4" "(a mod 4 * 16 + b div 16) mod 16 = b div 16"
    "(b mod 16 * 4 + c div 64) div 4 = b mod 16" "(b mod 16 * 4 + c div 64) mod 4 = c div 64"
    using lt by simp_all
  then show "a div 4 * 4 + (a mod 4 * 16 + b div 16) div 16 = a"
    "(a mod 4 * 16 + b div 16) mod 16 * 16 + (b mod 16 * 4 + c div 64) div 4 = b"
    "(b mod 16 * 4 + c div 64) mod 4 * 64 + c mod 64 = c" by simp_all
qed

lemma dec64_enc64: "dec64 (enc64 data) = Some data"
proof (induction data rule: enc64.induct)
  case (4 a b c rest)
  then show ?case
    using regroup [of "of_char a" "of_char b" "of_char c"] by (simp add: sixes_decode Let_def)
next
  case (3 a b)
  then show ?case using regroup [of "of_char a" "of_char b" 0] by (simp add: sixes_decode Let_def)
next
  case (2 a)
  then show ?case using regroup [of "of_char a" 0 0] by (simp add: sixes_decode Let_def)
qed simp

lemma length_enc64: "length (enc64 data) = 4 * ((length data + 2) div 3)"
proof (induction data rule: enc64.induct)
  case (4 a b c rest)
  have "(length rest + 5) div 3 = Suc ((length rest + 2) div 3)" by presburger
  then have "4 * ((length rest + 5) div 3) = 4 + 4 * ((length rest + 2) div 3)" by simp
  then show ?case using 4 by (simp add: add.commute)
qed simp_all

section \<open>The loop and the tail\<close>

lemma base64_loop_enc:
  assumes "i \<le> length data" and "2 \<le> length data"
  shows "\<exists>out j. base64_loop data (length data - 2) i = Some (out, j) \<and> out @ base64_tail data j = enc64 (drop i data)"
  using assms(1)
proof (induction "length data - i" arbitrary: i rule: less_induct)
  case less
  show ?case
  proof (cases "i < length data - 2")
    case True
    then obtain out j where rec: "base64_loop data (length data - 2) (i + 3) = Some (out, j)"
        "out @ base64_tail data j = enc64 (drop (i + 3) data)"
    proof -
      have "length data - (i + 3) < length data - i" "i + 3 \<le> length data" using True by linarith+
      then show ?thesis using less(1) [of "i + 3"] that by blast
    qed
    have split: "drop i data = data ! i # data ! (i + 1) # data ! (i + 2) # drop (i + 3) data"
      using True by (simp add: Cons_nth_drop_Suc numeral_3_eq_3)
    have inside: "i < length data" "Suc i < length data" "Suc (Suc i) < length data" using True by linarith+
    show ?thesis
      using True rec inside by (subst base64_loop.simps) (simp add: char_at_def split sixes)
  next
    case False
    then consider "i = length data" | "i = length data - 1" "i < length data" | "i = length data - 2"
      using less(2) assms(2) by linarith
    then have "base64_tail data i = enc64 (drop i data)"
    proof cases
      case 2
      then have "drop i data = [data ! i]" by (simp add: Cons_nth_drop_Suc [symmetric])
      then show ?thesis using 2 by (simp add: base64_tail_def sixes del: push_bit_and)
    next
      case 3
      then have "drop i data = [data ! i, data ! (i + 1)]"
        using assms(2) by (simp add: Cons_nth_drop_Suc [symmetric])
      moreover have "i \<noteq> length data - 1" "i < length data" using 3 assms(2) by linarith+
      ultimately show ?thesis by (simp add: base64_tail_def sixes del: push_bit_and)
    qed (simp add: base64_tail_def)
    then show ?thesis using False by (subst base64_loop.simps) simp
  qed
qed

section \<open>The round trip\<close>

lemma base64Encode_enc64:
  assumes "2 \<le> length data" and "length data < 2 ^ 64"
  shows "base64Encode data = Some (enc64 data)"
proof -
  have "unat ((of_nat (length data) :: size_t) - 2) = length data - 2"
  proof -
    have "(of_nat (length data) :: size_t) - 2 = of_nat (length data - 2)" using assms(1) by (simp add: of_nat_diff)
    then show ?thesis using assms(2) by (simp add: unat_of_nat)
  qed
  moreover obtain out j where "base64_loop data (length data - 2) 0 = Some (out, j)"
      "out @ base64_tail data j = enc64 data"
    using base64_loop_enc [of 0 data] assms(1) by auto
  ultimately show ?thesis by (simp only: base64Encode_def Let_def option.case prod.case) (simp add: length_enc64)
qed

text \<open>
  C39. Every string of at least two characters is encoded without reading or writing out of bounds; the
  result fills the buffer exactly, is the standard encoding of the string, and decodes to it.
\<close>

theorem base64_roundtrip:
  assumes "2 \<le> length data" and "length data < 2 ^ 64"
  shows "\<exists>e. base64Encode data = Some e \<and> e = enc64 data \<and> length e = 4 * ((length data + 2) div 3) \<and> dec64 e = Some data"
  using base64Encode_enc64 [OF assms] by (simp add: dec64_enc64 length_enc64)

theorem base64_roundtrip_witness:
  "base64Encode ''Many hands'' = Some ''TWFueSBoYW5kcw=='' \<and> dec64 ''TWFueSBoYW5kcw=='' = Some ''Many hands''"
proof -
  have "enc64 ''Many hands'' = ''TWFueSBoYW5kcw==''" by code_simp
  then show ?thesis using base64_roundtrip [of "''Many hands''"] by simp
qed

text \<open>
  The loop bound wraps around for strings of fewer than two characters: the loop then reads behind the end of the string.
\<close>

lemma base64_short:
  assumes "length data < 2"
  shows "base64Encode data = None"
proof -
  consider "data = []" | a where "data = [a]" using assms by (cases data) (auto simp: length_Suc_conv)
  moreover have wrapped: "0 < unat (- 1 :: size_t)" by (simp add: unat_gt_0)
  ultimately have "base64_loop data (unat ((of_nat (length data) :: size_t) - 2)) 0 = None"
    by cases (subst base64_loop.simps; simp add: char_at_def wrapped)+
  then show ?thesis by (simp add: base64Encode_def)
qed

end
