(* ===== verification/Aws.thy ===== *)
theory Aws
  imports Allocator Env Base64
begin

text \<open>
  \<^verbatim>\<open>AwsCloudClient\<close> (\<^verbatim>\<open>libs/aws/allocator/impl\<close>), the implementation of \<^verbatim>\<open>CloudClient\<close> the server runs with. The EC2 client
  of the AWS SDK is an argument: a record of its operations over a state of its own, an answer \<open>Inl\<close>
  being the message of a failed outcome. Instance types are an enumeration of the SDK, the type
  variable \<open>'ty\<close>.
\<close>

section \<open>The SDK's interface\<close>

record 'ty RunInstancesRequest =
  rr_instanceType :: 'ty
  rr_availabilityZone :: string
  rr_imageId :: string
  rr_tags :: "(string \<times> string) list"
  rr_clientToken :: string
  rr_userData :: string
  rr_iamInstanceProfile :: string
  rr_keyName :: string
  rr_minCount :: nat
  rr_maxCount :: nat
  rr_spot :: bool

type_synonym filters = "(string \<times> string list) list"

text \<open>
  \<open>ec2_name\<close> is \<^verbatim>\<open>InstanceTypeMapper::GetNameForInstanceType\<close>. The two \<^verbatim>\<open>Describe\<close> operations take the filters and the
  next token, and answer a page and the token of the next one.
\<close>

record ('ty, 'c) ec2 =
  ec2_name :: "'ty \<Rightarrow> string"
  ec2_RunInstances :: "'ty RunInstancesRequest \<Rightarrow> 'c \<Rightarrow> (string + string list) \<times> 'c"
  ec2_StartInstances :: "string \<Rightarrow> 'c \<Rightarrow> (string + unit) \<times> 'c"
  ec2_TerminateInstances :: "string \<Rightarrow> 'c \<Rightarrow> (string + unit) \<times> 'c"
  ec2_DescribeInstances :: "filters \<Rightarrow> string \<Rightarrow> 'c \<Rightarrow> (string + ('ty \<times> string) list list \<times> string) \<times> 'c"
  ec2_DescribeInstanceTypes :: "filters \<Rightarrow> string \<Rightarrow> 'c \<Rightarrow> (string + ('ty \<times> 32 word \<times> 64 word) list \<times> string) \<times> 'c"

section \<open>Configuration\<close>

record AwsClientConfig =
  awc_accessKeyId :: string
  awc_secretKey :: string

record AgentEcrCredentials =
  ecr_accessKeyId :: string
  ecr_secretKey :: string

record 'ty InstanceTypeInfo =
  it_type :: 'ty
  it_capacity :: SlotCapacity

record 'ty AwsInstancesConfig =
  aws_amiId :: string
  aws_vmTypes :: "'ty InstanceTypeInfo list"
  aws_vmTags :: "(string, string) umap"
  aws_tokenPrefix :: string
  aws_agentDockerImageVersion :: string
  aws_vmsAddress :: string
  aws_creds :: AgentEcrCredentials
  aws_useSpot :: bool

definition getVmTags :: "(string, string) umap" where
  "getVmTags = [(''owner'', ''vms-prod'')]"

definition createAwsClientConfig :: "environment \<Rightarrow> AwsClientConfig result" where
  "createAwsClientConfig env =
     (case getFromEnvOrThrow env ''AWS_EC2_ACCESS_KEY_ID'' of
        Inl e \<Rightarrow> Inl e
      | Inr key \<Rightarrow>
          (case getFromEnvOrThrow env ''AWS_EC2_SECRET_KEY'' of
             Inl e \<Rightarrow> Inl e
           | Inr secret \<Rightarrow> Inr \<lparr>awc_accessKeyId = key, awc_secretKey = secret\<rparr>))"

definition InstanceTypeInfo_less :: "'ty InstanceTypeInfo \<Rightarrow> 'ty InstanceTypeInfo \<Rightarrow> bool" where
  "InstanceTypeInfo_less x other \<longleftrightarrow> it_capacity x < it_capacity other"

text \<open>The cores are an \<^verbatim>\<open>int\<close> and the memory a \<^verbatim>\<open>long long\<close>, both converted to \<^verbatim>\<open>size_t\<close>.\<close>

definition instanceTypeInfo_of_aws :: "'ty \<times> 32 word \<times> 64 word \<Rightarrow> 'ty InstanceTypeInfo" where
  "instanceTypeInfo_of_aws info =
     (case info of (ty, cores, mib) \<Rightarrow> \<lparr>it_type = ty, it_capacity = SlotCapacity (size_of_int cores) mib\<rparr>)"

text \<open>The loop over the pages; a service that never answers an empty token keeps it running.\<close>

partial_function (option) describe_types_loop ::
    "('ty, 'c) ec2 \<Rightarrow> filters \<Rightarrow> string \<Rightarrow> 'ty InstanceTypeInfo list \<Rightarrow> 'c \<Rightarrow> ('ty InstanceTypeInfo list result \<times> 'c) option" where
  "describe_types_loop ec2 fs token infos c =
     (case ec2_DescribeInstanceTypes ec2 fs token c of
        (Inl msg, c') \<Rightarrow> Some (Inl (RuntimeException (''Failed to describe instance types: '' @ msg)), c')
      | (Inr (page, next_token), c') \<Rightarrow>
          if next_token = [] then Some (Inr (infos @ map instanceTypeInfo_of_aws page), c')
          else describe_types_loop ec2 fs next_token (infos @ map instanceTypeInfo_of_aws page) c')"

definition describeInstanceTypes ::
    "('ty, 'c) ec2 \<Rightarrow> string \<Rightarrow> 'c \<Rightarrow> ('ty InstanceTypeInfo list result \<times> 'c) option" where
  "describeInstanceTypes ec2 instanceClass c =
     describe_types_loop ec2 [(''instance-type'', [instanceClass @ ''*''])] [] [] c"

definition createAwsInstancesConfig ::
    "environment \<Rightarrow> ('ty, 'c) ec2 \<Rightarrow> 'c \<Rightarrow> ('ty AwsInstancesConfig result \<times> 'c) option" where
  "createAwsInstancesConfig env ec2 c =
     (case describeInstanceTypes ec2 (getFromEnvOrDefault_str env ''VMS_AWS_INSTANCE_CLASS'' ''c6g.'') c of
        None \<Rightarrow> None
      | Some (Inl e, c') \<Rightarrow> Some (Inl e, c')
      | Some (Inr infos, c') \<Rightarrow>
          Some (case (getFromEnvOrThrow env ''VMS_ADDRESS'', getFromEnvOrThrow env ''VMS_AGENT_ECR_ACCESS_KEY_ID'',
                      getFromEnvOrThrow env ''VMS_AGENT_ECR_SECRET_KEY'') of
                  (Inr address, Inr key, Inr secret) \<Rightarrow>
                    Inr \<lparr>aws_amiId = getFromEnvOrDefault_str env ''AWS_EC2_AMI_ID'' ''ami-0aaa7d236c8b7d9b9'',
                         aws_vmTypes = std_sort InstanceTypeInfo_less infos,
                         aws_vmTags = getVmTags,
                         aws_tokenPrefix = getFromEnvOrDefault_str env ''VMS_AWS_VM_TOKEN_PREFIX'' ''vms-prod'',
                         aws_agentDockerImageVersion =
                           getFromEnvOrDefault_str env ''VMS_AGENT_DOCKER_IMAGE_VERSION'' ''latest'',
                         aws_vmsAddress = address,
                         aws_creds = \<lparr>ecr_accessKeyId = key, ecr_secretKey = secret\<rparr>,
                         aws_useSpot = (getFromEnvOrDefault env ''VMS_USE_SPOT'' 0 \<noteq> 0)\<rparr>
                | (Inl e, _, _) \<Rightarrow> Inl e
                | (Inr _, Inl e, _) \<Rightarrow> Inl e
                | (Inr _, Inr _, Inl e) \<Rightarrow> Inl e, c'))"

text \<open>The constructor; the credentials are read first, as its default argument.\<close>

definition AwsCloudClient_init ::
    "environment \<Rightarrow> ('ty, 'c) ec2 \<Rightarrow> 'c \<Rightarrow> ('ty AwsInstancesConfig result \<times> 'c) option" where
  "AwsCloudClient_init env ec2 c =
     (case createAwsClientConfig env of Inl e \<Rightarrow> Some (Inl e, c) | Inr _ \<Rightarrow> createAwsInstancesConfig env ec2 c)"

section \<open>Choosing an instance type\<close>

text \<open>Without instance types \<^verbatim>\<open>rbegin()\<close> is dereferenced at the end: \<open>None\<close>.\<close>

definition getInstanceTypeForSlot :: "'ty InstanceTypeInfo list \<Rightarrow> SlotCapacity \<Rightarrow> 'ty option" where
  "getInstanceTypeForSlot vmTypeInfos slot =
     (let it = lower_bound (\<lambda>vmTypeInfo. it_capacity vmTypeInfo < slot) vmTypeInfos
      in if it = length vmTypeInfos
         then (if vmTypeInfos = [] then None else Some (it_type (last vmTypeInfos)))
         else Some (it_type (vmTypeInfos ! it)))"

definition getPossibleSlots :: "'ty AwsInstancesConfig \<Rightarrow> SlotCapacity list" where
  "getPossibleSlots vmConfig = map it_capacity (aws_vmTypes vmConfig)"

section \<open>Creating, starting and terminating\<close>

definition convertAwsVmInfoToVmInfo :: "('ty, 'c) ec2 \<Rightarrow> 'ty \<times> string \<Rightarrow> AllocatedVmInfo" where
  "convertAwsVmInfoToVmInfo ec2 info = \<lparr>ai_id = snd info, ai_type = ec2_name ec2 (fst info)\<rparr>"

definition user_data_script :: "string \<Rightarrow> string \<Rightarrow> AgentEcrCredentials \<Rightarrow> VmId \<Rightarrow> string" where
  "user_data_script agentDockerImageVersion vmsAddress creds vmId =
     ''#!/bin/bash'' @ [CHR 0x0A] @
     ''set -e -x'' @ [CHR 0x0A] @
     ''aws configure set aws_access_key_id '' @ ecr_accessKeyId creds @ [CHR 0x0A] @
     ''aws configure set aws_secret_access_key {'' @ ecr_secretKey creds @ [CHR 0x0A] @
     ''aws configure set default.region us-east-2'' @ [CHR 0x0A] @
     ''aws configure set default.output json'' @ [CHR 0x0A] @
     ''sudo aws ecr get-login-password --region us-east-2 | '' @
     ''sudo docker login --username AWS --password-stdin 545868914688.dkr.ecr.us-east-2.amazonaws.com'' @ [CHR 0x0A] @
     ''sudo docker run -e VMS_AGENT_SERVER_ADDRESS='' @ vmsAddress @
     ''-e VMS_AGENT_VM_ID='' @ show_int vmId @
     ''-e VMS_AGENT_AWS_ACCESS_KEY_ID='' @ ecr_accessKeyId creds @
     ''-e VMS_AGENT_AWS_SECRET_ACCESS_KEY='' @ ecr_secretKey creds @
     ''-e VMS_AGENT_AWS_REGION=us-east-2'' @
     ''-e VMS_AGENT_AWS_BUCKET=vms-job-results'' @
     '' --network host 545868914688.dkr.ecr.us-east-2.amazonaws.com/vm-agent:'' @
     agentDockerImageVersion @ [CHR 0x0A]"

definition getUserData :: "string \<Rightarrow> string \<Rightarrow> AgentEcrCredentials \<Rightarrow> VmId \<Rightarrow> string option" where
  "getUserData agentDockerImageVersion vmsAddress creds vmId =
     base64Encode (user_data_script agentDockerImageVersion vmsAddress creds vmId)"

definition createRunRequest ::
    "string \<Rightarrow> 'ty AwsInstancesConfig \<Rightarrow> 'ty \<Rightarrow> VmId \<Rightarrow> bool \<Rightarrow> 'ty RunInstancesRequest option" where
  "createRunRequest vmToken config vmType vmId useSpot =
     map_option (\<lambda>userData.
       \<lparr>rr_instanceType = vmType, rr_availabilityZone = ''us-east-2a'', rr_imageId = aws_amiId config,
        rr_tags = aws_vmTags config, rr_clientToken = vmToken, rr_userData = userData,
        rr_iamInstanceProfile = ''vmsAgentExecutorRole'', rr_keyName = ''vms_instance'',
        rr_minCount = 1, rr_maxCount = 1, rr_spot = useSpot\<rparr>)
     (getUserData (aws_agentDockerImageVersion config) (aws_vmsAddress config) (aws_creds config) vmId)"

definition createInstance ::
    "('ty, 'c) ec2 \<Rightarrow> 'ty AwsInstancesConfig \<Rightarrow> string \<Rightarrow> 'ty \<Rightarrow> VmId \<Rightarrow> 'c \<Rightarrow> (('ty \<times> string) result \<times> 'c) option" where
  "createInstance ec2 vmConfig vmToken vmType vmId c =
     map_option (\<lambda>request.
       case ec2_RunInstances ec2 request c of
         (Inl msg, c') \<Rightarrow>
           (Inl (AllocationException (''Failed to start ec2 vm '' @ ec2_name ec2 (rr_instanceType request) @ '' based on ami '' @
              rr_imageId request @ '' in region '' @ rr_availabilityZone request @ '': '' @ msg)), c')
       | (Inr [], c') \<Rightarrow>
           (Inl (AllocationException (''Failed to create ec2 vm '' @ ec2_name ec2 (rr_instanceType request) @ '' based on ami '' @
              rr_imageId request @ '': empty vms list'')), c')
       | (Inr (awsVmId # _), c') \<Rightarrow> (Inr (vmType, awsVmId), c'))
     (createRunRequest vmToken vmConfig vmType vmId (aws_useSpot vmConfig))"

definition startInstance :: "('ty, 'c) ec2 \<Rightarrow> 'ty \<times> string \<Rightarrow> 'c \<Rightarrow> unit result \<times> 'c" where
  "startInstance ec2 vmInfo c =
     (case ec2_StartInstances ec2 (snd vmInfo) c of
        (Inr _, c') \<Rightarrow> (Inr (), c')
      | (Inl msg, c') \<Rightarrow> (Inl (AllocationException (''Failed to start vm: '' @ snd vmInfo @ '': '' @ msg)), c'))"

definition AwsCloudClient_terminate :: "('ty, 'c) ec2 \<Rightarrow> CloudVmId \<Rightarrow> 'c \<Rightarrow> unit result \<times> 'c" where
  "AwsCloudClient_terminate ec2 cloudVmId c =
     (case ec2_TerminateInstances ec2 cloudVmId c of
        (Inr _, c') \<Rightarrow> (Inr (), c')
      | (Inl msg, c') \<Rightarrow> (Inl (AllocationException (''Failed to terminate ec2 vm '' @ cloudVmId @ msg)), c'))"

definition allocate_type ::
    "('ty, 'c) ec2 \<Rightarrow> 'ty AwsInstancesConfig \<Rightarrow> VmId \<Rightarrow> 'ty \<Rightarrow> 'c \<Rightarrow> (('ty \<times> string) result \<times> 'c) option" where
  "allocate_type ec2 vmConfig vmId vmType c =
     map_option (\<lambda>created. case created of
         (Inl e, c1) \<Rightarrow> (Inl e, c1)
       | (Inr vmInfo, c1) \<Rightarrow>
           (case startInstance ec2 vmInfo c1 of
              (Inr _, c2) \<Rightarrow> (Inr vmInfo, c2)
            | (Inl e, c2) \<Rightarrow>
                (case AwsCloudClient_terminate ec2 (snd vmInfo) c2 of
                   (Inl e', c3) \<Rightarrow> (Inl (AllocationException (''Allocation failed: vm start failed: '' @ what e @
                      '', then vm termination failed'' @ what e')), c3)
                 | (Inr _, c3) \<Rightarrow> (Inl (AllocationException
                      (''Allocation failed: vm start failed, while vm was successfully terminated: '' @ what e)), c3))))
     (createInstance ec2 vmConfig (aws_tokenPrefix vmConfig @ ''-'' @ show_int vmId) vmType vmId c)"

definition AwsCloudClient_allocate ::
    "('ty, 'c) ec2 \<Rightarrow> 'ty AwsInstancesConfig \<Rightarrow> VmId \<Rightarrow> SlotCapacity \<Rightarrow> 'c \<Rightarrow> (AllocatedVmInfo result \<times> 'c) option" where
  "AwsCloudClient_allocate ec2 vmConfig vmId slot c =
     (case getInstanceTypeForSlot (aws_vmTypes vmConfig) slot of
        None \<Rightarrow> None
      | Some vmType \<Rightarrow>
          map_option (\<lambda>result. case result of
              (Inr vmInfo, c') \<Rightarrow> (Inr (convertAwsVmInfoToVmInfo ec2 vmInfo), c')
            | (Inl e, c') \<Rightarrow> (Inl e, c'))
          (allocate_type ec2 vmConfig vmId vmType c))"

section \<open>Listing what runs\<close>

definition instances_request :: "(string, string) umap \<Rightarrow> filters" where
  "instances_request tags =
     map (\<lambda>(key, tag). (''tag:'' @ key, [tag])) tags @ [(''instance-state-name'', [''pending'', ''running''])]"

text \<open>Insertion into the hash set of the result.\<close>

definition add_info :: "AllocatedVmInfo \<Rightarrow> AllocatedVmInfo list \<Rightarrow> AllocatedVmInfo list" where
  "add_info info infos = (if info \<in> set infos then infos else infos @ [info])"

definition add_page :: "('ty, 'c) ec2 \<Rightarrow> ('ty \<times> string) list list \<Rightarrow> AllocatedVmInfo list \<Rightarrow> AllocatedVmInfo list" where
  "add_page ec2 reservations infos =
     fold (\<lambda>instances. fold (\<lambda>info. add_info (convertAwsVmInfoToVmInfo ec2 info)) instances) reservations infos"

partial_function (option) describe_loop ::
    "('ty, 'c) ec2 \<Rightarrow> filters \<Rightarrow> string \<Rightarrow> AllocatedVmInfo list \<Rightarrow> 'c \<Rightarrow> (AllocatedVmInfo list result \<times> 'c) option" where
  "describe_loop ec2 fs token infos c =
     (case ec2_DescribeInstances ec2 fs token c of
        (Inl msg, c') \<Rightarrow> Some (Inl (RuntimeException (''Failed to describe instances: '' @ msg)), c')
      | (Inr (reservations, next_token), c') \<Rightarrow>
          if next_token = [] then Some (Inr (add_page ec2 reservations infos), c')
          else describe_loop ec2 fs next_token (add_page ec2 reservations infos) c')"

definition describeInstances :: "('ty, 'c) ec2 \<Rightarrow> (string, string) umap \<Rightarrow> 'c \<Rightarrow> (AllocatedVmInfo list result \<times> 'c) option" where
  "describeInstances ec2 tags c = describe_loop ec2 (instances_request tags) [] [] c"

definition AwsCloudClient_getAllAllocatedVms ::
    "('ty, 'c) ec2 \<Rightarrow> 'ty AwsInstancesConfig \<Rightarrow> 'c \<Rightarrow> (AllocatedVmInfo list result \<times> 'c) option" where
  "AwsCloudClient_getAllAllocatedVms ec2 vmConfig c = describeInstances ec2 (aws_vmTags vmConfig) c"

end
