(* ===== verification/AwsSpec.thy ===== *)
theory AwsSpec
  imports Aws Services
begin

text \<open>
  What the scheduler and the allocator rely on in the AWS client: the sizes it offers are sorted and each is
  the size of the instance type it later chooses, an allocation accounts for the instance it
  created, and a listing contains all pages.
\<close>

section \<open>Offered sizes\<close>

lemma createAwsInstancesConfig_sorted:
  assumes "createAwsInstancesConfig env ec2 c = Some (Inr cfg, c')"
  shows "ascends InstanceTypeInfo_less (aws_vmTypes cfg)"
proof -
  have "strict_weak (InstanceTypeInfo_less :: 'a InstanceTypeInfo \<Rightarrow> _)"
    unfolding InstanceTypeInfo_less_def by (rule strict_weak_key(1))
  then show ?thesis
    using assms std_sort.ascends_srt unfolding createAwsInstancesConfig_def
    by (auto split: option.splits sum.splits prod.splits)
qed

lemma ascends_sorted: "ascends InstanceTypeInfo_less infos \<longleftrightarrow> sorted (map it_capacity infos)"
  by (simp add: sorted_wrt_map InstanceTypeInfo_less_def not_less)

lemma getInstanceTypeForSlot_offered:
  assumes "ascends InstanceTypeInfo_less infos" and "slot \<in> it_capacity ` set infos"
  shows "\<exists>info \<in> set infos. it_capacity info = slot \<and> getInstanceTypeForSlot infos slot = Some (it_type info)"
proof -
  let ?before = "\<lambda>info :: 'a InstanceTypeInfo. it_capacity info < slot"
  let ?it = "lower_bound ?before infos"
  obtain k where k: "k < length infos" "it_capacity (infos ! k) = slot"
    using assms(2) by (metis image_iff in_set_conv_nth)
  have mono: "it_capacity (infos ! i) \<le> it_capacity (infos ! j)" if "i < j" "j < length infos" for i j
    using sorted_wrt_nth_less [OF assms(1) that] by (simp add: InstanceTypeInfo_less_def not_less)
  have le: "?it \<le> k"
  proof (rule ccontr)
    assume "\<not> ?it \<le> k"
    moreover have "it_capacity (infos ! i) < slot" if "i < j" "j < length infos" "it_capacity (infos ! j) < slot" for i j
      using mono [OF that(1,2)] that(3) by (rule le_less_trans)
    ultimately have "it_capacity (infos ! k) < slot" using lower_bound_partitioned [of infos ?before k] by simp
    then show False using k(2) by simp
  qed
  then have it: "?it < length infos" using k(1) by linarith
  have "it_capacity (infos ! ?it) \<le> slot" using mono [of ?it k] le k by (cases "?it = k") auto
  then have "it_capacity (infos ! ?it) = slot" using lower_bound_hit [OF it] by simp
  moreover have "getInstanceTypeForSlot infos slot = Some (it_type (infos ! ?it))"
    using it by (simp add: getInstanceTypeForSlot_def Let_def)
  ultimately show ?thesis using it nth_mem by blast
qed

text \<open>
  C37. From the provider's sizes to a plan and back: where the client could be set up and knows
  instance types, the scheduler accepts the sizes it offers, and every new slot planned over them is
  later allocated as an instance type of exactly the size the plan assumes.
\<close>

theorem planned_slots_have_types:
  assumes init: "AwsCloudClient_init env ec2 c = Some (Inr cfg, c')" and some: "aws_vmTypes cfg \<noteq> []"
    and jobs: "distinct (map qj_id jobs)"
  shows "Scheduler_init (getPossibleSlots cfg) = Inr (getPossibleSlots cfg) \<and>
     (\<exists>assignments slotMap. select (getPossibleSlots cfg) jobs = Some (assignments, slotMap) \<and>
        (\<forall>(i, s) \<in> set slotMap. \<exists>info \<in> set (aws_vmTypes cfg). it_capacity info = total s \<and>
           getInstanceTypeForSlot (aws_vmTypes cfg) (total s) = Some (it_type info)))"
proof -
  have asc: "ascends InstanceTypeInfo_less (aws_vmTypes cfg)"
    using init createAwsInstancesConfig_sorted by (auto simp: AwsCloudClient_init_def split: sum.splits)
  have possible: "getPossibleSlots cfg \<noteq> []" using some by (simp add: getPossibleSlots_def)
  obtain ns queue st where sel: "select (getPossibleSlots cfg) jobs = Some (job_assignments ns, slot_map ns)"
    and tot: "\<forall>p \<in># mset ns. total (fst p) \<in> set (getPossibleSlots cfg)"
    by (rule select_spec [OF possible_closed _ possible jobs]) auto
  have "\<exists>info \<in> set (aws_vmTypes cfg). it_capacity info = total s \<and>
      getInstanceTypeForSlot (aws_vmTypes cfg) (total s) = Some (it_type info)" if "(i, s) \<in> set (slot_map ns)" for i s
  proof -
    have "s \<in> set (map snd (slot_map ns))" using that by force
    then obtain p where "p \<in> set ns" "s = fst p" unfolding slot_map_snd by auto
    then have "total s \<in> it_capacity ` set (aws_vmTypes cfg)" using tot by (simp add: getPossibleSlots_def)
    then show ?thesis by (rule getInstanceTypeForSlot_offered [OF asc])
  qed
  moreover have "sorted (getPossibleSlots cfg)" using asc by (simp add: ascends_sorted getPossibleSlots_def)
  ultimately show ?thesis using sel possible by (auto simp: Scheduler_init_def)
qed

section \<open>Accounting of an allocation\<close>

text \<open>
  What the documentation of EC2 says of the three calls. \<open>paid c\<close> are the instances that are not terminated, \<open>tok vm\<close> is the client token an
  instance was launched with. \<^verbatim>\<open>RunInstances\<close> is idempotent in its token: what it lists, at most \<^verbatim>\<open>MaxCount\<close> instances, was launched
  with the token of the request, by this call or by an earlier one, and nothing else is launched; when it fails, or
  its answer is lost, an instance with that token may have been launched. Starting launches and terminates
  none, and succeeds only for an instance that is not terminated. A successful termination ends the instance; a failed one may have.
\<close>

definition ec2_laws :: "('ty, 'c) ec2 \<Rightarrow> ('c \<Rightarrow> string set) \<Rightarrow> (string \<Rightarrow> string) \<Rightarrow> bool" where
  "ec2_laws ec2 paid tok \<longleftrightarrow>
     (\<forall>req c msg c'. ec2_RunInstances ec2 req c = (Inl msg, c') \<longrightarrow>
        paid c \<subseteq> paid c' \<and> (\<forall>vm \<in> paid c' - paid c. tok vm = rr_clientToken req)) \<and>
     (\<forall>req c ids c'. ec2_RunInstances ec2 req c = (Inr ids, c') \<longrightarrow>
        paid c \<subseteq> paid c' \<and> paid c' \<subseteq> paid c \<union> set ids \<and> (\<forall>vm \<in> set ids. tok vm = rr_clientToken req) \<and> length ids \<le> rr_maxCount req) \<and>
     (\<forall>vm c r c'. ec2_StartInstances ec2 vm c = (r, c') \<longrightarrow> paid c' = paid c \<and> (case r of Inl _ \<Rightarrow> True | Inr _ \<Rightarrow> vm \<in> paid c)) \<and>
     (\<forall>vm c r c'. ec2_TerminateInstances ec2 vm c = (r, c') \<longrightarrow>
        (case r of Inl _ \<Rightarrow> paid c' = paid c \<or> paid c' = paid c - {vm} | Inr _ \<Rightarrow> paid c' = paid c - {vm}))"

lemma ec2_lawsD:
  assumes "ec2_laws ec2 paid tok"
  shows "ec2_RunInstances ec2 req c = (Inl msg, c') \<Longrightarrow> paid c \<subseteq> paid c' \<and> (\<forall>vm \<in> paid c' - paid c. tok vm = rr_clientToken req)"
    "ec2_RunInstances ec2 req c = (Inr ids, c') \<Longrightarrow> paid c \<subseteq> paid c' \<and> paid c' \<subseteq> paid c \<union> set ids \<and>
       (\<forall>vm \<in> set ids. tok vm = rr_clientToken req) \<and> length ids \<le> rr_maxCount req"
    "ec2_StartInstances ec2 vm c = (r, c') \<Longrightarrow> paid c' = paid c"
    "ec2_StartInstances ec2 vm c = (Inr u, c') \<Longrightarrow> vm \<in> paid c"
    "ec2_TerminateInstances ec2 vm c = (Inl msg, c') \<Longrightarrow> paid c' = paid c \<or> paid c' = paid c - {vm}"
    "ec2_TerminateInstances ec2 vm c = (Inr u, c') \<Longrightarrow> paid c' = paid c - {vm}"
  using assms unfolding ec2_laws_def by (blast, blast, blast, fastforce+)

lemma createRunRequest_ok:
  assumes "length (user_data_script (aws_agentDockerImageVersion cfg) (aws_vmsAddress cfg) (aws_creds cfg) vmId) < 2 ^ 64"
  shows "\<exists>req. createRunRequest token cfg ty vmId spot = Some req \<and> rr_maxCount req = 1 \<and> rr_clientToken req = token"
proof -
  let ?script = "user_data_script (aws_agentDockerImageVersion cfg) (aws_vmsAddress cfg) (aws_creds cfg) vmId"
  have "2 \<le> length ?script" by (simp add: user_data_script_def)
  then have "base64Encode ?script = Some (enc64 ?script)" using assms by (rule base64Encode_enc64)
  then show ?thesis by (simp add: createRunRequest_def getUserData_def)
qed

text \<open>The instance a successful creation is about is the only one the account may pay for beyond what it did.\<close>

lemma createInstance_accounts:
  assumes laws: "ec2_laws ec2 paid tok"
    and short: "length (user_data_script (aws_agentDockerImageVersion cfg) (aws_vmsAddress cfg) (aws_creds cfg) vmId) < 2 ^ 64"
  obtains req msg e c' where "createInstance ec2 cfg token ty vmId c = Some (Inl e, c')" "ec2_RunInstances ec2 req c = (Inl msg, c')"
      "paid c \<subseteq> paid c'" "\<forall>vm \<in> paid c' - paid c. tok vm = token"
  | e c' where "createInstance ec2 cfg token ty vmId c = Some (Inl e, c')" "paid c' = paid c"
  | vm c' where "createInstance ec2 cfg token ty vmId c = Some (Inr (ty, vm), c')" "paid c \<subseteq> paid c'" "paid c' \<subseteq> insert vm (paid c)" "tok vm = token"
proof -
  obtain req where req: "createRunRequest token cfg ty vmId (aws_useSpot cfg) = Some req" "rr_maxCount req = 1" "rr_clientToken req = token"
    using createRunRequest_ok [OF short] by blast
  obtain r c' where run: "ec2_RunInstances ec2 req c = (r, c')" by fastforce
  show thesis
  proof (cases r)
    case (Inl msg)
    then show thesis using that(1) [of _ c' req msg] req run ec2_lawsD(1) [OF laws, of req c msg c'] by (simp add: createInstance_def)
  next
    case (Inr ids)
    then have ids: "paid c \<subseteq> paid c'" "paid c' \<subseteq> paid c \<union> set ids" "\<forall>vm \<in> set ids. tok vm = token" "length ids \<le> 1"
      using ec2_lawsD(2) [OF laws, of req c ids c'] run req(2,3) by auto
    show thesis
    proof (cases ids)
      case Nil
      then show thesis using that(2) [of _ c'] Inr req run ids by (simp add: createInstance_def)
    next
      case (Cons vm rest)
      then have "rest = []" using ids(4) by simp
      then show thesis using that(3) [of vm c'] Cons Inr req run ids by (simp add: createInstance_def)
    qed
  qed
qed

text \<open>What a failed start of a created instance comes to.\<close>

lemma allocate_start_failed:
  assumes laws: "ec2_laws ec2 paid tok" and ty: "getInstanceTypeForSlot (aws_vmTypes cfg) slot = Some ty"
    and created: "createInstance ec2 cfg (aws_tokenPrefix cfg @ ''-'' @ show_int vmId) ty vmId c = Some (Inr (ty, vm), c1)"
    and start: "ec2_StartInstances ec2 vm c1 = (Inl msg, c2)"
  shows "\<exists>e c'. AwsCloudClient_allocate ec2 cfg vmId slot c = Some (Inl e, c') \<and>
     (paid c' = paid c1 - {vm} \<or> paid c' = paid c1 \<and> (\<exists>msg c0. ec2_TerminateInstances ec2 vm c0 = (Inl msg, c')))"
proof -
  obtain r c' where stop: "ec2_TerminateInstances ec2 vm c2 = (r, c')" by fastforce
  have "\<exists>e. AwsCloudClient_allocate ec2 cfg vmId slot c = Some (Inl e, c')"
    using created start stop
    by (cases r) (simp_all add: AwsCloudClient_allocate_def allocate_type_def startInstance_def AwsCloudClient_terminate_def ty)
  moreover have "paid c' = paid c1 - {vm} \<or> paid c' = paid c1 \<and> (\<exists>msg. r = Inl msg)"
    using ec2_lawsD(5,6) [OF laws, of vm c2] stop ec2_lawsD(3) [OF laws start] by (cases r) fastforce+
  ultimately show ?thesis using stop by blast
qed

text \<open>
  C38. An allocation on a client that knows instance types returns, and touches no instance but those launched with the
  client token of the VM. When it succeeds, the account pays for the instance it returns, of the chosen type, and
  for no other instance that it did not pay for before (it may be the instance of an earlier attempt). When it fails, the
  account pays for nothing new, unless \<^verbatim>\<open>RunInstances\<close> itself failed, so that its outcome is not known, or the last call, the
  termination of the instance it could not start, failed too.
\<close>

theorem aws_allocate_accounts:
  assumes laws: "ec2_laws ec2 paid tok" and some: "aws_vmTypes cfg \<noteq> []"
    and short: "length (user_data_script (aws_agentDockerImageVersion cfg) (aws_vmsAddress cfg) (aws_creds cfg) vmId) < 2 ^ 64"
  shows "\<exists>r c'. AwsCloudClient_allocate ec2 cfg vmId slot c = Some (r, c') \<and>
     (\<forall>vm. tok vm \<noteq> aws_tokenPrefix cfg @ ''-'' @ show_int vmId \<longrightarrow> (vm \<in> paid c' \<longleftrightarrow> vm \<in> paid c)) \<and>
     (case r of
        Inr info \<Rightarrow> paid c' = insert (ai_id info) (paid c) \<and> tok (ai_id info) = aws_tokenPrefix cfg @ ''-'' @ show_int vmId \<and>
          Some (ai_type info) = map_option (ec2_name ec2) (getInstanceTypeForSlot (aws_vmTypes cfg) slot)
      | Inl _ \<Rightarrow> paid c' \<subseteq> paid c \<or> (\<exists>req msg. ec2_RunInstances ec2 req c = (Inl msg, c')) \<or>
          (\<exists>vm msg c0. ec2_TerminateInstances ec2 vm c0 = (Inl msg, c') \<and> paid c' \<subseteq> insert vm (paid c)))"
proof -
  define token where "token = aws_tokenPrefix cfg @ ''-'' @ show_int vmId"
  obtain ty where ty: "getInstanceTypeForSlot (aws_vmTypes cfg) slot = Some ty"
    using some by (cases "getInstanceTypeForSlot (aws_vmTypes cfg) slot") (auto simp: getInstanceTypeForSlot_def Let_def split: if_splits)
  show ?thesis
  proof (rule createInstance_accounts [OF laws short, where token = token and ty = ty and c = c])
    fix req msg e c'
    assume "createInstance ec2 cfg token ty vmId c = Some (Inl e, c')" "ec2_RunInstances ec2 req c = (Inl msg, c')"
      "paid c \<subseteq> paid c'" "\<forall>vm \<in> paid c' - paid c. tok vm = token"
    then show ?thesis
      unfolding token_def by (intro exI [of _ "Inl e"] exI [of _ c']) (auto simp: AwsCloudClient_allocate_def allocate_type_def ty)
  next
    fix e c' assume "createInstance ec2 cfg token ty vmId c = Some (Inl e, c')" "paid c' = paid c"
    then show ?thesis
      unfolding token_def by (intro exI [of _ "Inl e"] exI [of _ c']) (auto simp: AwsCloudClient_allocate_def allocate_type_def ty)
  next
    fix vm c1 assume created: "createInstance ec2 cfg token ty vmId c = Some (Inr (ty, vm), c1)"
      "paid c \<subseteq> paid c1" "paid c1 \<subseteq> insert vm (paid c)" "tok vm = token"
    obtain r c2 where start: "ec2_StartInstances ec2 vm c1 = (r, c2)" by fastforce
    show ?thesis
    proof (cases r)
      case (Inr u)
      have "paid c2 = insert vm (paid c)"
        using ec2_lawsD(3) [OF laws start] ec2_lawsD(4) [OF laws start [unfolded Inr]] created(2,3) by blast
      moreover have "AwsCloudClient_allocate ec2 cfg vmId slot c = Some (Inr (convertAwsVmInfoToVmInfo ec2 (ty, vm)), c2)"
        using created(1) start Inr unfolding token_def
        by (simp add: AwsCloudClient_allocate_def allocate_type_def startInstance_def ty)
      ultimately show ?thesis using created(4) unfolding token_def by (auto simp: convertAwsVmInfoToVmInfo_def ty)
    next
      case (Inl msg)
      obtain e c' where run: "AwsCloudClient_allocate ec2 cfg vmId slot c = Some (Inl e, c')"
        and paid: "paid c' = paid c1 - {vm} \<or> paid c' = paid c1 \<and> (\<exists>msg c0. ec2_TerminateInstances ec2 vm c0 = (Inl msg, c'))"
        using allocate_start_failed [OF laws ty created(1) [unfolded token_def] start [unfolded Inl]] by blast
      have "vm' \<in> paid c' \<longleftrightarrow> vm' \<in> paid c" if "tok vm' \<noteq> token" for vm'
        using paid created(2-4) that by blast
      moreover have "paid c' \<subseteq> paid c \<or> (\<exists>vm msg c0. ec2_TerminateInstances ec2 vm c0 = (Inl msg, c') \<and> paid c' \<subseteq> insert vm (paid c))"
        using paid created(3) by blast
      ultimately show ?thesis using run unfolding token_def by (intro exI [of _ "Inl e"] exI [of _ c']) auto
    qed
  qed
qed

section \<open>All pages of a listing\<close>

text \<open>
  \<open>pages ec2 fs token ps c c'\<close>: from state \<open>c\<close> the service answers the requests that start with
  \<open>token\<close> by the pages \<open>ps\<close>, the last one with an empty token.
\<close>

fun pages :: "('ty, 'c) ec2 \<Rightarrow> filters \<Rightarrow> string \<Rightarrow> ('ty \<times> string) list list list \<Rightarrow> 'c \<Rightarrow> 'c \<Rightarrow> bool" where
  "pages ec2 fs token [] c c' = False"
| "pages ec2 fs token (p # ps) c c' =
     (case ec2_DescribeInstances ec2 fs token c of
        (Inl _, _) \<Rightarrow> False
      | (Inr (q, next_token), c1) \<Rightarrow>
          q = p \<and> (if next_token = [] then ps = [] \<and> c' = c1 else pages ec2 fs next_token ps c1 c'))"

lemma set_add_page: "set (add_page ec2 p infos) = set infos \<union> convertAwsVmInfoToVmInfo ec2 ` set (concat p)"
proof -
  have inner: "set (fold (\<lambda>info. add_info (convertAwsVmInfoToVmInfo ec2 info)) xs infos) =
      set infos \<union> convertAwsVmInfoToVmInfo ec2 ` set xs" for xs infos
    by (induction xs arbitrary: infos) (auto simp: add_info_def)
  show ?thesis unfolding add_page_def by (induction p arbitrary: infos) (auto simp: inner)
qed

lemma describe_loop_pages:
  "pages ec2 fs token ps c c' \<Longrightarrow>
   \<exists>infos'. describe_loop ec2 fs token infos c = Some (Inr infos', c') \<and>
     set infos' = set infos \<union> convertAwsVmInfoToVmInfo ec2 ` set (concat (concat ps))"
proof (induction ps arbitrary: token infos c)
  case (Cons p ps)
  obtain next_token c1 where ans: "ec2_DescribeInstances ec2 fs token c = (Inr (p, next_token), c1)"
      "if next_token = [] then ps = [] \<and> c' = c1 else pages ec2 fs next_token ps c1 c'"
    using Cons.prems by (auto split: prod.splits sum.splits)
  show ?case
  proof (cases "next_token = []")
    case True
    then show ?thesis using ans by (subst describe_loop.simps) (simp add: set_add_page)
  next
    case False
    then have "pages ec2 fs next_token ps c1 c'" using ans(2) by simp
    then obtain infos' where "describe_loop ec2 fs next_token (add_page ec2 p infos) c1 = Some (Inr infos', c')"
        "set infos' = set (add_page ec2 p infos) \<union> convertAwsVmInfoToVmInfo ec2 ` set (concat (concat ps))"
      using Cons.IH by blast
    then show ?thesis
      using ans(1) False by (subst describe_loop.simps) (auto simp: set_add_page image_Un)
  qed
qed simp

text \<open>A listing whose pages end is read to its end and holds every instance of every page.\<close>

lemma describeInstances_all_pages:
  assumes "pages ec2 (instances_request tags) [] ps c c'"
  shows "\<exists>infos. describeInstances ec2 tags c = Some (Inr infos, c') \<and>
     set infos = convertAwsVmInfoToVmInfo ec2 ` set (concat (concat ps))"
  using describe_loop_pages [OF assms, of "[]"] by (simp add: describeInstances_def)

section \<open>Examples\<close>

text \<open>
  A service that keeps the list of its running instances, launches one instance for each client token, and offers three types
  on two pages.
\<close>

definition ex_ec2 :: "(nat, string list) ec2" where
  "ex_ec2 = \<lparr>ec2_name = (\<lambda>ty. ''c6g.'' @ show_nat ty),
     ec2_RunInstances = (\<lambda>req c. if rr_maxCount req = 0 then (Inl ''InvalidParameterValue'', c)
        else (Inr [''i-'' @ rr_clientToken req], List.insert (''i-'' @ rr_clientToken req) c)),
     ec2_StartInstances = (\<lambda>vm c. if vm \<in> set c then (Inr (), c) else (Inl ''InvalidInstanceID'', c)),
     ec2_TerminateInstances = (\<lambda>vm c. (Inr (), removeAll vm c)),
     ec2_DescribeInstances = (\<lambda>fs token c. (Inr ([map (Pair 0) c], []), c)),
     ec2_DescribeInstanceTypes = (\<lambda>fs token c.
        if token = [] then (Inr ([(3, 4, 16), (1, 1, 4)], ''page-2''), c) else (Inr ([(2, 2, 8)], []), c))\<rparr>"

definition ex_aws_env :: environment where
  "ex_aws_env = map_of [(''AWS_EC2_ACCESS_KEY_ID'', ''key''), (''AWS_EC2_SECRET_KEY'', ''secret''),
     (''VMS_ADDRESS'', ''10.0.0.1:50001''), (''VMS_AGENT_ECR_ACCESS_KEY_ID'', ''agent''),
     (''VMS_AGENT_ECR_SECRET_KEY'', ''agent-secret'')]"

definition ex_aws :: "nat AwsInstancesConfig" where
  "ex_aws = \<lparr>aws_amiId = ''ami-0aaa7d236c8b7d9b9'',
     aws_vmTypes = [\<lparr>it_type = 1, it_capacity = SlotCapacity 1 4\<rparr>, \<lparr>it_type = 2, it_capacity = SlotCapacity 2 8\<rparr>,
       \<lparr>it_type = 3, it_capacity = SlotCapacity 4 16\<rparr>],
     aws_vmTags = getVmTags, aws_tokenPrefix = ''vms-prod'', aws_agentDockerImageVersion = ''latest'',
     aws_vmsAddress = ''10.0.0.1:50001'', aws_creds = \<lparr>ecr_accessKeyId = ''agent'', ecr_secretKey = ''agent-secret''\<rparr>,
     aws_useSpot = False\<rparr>"

lemma ex_aws_init: "AwsCloudClient_init ex_aws_env ex_ec2 c = Some (Inr ex_aws, c)"
proof -
  have "describeInstanceTypes ex_ec2 ''c6g.'' c = Some (Inr (map instanceTypeInfo_of_aws [(3, 4, 16), (1, 1, 4), (2, 2, 8)]), c)"
    unfolding describeInstanceTypes_def by (subst describe_types_loop.simps, subst describe_types_loop.simps) (simp add: ex_ec2_def)
  moreover have "std_sort InstanceTypeInfo_less (map instanceTypeInfo_of_aws [(3 :: nat, 4, 16), (1, 1, 4), (2, 2, 8)]) = aws_vmTypes ex_aws"
    by code_simp
  ultimately show ?thesis
    by (simp add: AwsCloudClient_init_def createAwsClientConfig_def createAwsInstancesConfig_def getFromEnvOrThrow_def
        getFromEnvOrDefault_str_def getFromEnvOrDefault_def ex_aws_env_def ex_aws_def)
qed

theorem planned_slots_have_types_witness:
  "AwsCloudClient_init ex_aws_env ex_ec2 [] = Some (Inr ex_aws, []) \<and>
   Scheduler_init (getPossibleSlots ex_aws) = Inr ex_possible \<and>
   (\<exists>assignments slotMap. select ex_possible ex_jobs = Some (assignments, slotMap) \<and>
      list_all (\<lambda>(i, s). getInstanceTypeForSlot (aws_vmTypes ex_aws) (total s) \<noteq> None) slotMap)"
proof -
  have h: "aws_vmTypes ex_aws \<noteq> []" "distinct (map qj_id ex_jobs)" "getPossibleSlots ex_aws = ex_possible" by code_simp+
  show ?thesis
    using planned_slots_have_types [OF ex_aws_init [of "[]"] h(1,2)] ex_aws_init [of "[]"] unfolding h(3) list_all_iff
    by (auto 0 4)
qed

lemma ex_ec2_laws: "ec2_laws ex_ec2 set (drop 2)"
  by (auto simp: ec2_laws_def ex_ec2_def split: if_splits)

text \<open>A second attempt finds the instance of the first.\<close>

theorem aws_allocate_accounts_witness:
  "ec2_laws ex_ec2 set (drop 2) \<and>
   (\<exists>r c'. AwsCloudClient_allocate ex_ec2 ex_aws 7 (SlotCapacity 2 8) [''i-vms-prod-7'', ''i-vms-prod-3''] = Some (r, c') \<and>
     (case r of Inr info \<Rightarrow> set c' = {ai_id info, ''i-vms-prod-7'', ''i-vms-prod-3''} \<and> drop 2 (ai_id info) = ''vms-prod-7'' \<and> ai_type info = ''c6g.2''
      | Inl _ \<Rightarrow> False))"
proof -
  have h: "aws_vmTypes ex_aws \<noteq> []" by (simp add: ex_aws_def)
  have short: "length (user_data_script (aws_agentDockerImageVersion ex_aws) (aws_vmsAddress ex_aws) (aws_creds ex_aws) 7) < 2 ^ 64"
    by (simp add: user_data_script_def ex_aws_def show_int_def show_nat.simps)
  obtain req where "createRunRequest ''vms-prod-7'' ex_aws 2 7 False = Some req" "rr_maxCount req = 1" "rr_clientToken req = ''vms-prod-7''"
    using createRunRequest_ok [OF short] by blast
  moreover have "getInstanceTypeForSlot (aws_vmTypes ex_aws) (SlotCapacity 2 8) = Some 2" by code_simp
  moreover have token: "aws_tokenPrefix ex_aws @ ''-'' @ show_int 7 = ''vms-prod-7''" and "aws_useSpot ex_aws = False" by code_simp+
  ultimately have "\<exists>info c'. AwsCloudClient_allocate ex_ec2 ex_aws 7 (SlotCapacity 2 8) [''i-vms-prod-7'', ''i-vms-prod-3''] = Some (Inr info, c')"
    unfolding AwsCloudClient_allocate_def allocate_type_def createInstance_def
    by (simp add: startInstance_def ex_ec2_def)
  then obtain info c' where ok: "AwsCloudClient_allocate ex_ec2 ex_aws 7 (SlotCapacity 2 8) [''i-vms-prod-7'', ''i-vms-prod-3''] = Some (Inr info, c')"
    by blast
  have ty: "map_option (ec2_name ex_ec2) (getInstanceTypeForSlot (aws_vmTypes ex_aws) (SlotCapacity 2 8)) = Some ''c6g.2''" by code_simp
  show ?thesis
    using aws_allocate_accounts [OF ex_ec2_laws h short, of "SlotCapacity 2 8" "[''i-vms-prod-7'', ''i-vms-prod-3'']"] ex_ec2_laws
    unfolding ty ok token by auto
qed

end
