(* ===== verification/DistLock.thy ===== *)
theory DistLock
  imports Env "HOL-Library.Product_Lexorder" "HOL-Library.List_Lexorder" "HOL-Library.Char_ord"
begin

text \<open>
  \<^verbatim>\<open>DistributedLock\<close> (\<^verbatim>\<open>libs/zookeeper/impl/dist_lock.cpp\<close>): leader election over ephemeral sequential nodes.
  The ZooKeeper client is an argument, a record of operations over a state of its own; an answer
  \<open>None\<close> is an exception out of the future. The threads that wait for a watch are the list of the
  paths they watch.
\<close>

section \<open>Configuration and state\<close>

record ZkConfig =
  zk_address :: string
  zk_lockPath :: string
  zk_lockName :: string

definition DEFAULT_ZK_LOCK_PATH :: string where
  "DEFAULT_ZK_LOCK_PATH = ''/vms-prod-''"

definition createZkConfig :: "environment \<Rightarrow> ZkConfig result" where
  "createZkConfig env =
     (case getFromEnvOrThrow env ''VMS_ZK_ADDRESS'' of
        Inl e \<Rightarrow> Inl e
      | Inr address \<Rightarrow>
          Inr \<lparr>zk_address = address,
               zk_lockPath = getFromEnvOrDefault_str env ''VMS_ZK_LOCK_PATH'' DEFAULT_ZK_LOCK_PATH,
               zk_lockName = getFromEnvOrDefault_str env ''VMS_ZK_LOCK_NAME'' []\<rparr>)"

record 'z zk =
  zk_create :: "string \<Rightarrow> string \<Rightarrow> 'z \<Rightarrow> string option \<times> 'z"
  zk_get_children :: "string \<Rightarrow> 'z \<Rightarrow> string list option \<times> 'z"
  zk_close :: "'z \<Rightarrow> 'z"
  zk_erase :: "string \<Rightarrow> 'z \<Rightarrow> unit option \<times> 'z"

record DistributedLock =
  dl_isStopped :: bool
  dl_createdNodeName :: string
  dl_lockNumber :: "size_t option"
  dl_watches :: "string list"

definition DistributedLock_init :: DistributedLock where
  "DistributedLock_init = \<lparr>dl_isStopped = False, dl_createdNodeName = [], dl_lockNumber = None, dl_watches = []\<rparr>"

definition createDistLock :: "bool \<Rightarrow> environment \<Rightarrow> (ZkConfig \<times> DistributedLock) option result" where
  "createDistLock create env =
     (if \<not> create then Inr None
      else case createZkConfig env of Inl e \<Rightarrow> Inl e | Inr cfg \<Rightarrow> Inr (Some (cfg, DistributedLock_init)))"

section \<open>Who is first\<close>

text \<open>\<^verbatim>\<open>substr\<close> throws when its position, which wraps around, is behind the end.\<close>

definition getZxid :: "string \<Rightarrow> size_t option" where
  "getZxid nodeName =
     (let pos = unat ((of_nat (length nodeName) :: size_t) - 9)
      in if pos \<le> length nodeName then Some (size_of_int (atoi (drop pos nodeName))) else None)"

definition is_prefix :: "string \<Rightarrow> string \<Rightarrow> bool" where
  "is_prefix p s \<longleftrightarrow> take (length p) s = p"

fun childrenWithSeq :: "ZkConfig \<Rightarrow> string list \<Rightarrow> (size_t \<times> string) list option" where
  "childrenWithSeq cfg [] = Some []"
| "childrenWithSeq cfg (child # rest) =
     (if zk_lockPath cfg = [] then None
      else if is_prefix (drop 1 (zk_lockPath cfg)) child
      then (case (getZxid child, childrenWithSeq cfg rest) of
              (Some n, Some ns) \<Rightarrow> Some ((n, ''/'' @ child) # ns)
            | _ \<Rightarrow> None)
      else childrenWithSeq cfg rest)"

datatype lock_check = CheckThrew | Dereferences_end | Acquired size_t string | NoNode | Follows string

definition check_children :: "ZkConfig \<Rightarrow> string \<Rightarrow> string list \<Rightarrow> lock_check" where
  "check_children cfg createdNodeName children =
     (case (childrenWithSeq cfg children, getZxid createdNodeName) of
        (Some unsorted, Some number) \<Rightarrow>
          let nodes = std_sort (<) unsorted;
              it = length (takeWhile (\<lambda>node. node \<noteq> (number, createdNodeName)) nodes)
          in if it = 0 then (case nodes of [] \<Rightarrow> Dereferences_end | first # _ \<Rightarrow> Acquired number (snd first))
             else if it = length nodes then NoNode
             else Follows (snd (nodes ! (it - 1)))
      | _ \<Rightarrow> CheckThrew)"

section \<open>The operations\<close>

text \<open>
  \<^verbatim>\<open>lock\<close> and \<^verbatim>\<open>checkLockAcquired\<close> call each other and themselves as long as the service fails; the
  first argument bounds the depth.
\<close>

datatype 'a lock_run = Done 'a | Too_deep | Undefined

fun lock :: "nat \<Rightarrow> ZkConfig \<Rightarrow> 'z zk \<Rightarrow> DistributedLock \<times> 'z \<Rightarrow> (DistributedLock \<times> 'z) lock_run"
  and checkLockAcquired :: "nat \<Rightarrow> ZkConfig \<Rightarrow> 'z zk \<Rightarrow> DistributedLock \<times> 'z \<Rightarrow> (DistributedLock \<times> 'z) lock_run" where
  "lock 0 cfg zk s = Too_deep"
| "lock (Suc k) cfg zk (d, z) =
     (if dl_isStopped d then Done (d, z)
      else let d1 = d\<lparr>dl_lockNumber := None\<rparr>
           in case zk_create zk (zk_lockPath cfg) (zk_lockName cfg) z of
                (Some name, z1) \<Rightarrow> checkLockAcquired k cfg zk (d1\<lparr>dl_createdNodeName := name\<rparr>, z1)
              | (None, z1) \<Rightarrow>
                  (case lock k cfg zk (d1, z1) of
                     Done s \<Rightarrow> checkLockAcquired k cfg zk s
                   | r \<Rightarrow> r))"
| "checkLockAcquired 0 cfg zk s = Too_deep"
| "checkLockAcquired (Suc k) cfg zk (d, z) =
     (case zk_get_children zk ''/'' z of
        (None, z1) \<Rightarrow> checkLockAcquired k cfg zk (d, z1)
      | (Some children, z1) \<Rightarrow>
          (case check_children cfg (dl_createdNodeName d) children of
             CheckThrew \<Rightarrow> checkLockAcquired k cfg zk (d, z1)
           | Dereferences_end \<Rightarrow> Undefined
           | Acquired n path \<Rightarrow> Done (d\<lparr>dl_lockNumber := Some n, dl_watches := dl_watches d @ [path]\<rparr>, z1)
           | NoNode \<Rightarrow> lock k cfg zk (d, z1)
           | Follows path \<Rightarrow> Done (d\<lparr>dl_watches := dl_watches d @ [path]\<rparr>, z1)))"

text \<open>A watch that fires, or fails: the thread ends with another check. Both callbacks do the same.\<close>

definition retryCheckLockAcquired ::
    "nat \<Rightarrow> ZkConfig \<Rightarrow> 'z zk \<Rightarrow> string \<Rightarrow> DistributedLock \<times> 'z \<Rightarrow> (DistributedLock \<times> 'z) lock_run" where
  "retryCheckLockAcquired k cfg zk path s =
     (case s of (d, z) \<Rightarrow> checkLockAcquired k cfg zk (d\<lparr>dl_watches := remove1 path (dl_watches d)\<rparr>, z))"

definition retryLock :: "nat \<Rightarrow> ZkConfig \<Rightarrow> 'z zk \<Rightarrow> string \<Rightarrow> DistributedLock \<times> 'z \<Rightarrow> (DistributedLock \<times> 'z) lock_run" where
  "retryLock k cfg zk path s =
     (case s of (d, z) \<Rightarrow> checkLockAcquired k cfg zk (d\<lparr>dl_watches := remove1 path (dl_watches d)\<rparr>, z))"

definition DistributedLock_start ::
    "nat \<Rightarrow> ZkConfig \<Rightarrow> 'z zk \<Rightarrow> DistributedLock \<times> 'z \<Rightarrow> (DistributedLock \<times> 'z) lock_run" where
  "DistributedLock_start k cfg zk s = lock k cfg zk s"

definition DistributedLock_stop :: "ZkConfig \<Rightarrow> 'z zk \<Rightarrow> DistributedLock \<times> 'z \<Rightarrow> unit option \<times> DistributedLock \<times> 'z" where
  "DistributedLock_stop cfg zk s =
     (case s of (d, z) \<Rightarrow>
        let d1 = d\<lparr>dl_isStopped := True\<rparr>;
            (r, z1) = zk_erase zk (zk_lockPath cfg @ ''/'' @ dl_createdNodeName d) (zk_close zk z)
        in (r, d1, z1))"

definition lockNumber :: "DistributedLock \<Rightarrow> size_t option" where
  "lockNumber d = dl_lockNumber d"

section \<open>Names of sequential nodes\<close>

text \<open>
  ZooKeeper appends the counter of the parent, ten digits with leading zeros; the code reads the last
  nine of them.
\<close>

definition node_name :: "string \<Rightarrow> nat \<Rightarrow> string" where
  "node_name base n = base @ replicate (10 - length (show_nat n)) (CHR ''0'') @ show_nat n"

lemma length_show_nat: "n < 10 ^ Suc k \<Longrightarrow> length (show_nat n) \<le> Suc k"
proof (induction k arbitrary: n)
  case 0
  then show ?case by (simp add: show_nat.simps [of n])
next
  case (Suc k)
  show ?case
  proof (cases "n < 10")
    case False
    have "n div 10 < 10 ^ Suc k" using Suc.prems by (simp add: less_mult_imp_div_less)
    then show ?thesis using Suc.IH [of "n div 10"] False by (simp add: show_nat.simps [of n])
  qed (simp add: show_nat.simps [of n])
qed

lemma getZxid_node_name:
  assumes "n < 10 ^ 9" and "length base < 2 ^ 63"
  shows "getZxid (node_name base n) = Some (of_nat n)"
    and "getZxid (''/'' @ node_name base n) = Some (of_nat n)"
proof -
  define ds where "ds = replicate (9 - length (show_nat n)) (CHR ''0'') @ show_nat n"
  have len: "length (show_nat n) \<le> 9" using assms(1) length_show_nat [of n 8] by simp
  then have ten: "10 - length (show_nat n) = Suc (9 - length (show_nat n))" by linarith
  have node: "node_name base n = (base @ [CHR ''0'']) @ ds"
    using ten by (simp add: node_name_def ds_def)
  have nine: "length ds = 9" using len by (simp add: ds_def)
  have ds: "list_all is_digit ds" "digits_value ds = n"
    using digits_show_nat [of n] by (auto simp: ds_def list_all_iff is_digit_def digits_value_zeros)
  have "size_of_int (atoi ds) = of_nat n" using atoi_digits [OF ds(1)] ds(2) assms(1) by simp
  moreover have "getZxid (pre @ ds) = Some (size_of_int (atoi ds))" if "length pre < 2 ^ 63 + 3" for pre
  proof -
    have "(of_nat (length (pre @ ds)) :: size_t) - 9 = of_nat (length pre)" using nine by simp
    moreover have "unat (of_nat (length pre) :: size_t) = length pre" using that by (simp add: unat_of_nat)
    ultimately show ?thesis by (simp add: getZxid_def Let_def)
  qed
  ultimately show "getZxid (node_name base n) = Some (of_nat n)" "getZxid (''/'' @ node_name base n) = Some (of_nat n)"
    using assms(2) node by (auto simp flip: append_Cons append_assoc)
qed

section \<open>What a listing decides\<close>

text \<open>
  \<open>snapshot cfg base S children\<close>: a listing of the root in which the nodes of this lock are those
  with the sequence numbers \<open>S\<close>.
\<close>

definition snapshot :: "ZkConfig \<Rightarrow> string \<Rightarrow> nat list \<Rightarrow> string list \<Rightarrow> bool" where
  "snapshot cfg base S children \<longleftrightarrow> zk_lockPath cfg = ''/'' @ base \<and> length base < 2 ^ 63 \<and>
     list_all (\<lambda>n. n < 10 ^ 9) S \<and> filter (is_prefix base) children = map (node_name base) S"

definition path_of :: "string \<Rightarrow> nat \<Rightarrow> string" where
  "path_of base n = ''/'' @ node_name base n"

definition entry :: "string \<Rightarrow> nat \<Rightarrow> size_t \<times> string" where
  "entry base n = (of_nat n, path_of base n)"

lemma childrenWithSeq_snapshot: "snapshot cfg base S children \<Longrightarrow> childrenWithSeq cfg children = Some (map (entry base) S)"
proof (induction children arbitrary: S)
  case Nil
  then show ?case by (simp add: snapshot_def)
next
  case (Cons child rest)
  show ?case
  proof (cases "is_prefix base child")
    case True
    then obtain n S' where S: "S = n # S'" "child = node_name base n" "snapshot cfg base S' rest"
      using Cons.prems by (auto simp: snapshot_def Cons_eq_map_conv)
    then have "childrenWithSeq cfg rest = Some (map (entry base) S')" using Cons.IH by blast
    moreover have "getZxid child = Some (of_nat n)"
      using S Cons.prems getZxid_node_name(1) by (simp add: snapshot_def)
    ultimately show ?thesis using True S Cons.prems by (simp add: snapshot_def entry_def path_of_def)
  next
    case False
    then have "snapshot cfg base S rest" using Cons.prems by (simp add: snapshot_def)
    then show ?thesis using Cons False by (simp add: snapshot_def)
  qed
qed

lemma of_nat_size_less: "m < 10 ^ 9 \<Longrightarrow> n < 10 ^ 9 \<Longrightarrow> (of_nat m :: size_t) < of_nat n \<longleftrightarrow> m < n"
  by (simp add: word_less_nat_alt unat_of_nat)

lemma entry_less: "m < 10 ^ 9 \<Longrightarrow> n < 10 ^ 9 \<Longrightarrow> entry base m < entry base n \<longleftrightarrow> m < n"
proof -
  assume mn: "m < 10 ^ 9" "n < 10 ^ 9"
  then have "(of_nat m :: size_t) = of_nat n \<longleftrightarrow> m = n"
    using of_nat_size_less [OF mn] of_nat_size_less [OF mn(2,1)] by (metis nat_neq_iff less_irrefl)
  then show ?thesis using of_nat_size_less [OF mn] by (auto simp: entry_def less_prod_simp)
qed

lemma entry_eq: "m < 10 ^ 9 \<Longrightarrow> n < 10 ^ 9 \<Longrightarrow> entry base m = entry base n \<longleftrightarrow> m = n"
  using entry_less [of m n base] entry_less [of n m base] by (metis nat_neq_iff less_irrefl)

lemma length_takeWhile_less: "x \<in> set xs \<Longrightarrow> \<not> P x \<Longrightarrow> length (takeWhile P xs) < length xs"
  by (induction xs) auto

text \<open>The owner of a node in the listing has the lock exactly if no node has a smaller number; otherwise it waits for one that has.\<close>

lemma check_children_present:
  assumes snap: "snapshot cfg base S children" and a: "a \<in> set S"
  shows "if \<forall>m \<in> set S. a \<le> m then check_children cfg (path_of base a) children = Acquired (of_nat a) (path_of base a)
     else \<exists>m \<in> set S. m < a \<and> check_children cfg (path_of base a) children = Follows (path_of base m)"
proof -
  have small: "m < 10 ^ 9" if "m \<in> set S" for m using snap that by (simp add: snapshot_def list_all_iff)
  define nodes where "nodes = std_sort (<) (map (entry base) S)"
  define it where "it = length (takeWhile (\<lambda>node. node \<noteq> entry base a) nodes)"
  have set_nodes: "set nodes = entry base ` set S" by (simp add: nodes_def)
  have asc: "ascends (<) nodes" unfolding nodes_def by (rule std_sort.ascends_srt) (rule strict_weak_key(1))
  have "getZxid (path_of base a) = Some (of_nat a)"
    using getZxid_node_name(2) [OF small [OF a]] snap by (simp add: path_of_def snapshot_def)
  then have check: "check_children cfg (path_of base a) children =
      (if it = 0 then (case nodes of [] \<Rightarrow> Dereferences_end | first # _ \<Rightarrow> Acquired (of_nat a) (snd first))
       else if it = length nodes then NoNode else Follows (snd (nodes ! (it - 1))))"
    by (simp add: check_children_def childrenWithSeq_snapshot [OF snap] it_def nodes_def entry_def Let_def)
  have it: "it < length nodes" unfolding it_def by (rule length_takeWhile_less [of "entry base a"]) (use a set_nodes in auto)
  have here: "nodes ! it = entry base a" using nth_length_takeWhile [of _ nodes] it unfolding it_def by blast
  show ?thesis
  proof (cases "it = 0")
    case True
    then obtain rest where nodes: "nodes = entry base a # rest" using it here by (cases nodes) auto
    have "a \<le> m" if "m \<in> set S" for m
    proof -
      have "entry base m \<in> set nodes" using that set_nodes by simp
      moreover have "\<forall>e \<in> set rest. \<not> e < entry base a" using asc unfolding nodes sorted_wrt.simps by blast
      ultimately have "\<not> entry base m < entry base a" using nodes by fastforce
      then show ?thesis using entry_less [OF small [OF that] small [OF a]] by simp
    qed
    then show ?thesis using True nodes by (simp add: check entry_def)
  next
    case False
    then have "nodes ! (it - 1) \<in> set nodes" using it by simp
    then obtain m where m: "m \<in> set S" "nodes ! (it - 1) = entry base m" using set_nodes by auto
    have "nodes ! (it - 1) \<noteq> entry base a"
    proof -
      let ?before = "takeWhile (\<lambda>node. node \<noteq> entry base a) nodes"
      have lt: "it - 1 < length ?before" using False unfolding it_def by linarith
      show ?thesis using set_takeWhileD [OF nth_mem [OF lt]] takeWhile_nth [OF lt] by simp
    qed
    then have "m \<noteq> a" using m(2) by auto
    moreover have "\<not> entry base a < entry base m"
      using sorted_wrt_nth_less [OF asc, of "it - 1" it] it False here m(2) by simp
    ultimately have "m < a" using entry_less [OF small [OF a] small [OF m(1)]] by simp
    moreover have "check_children cfg (path_of base a) children = Follows (path_of base m)"
      using False it m(2) by (simp add: check entry_def)
    ultimately show ?thesis using m(1) by (auto simp: not_le)
  qed
qed

section \<open>Mutual exclusion\<close>

text \<open>
  The documented promise of the service: a node that was not there in an earlier listing has a larger
  number than every node that was.
\<close>

definition later :: "nat list \<Rightarrow> nat list \<Rightarrow> bool" where
  "later S S' \<longleftrightarrow> list_all (\<lambda>n. n \<in> set S \<or> list_all (\<lambda>m. m < n) S) S'"

text \<open>A check of a process that does not have the lock yet and whose node is in the listing.\<close>

lemma checkLockAcquired_number:
  assumes "snapshot cfg base S children" and "a \<in> set S"
    and "dl_createdNodeName d = path_of base a" and "dl_lockNumber d = None"
    and "fst (zk_get_children zk ''/'' z) = Some children"
  shows "\<exists>d' z'. checkLockAcquired (Suc k) cfg zk (d, z) = Done (d', z') \<and>
     dl_lockNumber d' = (if \<forall>m \<in> set S. a \<le> m then Some (of_nat a) else None)"
  using check_children_present [OF assms(1,2)] assms(3-5)
  by (cases "zk_get_children zk ''/'' z") (auto split: if_splits)

text \<open>
  C34. Leader election: a process whose node is in the listing it reads always ends its check; it has
  the lock exactly if its node has the smallest number. When another process has the lock by a later
  listing, its lock number is larger, and the node of the first holder is gone.
\<close>

theorem lock_exclusive:
  assumes snaps: "snapshot cfg base S children" "snapshot cfg base S' children'" and "later S S'"
    and a: "a \<in> set S" "dl_createdNodeName A = path_of base a" "dl_lockNumber A = None"
      "fst (zk_get_children zk ''/'' z) = Some children"
    and b: "b \<in> set S'" "dl_createdNodeName B = path_of base b" "dl_lockNumber B = None"
      "fst (zk_get_children zk' ''/'' z') = Some children'" and "a \<noteq> b"
  shows "\<exists>A' zA B' zB. checkLockAcquired (Suc k) cfg zk (A, z) = Done (A', zA) \<and>
     checkLockAcquired (Suc k') cfg zk' (B, z') = Done (B', zB) \<and>
     (lockNumber A' \<noteq> None \<longleftrightarrow> a = Min (set S)) \<and> (lockNumber B' \<noteq> None \<longleftrightarrow> b = Min (set S')) \<and>
     (\<forall>n n'. lockNumber A' = Some n \<longrightarrow> lockNumber B' = Some n' \<longrightarrow> n < n' \<and> a \<notin> set S')"
proof -
  obtain A' zA where A: "checkLockAcquired (Suc k) cfg zk (A, z) = Done (A', zA)"
      "dl_lockNumber A' = (if \<forall>m \<in> set S. a \<le> m then Some (of_nat a) else None)"
    using checkLockAcquired_number [OF snaps(1) a] by blast
  obtain B' zB where B: "checkLockAcquired (Suc k') cfg zk' (B, z') = Done (B', zB)"
      "dl_lockNumber B' = (if \<forall>m \<in> set S'. b \<le> m then Some (of_nat b) else None)"
    using checkLockAcquired_number [OF snaps(2) b] by blast
  have least: "(\<forall>m \<in> set X. x \<le> m) \<longleftrightarrow> x = Min (set X)" if "x \<in> set X" for x :: nat and X
    using that by (metis List.finite_set Min_eqI Min_le)
  have "n < n' \<and> a \<notin> set S'" if "lockNumber A' = Some n" "lockNumber B' = Some n'" for n n'
  proof -
    have n: "n = of_nat a" "\<forall>m \<in> set S. a \<le> m" and n': "n' = of_nat b" "\<forall>m \<in> set S'. b \<le> m"
      using that A(2) B(2) by (auto simp: lockNumber_def split: if_splits)
    have "b \<in> set S \<or> (\<forall>m \<in> set S. m < b)" using \<open>later S S'\<close> b(1) by (auto simp: later_def list_all_iff)
    then have "a < b" using n(2) a(1) \<open>a \<noteq> b\<close> by (auto simp: order.order_iff_strict)
    moreover have "a < 10 ^ 9" "b < 10 ^ 9" using snaps a(1) b(1) by (simp_all add: snapshot_def list_all_iff)
    ultimately show ?thesis using n(1) n' of_nat_size_less [of a b] by auto
  qed
  then show ?thesis using A B least [OF a(1)] least [OF b(1)] by (auto simp: lockNumber_def)
qed

text \<open>Two processes; the first listing has the nodes 7 and 9 of the lock, the second only 9 and 12.\<close>

definition ex_zk :: "string list zk" where
  "ex_zk = \<lparr>zk_create = (\<lambda>path name z. (None, z)), zk_get_children = (\<lambda>path z. (Some z, z)),
     zk_close = (\<lambda>z. z), zk_erase = (\<lambda>path z. (None, z))\<rparr>"

definition ex_zkcfg :: ZkConfig where
  "ex_zkcfg = \<lparr>zk_address = ''localhost'', zk_lockPath = DEFAULT_ZK_LOCK_PATH, zk_lockName = []\<rparr>"

definition ex_owner :: "nat \<Rightarrow> DistributedLock" where
  "ex_owner n = DistributedLock_init\<lparr>dl_createdNodeName := path_of ''vms-prod-'' n\<rparr>"

theorem lock_exclusive_witness:
  "\<exists>A' zA B' zB. checkLockAcquired 1 ex_zkcfg ex_zk (ex_owner 7, [''vms-prod-0000000009'', ''zookeeper'', ''vms-prod-0000000007'']) = Done (A', zA) \<and>
     checkLockAcquired 1 ex_zkcfg ex_zk (ex_owner 9, [''vms-prod-0000000012'', ''vms-prod-0000000009'']) = Done (B', zB) \<and>
     lockNumber A' = Some 7 \<and> lockNumber B' = Some 9"
proof -
  let ?c = "[''vms-prod-0000000009'', ''zookeeper'', ''vms-prod-0000000007'']"
  let ?c' = "[''vms-prod-0000000012'', ''vms-prod-0000000009'']"
  have snaps: "snapshot ex_zkcfg ''vms-prod-'' [9, 7] ?c" "snapshot ex_zkcfg ''vms-prod-'' [12, 9] ?c'"
  proof -
    have "filter (is_prefix ''vms-prod-'') ?c = map (node_name ''vms-prod-'') [9, 7]"
      "filter (is_prefix ''vms-prod-'') ?c' = map (node_name ''vms-prod-'') [12, 9]" by code_simp+
    then show "snapshot ex_zkcfg ''vms-prod-'' [9, 7] ?c" "snapshot ex_zkcfg ''vms-prod-'' [12, 9] ?c'"
      by (simp_all only: snapshot_def) (simp_all add: ex_zkcfg_def DEFAULT_ZK_LOCK_PATH_def)
  qed
  have later: "later [9, 7] [12, 9]" by code_simp
  have num: "fst (zk_get_children ex_zk ''/'' z) = Some z" for z by (simp add: ex_zk_def)
  have own: "dl_createdNodeName (ex_owner n) = path_of ''vms-prod-'' n" "dl_lockNumber (ex_owner n) = None" for n
    by (simp_all add: ex_owner_def DistributedLock_init_def)
  obtain A' zA B' zB where AB: "checkLockAcquired (Suc 0) ex_zkcfg ex_zk (ex_owner 7, ?c) = Done (A', zA)"
      "checkLockAcquired (Suc 0) ex_zkcfg ex_zk (ex_owner 9, ?c') = Done (B', zB)"
    using lock_exclusive [OF snaps later _ own(1) own(2) num _ own(1) own(2) num, of 7 9 0 0] by auto
  have "7 \<in> set [9, 7 :: nat]" "9 \<in> set [12, 9 :: nat]" by simp_all
  note numbers = checkLockAcquired_number [OF snaps(1) this(1) own num, of 0] checkLockAcquired_number [OF snaps(2) this(2) own num, of 0]
  have "lockNumber A' = Some 7" "lockNumber B' = Some 9"
    using numbers unfolding AB lockNumber_def by (elim exE conjE; simp del: checkLockAcquired.simps)+
  then show ?thesis using AB unfolding One_nat_def by blast
qed

end
