(* ===== verification/TaskRegistry.thy ===== *)
theory TaskRegistry
  imports Services DistLock Aws
begin

text \<open>
  What a server process is made of: the configurations read from the environment, and the constructor of
  \<^verbatim>\<open>TaskRegistry\<close> (\<^verbatim>\<open>libs/task_registry/impl/task_registry.cpp\<close>), which starts the background threads of its mode.
\<close>

section \<open>Configurations\<close>

text \<open>A duration is built from \<^verbatim>\<open>size_t\<close>; its count is a signed 64-bit integer.\<close>

definition chrono_seconds :: "size_t \<Rightarrow> int" where
  "chrono_seconds n = sint n"

definition createCommonConfig :: "environment \<Rightarrow> CommonConfig" where
  "createCommonConfig env =
     \<lparr>jobRestartAttemptCount = getFromEnvOrDefault env ''VMS_JOB_RESTART_ATTEMPT_COUNT'' 3,
      vmRestartAttemptCount = getFromEnvOrDefault env ''VMS_VM_RESTART_ATTEMPT_COUNT'' 3\<rparr>"

definition createAllocatorConfig :: "environment \<Rightarrow> AllocatorConfig" where
  "createAllocatorConfig env =
     \<lparr>maxVmAllocationCount = getFromEnvOrDefault env ''VMS_MAX_VM_ALLOCATION_COUNT'' 1,
      maxVmTerminationCount = getFromEnvOrDefault env ''VMS_MAX_VM_TERMINATION_COUNT'' 1,
      ac_common = createCommonConfig env\<rparr>"

definition createFailureDetectorConfig :: "environment \<Rightarrow> FailureDetectorConfig" where
  "createFailureDetectorConfig env =
     \<lparr>fd_allocationTimeLimit = chrono_seconds (getFromEnvOrDefault env ''VMS_ALLOCATION_TIME_LIMIT_S'' 30),
      fd_agentStartupTimeLimit = chrono_seconds (getFromEnvOrDefault env ''VMS_AGENT_STARTUP_TIME_LIMIT_S'' 300),
      fd_agentInactivityTimeLimit = chrono_seconds (getFromEnvOrDefault env ''VMS_AGENT_INACTIVITY_TIME_LIMIT_S'' 120),
      fd_terminationTimeLimit = chrono_seconds (getFromEnvOrDefault env ''VMS_TERMINATION_TIME_LIMIT'' 120),
      fd_common = createCommonConfig env\<rparr>"

text \<open>A name no \<^verbatim>\<open>map.at\<close> knows throws \<^verbatim>\<open>std::out_of_range\<close>: \<open>None\<close>.\<close>

definition createComplexVmAssignerConfig :: "environment \<Rightarrow> ComplexVmAssignerConfig option" where
  "createComplexVmAssignerConfig env =
     (case (jobOrderingFromString (getFromEnvOrDefault_str env ''VMS_JOB_ORDERING'' ''fifo''),
            allocationStrategyFromString (getFromEnvOrDefault_str env ''VMS_ALLOCATION_STRATEGY'' ''bestfit'')) of
        (Some ord, Some strategy) \<Rightarrow> Some \<lparr>jobOrdering = ord, allocationStrategy = strategy\<rparr>
      | _ \<Rightarrow> None)"

definition createSchedulerConfig :: "environment \<Rightarrow> SchedulerConfig option" where
  "createSchedulerConfig env =
     (case vmAssignerTypeFromString (getFromEnvOrDefault_str env ''VMS_ASSIGNER_TYPE'' (toString_VmAssignerType Complex)) of
        None \<Rightarrow> None
      | Some Complex \<Rightarrow>
          map_option (\<lambda>complex.
            \<lparr>sc_vmAssignerType = Complex, sc_schedulingInterval = chrono_seconds (getFromEnvOrDefault env ''VMS_SCHEDULING_INTERVAL_S'' 40),
             sc_complexVmAssignerConfig = Some complex\<rparr>) (createComplexVmAssignerConfig env)
      | Some Simple \<Rightarrow>
          Some \<lparr>sc_vmAssignerType = Simple, sc_schedulingInterval = chrono_seconds (getFromEnvOrDefault env ''VMS_SCHEDULING_INTERVAL_S'' 40),
                sc_complexVmAssignerConfig = None\<rparr>)"

definition createServerConfig :: "environment \<Rightarrow> string" where
  "createServerConfig env = getFromEnvOrDefault_str env ''VMS_GRPC_SERVER_ADDRESS'' ''0.0.0.0:50001''"

datatype SchedulerMode = SchedulerService | CoreScheduler | FullScheduler

definition schedulerModeFromString :: "string \<Rightarrow> SchedulerMode option" where
  "schedulerModeFromString s =
     map_of [(''service'', SchedulerService), (''core'', CoreScheduler), (''full'', FullScheduler)] s"

record Config =
  cfg_allocationInterval :: int
  cfg_scheduleInterval :: int
  cfg_detectFailuresInterval :: int
  cfg_mode :: SchedulerMode
  cfg_useZkDistLock :: bool

definition createConfig :: "environment \<Rightarrow> Config option" where
  "createConfig env =
     map_option (\<lambda>mode.
       \<lparr>cfg_allocationInterval = chrono_seconds (getFromEnvOrDefault env ''VMS_ALLOCATION_INTERVAL_S'' 60),
        cfg_scheduleInterval = chrono_seconds (getFromEnvOrDefault env ''VMS_SCHEDULE_INTERVAL_S'' 60),
        cfg_detectFailuresInterval = chrono_seconds (getFromEnvOrDefault env ''VMS_DETECT_FAILURES_INTERVAL_S'' 300),
        cfg_mode = mode,
        cfg_useZkDistLock = (getFromEnvOrDefault env ''VMS_USE_ZK_DIST_LOCK'' 0 \<noteq> 0)\<rparr>)
     (schedulerModeFromString (getFromEnvOrDefault_str env ''VMS_MODE'' ''full''))"

section \<open>The process\<close>

text \<open>The background threads: what each runs, and how long it sleeps.\<close>

datatype payload = Allocate | Terminate | Monitor | Schedule

definition TaskRegistry_threads :: "Config \<Rightarrow> (payload \<times> int) list" where
  "TaskRegistry_threads config =
     (if cfg_mode config = FullScheduler \<or> cfg_mode config = SchedulerService
      then [(Allocate, cfg_allocationInterval config), (Terminate, cfg_allocationInterval config),
            (Monitor, cfg_detectFailuresInterval config)]
      else []) @
     (if cfg_mode config = FullScheduler \<or> cfg_mode config = CoreScheduler
      then [(Schedule, cfg_scheduleInterval config)] else [])"

definition wants_dist_lock :: "Config \<Rightarrow> bool" where
  "wants_dist_lock config \<longleftrightarrow>
     cfg_useZkDistLock config \<and> (cfg_mode config = FullScheduler \<or> cfg_mode config = CoreScheduler)"

record process =
  pr_backendId :: string
  pr_possibleSlots :: "SlotCapacity list"
  pr_schedulerConfig :: SchedulerConfig
  pr_distLock :: "(ZkConfig \<times> DistributedLock) option"
  pr_allocatorConfig :: AllocatorConfig
  pr_failureDetectorConfig :: FailureDetectorConfig
  pr_address :: string
  pr_threads :: "(payload \<times> int) list"

text \<open>
  The constructor, on the sizes the cloud client offers. The configurations are read by the
  constructors of the members, in their order; starting the gRPC server and the election of the lock
  (\<open>DistributedLock_start\<close> on \<open>pr_distLock\<close>) are left out. \<open>Inl\<close>: an
  exception, \<open>None\<close> for the one of \<^verbatim>\<open>map.at\<close>.
\<close>

definition TaskRegistry_init :: "environment \<Rightarrow> Config \<Rightarrow> SlotCapacity list \<Rightarrow> exn option + process" where
  "TaskRegistry_init env config possibleSlots =
     (case createDistLock (wants_dist_lock config) env of
        Inl e \<Rightarrow> Inl (Some e)
      | Inr distLock \<Rightarrow>
          (case createSchedulerConfig env of
             None \<Rightarrow> Inl None
           | Some schedulerConfig \<Rightarrow>
               (case Scheduler_init possibleSlots of
                  Inl e \<Rightarrow> Inl (Some e)
                | Inr slots \<Rightarrow>
                    Inr \<lparr>pr_backendId = ''1234'', pr_possibleSlots = slots, pr_schedulerConfig = schedulerConfig,
                         pr_distLock = distLock, pr_allocatorConfig = createAllocatorConfig env,
                         pr_failureDetectorConfig = createFailureDetectorConfig env,
                         pr_address = createServerConfig env, pr_threads = TaskRegistry_threads config\<rparr>)))"

section \<open>What a process does\<close>

text \<open>
  An event of a process: a round of a background thread, with the rows the server's scan comes across, what other
  processes do to the database while it runs and what \<^verbatim>\<open>lockNumber()\<close> answers, or a request to one of the services.
\<close>

datatype 'c event =
    Background payload "VmId list" "'c \<Rightarrow> pg \<Rightarrow> pg" "pg \<Rightarrow> pg" "pg \<Rightarrow> pg" "size_t option option"
  | AddTask_request ProtoTask
  | GetTaskState_request uint64
  | GetTaskResult_request uint64
  | Cancel_request uint64
  | GetAssignedJobs_request uint64
  | GetJobToLaunch_request uint64 uint64
  | UpdateJobState_request ProtoExecutionJobState

fun run_payload ::
    "process \<Rightarrow> 'c CloudClient \<Rightarrow> VmId list \<Rightarrow> ('c \<Rightarrow> pg \<Rightarrow> pg) \<Rightarrow> (pg \<Rightarrow> pg) \<Rightarrow> (pg \<Rightarrow> pg) \<Rightarrow> size_t option option \<Rightarrow> payload \<Rightarrow> 'c world \<Rightarrow> 'c world" where
  "run_payload pr cc scan others others1 others2 number Allocate w = snd (Allocator_allocate (pr_allocatorConfig pr) cc scan others w)"
| "run_payload pr cc scan others others1 others2 number Terminate w = snd (Allocator_terminate (pr_allocatorConfig pr) cc scan others w)"
| "run_payload pr cc scan others others1 others2 number Monitor w = snd (monitor (pr_failureDetectorConfig pr) cc others w)"
| "run_payload pr cc scan others others1 others2 number Schedule w =
     (snd (schedule (pr_backendId pr) (pr_schedulerConfig pr) (pr_possibleSlots pr) number others1 others2 (fst w)), snd w)"

fun run_event ::
    "(string \<Rightarrow> string option) \<Rightarrow> (string \<Rightarrow> nat option) \<Rightarrow> process \<Rightarrow> 'c CloudClient \<Rightarrow> 'c event \<Rightarrow> 'c world \<Rightarrow> 'c world" where
  "run_event jsonb parse pr cc (Background b scan others others1 others2 number) w = run_payload pr cc scan others others1 others2 number b w"
| "run_event jsonb parse pr cc (AddTask_request task) (p, c) = (snd (PublicApi_addTask jsonb parse task p), c)"
| "run_event jsonb parse pr cc (GetTaskState_request i) (p, c) = (snd (getTaskState i p), c)"
| "run_event jsonb parse pr cc (GetTaskResult_request i) (p, c) = (snd (getTaskResult i p), c)"
| "run_event jsonb parse pr cc (Cancel_request i) (p, c) = (snd (cancelRunningJobs i p), c)"
| "run_event jsonb parse pr cc (GetAssignedJobs_request v) (p, c) = (snd (AgentApi_getAssignedJobs v p), c)"
| "run_event jsonb parse pr cc (GetJobToLaunch_request v j) (p, c) = (snd (AgentApi_getJobToLaunch v j p), c)"
| "run_event jsonb parse pr cc (UpdateJobState_request s) (p, c) = (snd (AgentApi_updateJobState s p), c)"

text \<open>The other processes run the same program.\<close>

fun event_ok :: "(string \<Rightarrow> string option) \<Rightarrow> SchedulerConfig \<Rightarrow> SlotCapacity list \<Rightarrow> 'c event \<Rightarrow> bool" where
  "event_ok jsonb cfg possible (Background b scan others others1 others2 number) =
     ((\<forall>w. others_ok jsonb cfg possible (others w)) \<and> others_ok jsonb cfg possible others1 \<and> others_ok jsonb cfg possible others2)"
| "event_ok jsonb cfg possible _ = True"

lemma run_event_reachable:
  assumes "\<exists>c. reachable jsonb (pr_schedulerConfig pr) (pr_possibleSlots pr) (p, c)"
    and "event_ok jsonb (pr_schedulerConfig pr) (pr_possibleSlots pr) e"
  shows "\<exists>c. reachable jsonb (pr_schedulerConfig pr) (pr_possibleSlots pr) (fst (run_event jsonb parse pr cc e (p, w)), c)"
proof (cases e)
  case (Background b scan others others1 others2 number)
  have others: "\<exists>c. reachable jsonb (pr_schedulerConfig pr) (pr_possibleSlots pr) (others w q, c)"
    if "\<exists>c. reachable jsonb (pr_schedulerConfig pr) (pr_possibleSlots pr) (q, c)" for w q
    using assms(2) that unfolding Background others_ok_def event_ok.simps by blast
  have ok: "others_ok jsonb (pr_schedulerConfig pr) (pr_possibleSlots pr) others1"
    "others_ok jsonb (pr_schedulerConfig pr) (pr_possibleSlots pr) others2" using assms(2) Background by simp_all
  show ?thesis
  proof (cases b)
    case Schedule
    then show ?thesis
      using assms(1) schedule_reachable [OF _ ok, of p] Background by (metis fst_conv prod.collapse run_event.simps(1) run_payload.simps(4))
  qed (use Background others assms(1) in \<open>simp_all add: reach_services.Allocator_allocate_good
      reach_services.Allocator_terminate_good reach_services.monitor_good\<close>)
qed (use reach_services.services_good [OF assms(1)] in simp_all)

lemma run_events_reachable:
  assumes "\<exists>c. reachable jsonb (pr_schedulerConfig pr) (pr_possibleSlots pr) (fst w, c)"
    and "list_all (event_ok jsonb (pr_schedulerConfig pr) (pr_possibleSlots pr)) es"
  shows "\<exists>c. reachable jsonb (pr_schedulerConfig pr) (pr_possibleSlots pr) (fst (fold (run_event jsonb parse pr cc) es w), c)"
  using assms
proof (induction es arbitrary: w)
  case (Cons e es)
  then show ?case using run_event_reachable [of jsonb pr "fst w" e parse cc "snd w"] by simp
qed simp

text \<open>A process that could be set up has a usable configuration, next fit apart.\<close>

lemma TaskRegistry_init_config_ok:
  assumes init: "TaskRegistry_init env config possible = Inr pr"
    and "getFromEnvOrDefault_str env ''VMS_ALLOCATION_STRATEGY'' ''bestfit'' \<noteq> ''nextfit''" and "\<forall>s \<in> set possible. cap_ok s"
  shows "pr_possibleSlots pr = possible" and "config_ok (pr_schedulerConfig pr) (pr_possibleSlots pr)"
proof -
  have slots: "pr_possibleSlots pr = possible" "possible \<noteq> []" and cfg: "createSchedulerConfig env = Some (pr_schedulerConfig pr)"
    using init by (auto simp: TaskRegistry_init_def Scheduler_init_def split: sum.splits option.splits if_splits)
  show "pr_possibleSlots pr = possible" by (fact slots(1))
  have "allocationStrategyFromString str = Some NextFitStrategy \<Longrightarrow> str = ''nextfit''" for str
    by (auto simp: allocationStrategyFromString_def split: if_splits)
  then have "allocationStrategy cc \<noteq> NextFitStrategy" if "createComplexVmAssignerConfig env = Some cc" for cc
    using that assms(2) by (auto simp: createComplexVmAssignerConfig_def split: option.splits)
  then have "config_ok cfg possible" if "createSchedulerConfig env = Some cfg" for cfg
    using that slots(2) assms(3) by (auto simp: config_ok_def createSchedulerConfig_def split: option.splits VmAssignerType.splits)
  then show "config_ok (pr_schedulerConfig pr) (pr_possibleSlots pr)" using cfg slots(1) by simp
qed

end
