(* ===== verification/BackgroundThread.thy ===== *)
theory BackgroundThread
  imports Main
begin

text \<open>
  \<^verbatim>\<open>BackgroundThread\<close> (\<^verbatim>\<open>libs/concurrency/impl/background_thread.cpp\<close>) and \<^verbatim>\<open>main\<close> (\<^verbatim>\<open>bin/main.cpp\<close>) as step
  relations: the loop of the thread, the flag, the condition variable, the clock and the destructor
  that another thread runs; and the main thread with its signal handler. Only the loop takes the mutex of a
  \<^verbatim>\<open>BackgroundThread\<close>, so the mutex is never contended and is left out. Each read of the flag or of the clock is a step of its
  own, so that the destructor may run between a test of the flag and what the thread does next.
\<close>

section \<open>The loop and the destructor\<close>

text \<open>
  Where the thread is. The time is the start of the current round. \<open>Entering\<close>: the test of the outer loop has passed and the round
  has not started; \<open>AtClock\<close>: the flag was tested in the inner loop, the clock not yet. A thread that has made both
  tests and is about to wait is \<open>FallingAsleep\<close>: a notification does not reach it. (Reading the start time and calling the payload
  is one step: between them the thread touches nothing that another thread sees.)
\<close>

datatype runner_pc = AtLoop | Entering | InPayload int | AtTest int | AtClock int | FallingAsleep int | Asleep int | Ended

text \<open>The thread that owns the object: before the destructor, in it, and after \<^verbatim>\<open>join\<close>.\<close>

datatype owner_pc = Alive | Stored | Notified | Joined

record background =
  bg_pc :: runner_pc
  bg_isStopped :: bool
  bg_owner :: owner_pc
  bg_now :: int
  bg_starts :: "int list"

definition bg_init :: "int \<Rightarrow> background" where
  "bg_init t = \<lparr>bg_pc = AtLoop, bg_isStopped = False, bg_owner = Alive, bg_now = t, bg_starts = []\<rparr>"

definition notify_one :: "runner_pc \<Rightarrow> runner_pc" where
  "notify_one pc = (case pc of Asleep s \<Rightarrow> AtTest s | _ \<Rightarrow> pc)"

text \<open>The loop, except for spurious wake-ups.\<close>

inductive runner_step :: "int \<Rightarrow> background \<Rightarrow> background \<Rightarrow> bool" for sleepDuration where
  loop_test: "bg_pc b = AtLoop \<Longrightarrow> \<not> bg_isStopped b \<Longrightarrow> runner_step sleepDuration b (b\<lparr>bg_pc := Entering\<rparr>)"
| loop_leave: "bg_pc b = AtLoop \<Longrightarrow> bg_isStopped b \<Longrightarrow> runner_step sleepDuration b (b\<lparr>bg_pc := Ended\<rparr>)"
| round_start: "bg_pc b = Entering \<Longrightarrow>
    runner_step sleepDuration b (b\<lparr>bg_pc := InPayload (bg_now b), bg_starts := bg_now b # bg_starts b\<rparr>)"
| payload_done: "bg_pc b = InPayload s \<Longrightarrow> runner_step sleepDuration b (b\<lparr>bg_pc := AtTest s\<rparr>)"
| test_flag: "bg_pc b = AtTest s \<Longrightarrow> \<not> bg_isStopped b \<Longrightarrow> runner_step sleepDuration b (b\<lparr>bg_pc := AtClock s\<rparr>)"
| test_leave: "bg_pc b = AtTest s \<Longrightarrow> bg_isStopped b \<Longrightarrow> runner_step sleepDuration b (b\<lparr>bg_pc := AtLoop\<rparr>)"
| clock_wait: "bg_pc b = AtClock s \<Longrightarrow> s + sleepDuration > bg_now b \<Longrightarrow> runner_step sleepDuration b (b\<lparr>bg_pc := FallingAsleep s\<rparr>)"
| clock_leave: "bg_pc b = AtClock s \<Longrightarrow> \<not> s + sleepDuration > bg_now b \<Longrightarrow> runner_step sleepDuration b (b\<lparr>bg_pc := AtLoop\<rparr>)"
| fall_asleep: "bg_pc b = FallingAsleep s \<Longrightarrow> runner_step sleepDuration b (b\<lparr>bg_pc := Asleep s\<rparr>)"
| wake: "bg_pc b = Asleep s \<Longrightarrow> s + sleepDuration \<le> bg_now b \<Longrightarrow> runner_step sleepDuration b (b\<lparr>bg_pc := AtTest s\<rparr>)"

inductive owner_step :: "background \<Rightarrow> background \<Rightarrow> bool" where
  dtor_store: "bg_owner b = Alive \<Longrightarrow> owner_step b (b\<lparr>bg_isStopped := True, bg_owner := Stored\<rparr>)"
| dtor_notify: "bg_owner b = Stored \<Longrightarrow> owner_step b (b\<lparr>bg_pc := notify_one (bg_pc b), bg_owner := Notified\<rparr>)"
| dtor_join: "bg_owner b = Notified \<Longrightarrow> bg_pc b = Ended \<Longrightarrow> owner_step b (b\<lparr>bg_owner := Joined\<rparr>)"

inductive bg_step :: "int \<Rightarrow> background \<Rightarrow> background \<Rightarrow> bool" for sleepDuration where
  by_runner: "runner_step sleepDuration b b' \<Longrightarrow> bg_step sleepDuration b b'"
| by_owner: "owner_step b b' \<Longrightarrow> bg_step sleepDuration b b'"
| by_spurious_wake: "bg_pc b = Asleep s \<Longrightarrow> bg_step sleepDuration b (b\<lparr>bg_pc := AtTest s\<rparr>)"
| by_clock: "0 \<le> dt \<Longrightarrow> bg_step sleepDuration b (b\<lparr>bg_now := bg_now b + dt\<rparr>)"

inductive_cases runner_stepE: "runner_step d b b'"
inductive_cases owner_stepE: "owner_step b b'"
inductive_cases bg_stepE: "bg_step d b b'"

definition bg_reachable :: "int \<Rightarrow> background \<Rightarrow> bool" where
  "bg_reachable d b \<longleftrightarrow> (\<exists>t. (bg_step d)\<^sup>*\<^sup>* (bg_init t) b)"

section \<open>Invariant\<close>

fun round_of :: "runner_pc \<Rightarrow> int option" where
  "round_of (InPayload s) = Some s"
| "round_of (AtTest s) = Some s"
| "round_of (AtClock s) = Some s"
| "round_of (FallingAsleep s) = Some s"
| "round_of (Asleep s) = Some s"
| "round_of _ = None"



lemma round_of_notify [simp]: "round_of (notify_one pc) = round_of pc"
  by (cases pc) (simp_all add: notify_one_def)

lemma notify_Ended [simp]: "notify_one pc = Ended \<longleftrightarrow> pc = Ended" "notify_one pc = AtLoop \<longleftrightarrow> pc = AtLoop"
  "notify_one pc = Entering \<longleftrightarrow> pc = Entering"
  by (cases pc; simp add: notify_one_def)+






section \<open>Stopping\<close>











text \<open>The round after the stop does happen: the destructor stores the flag after the test, before the payload is called.\<close>

lemma round_after_stop:
  "\<exists>b b'. bg_reachable 60 b \<and> bg_isStopped b \<and> bg_starts b = [] \<and> runner_step 60 b b' \<and> bg_starts b' = [0]"
proof -
  let ?b = "(bg_init 0)\<lparr>bg_pc := Entering, bg_isStopped := True, bg_owner := Stored\<rparr>"
  have "bg_step 60 (bg_init 0) ((bg_init 0)\<lparr>bg_pc := Entering\<rparr>)"
    by (intro by_runner loop_test) (simp_all add: bg_init_def)
  moreover have "bg_step 60 ((bg_init 0)\<lparr>bg_pc := Entering\<rparr>) ?b"
    using dtor_store [of "(bg_init 0)\<lparr>bg_pc := Entering\<rparr>"] by (intro by_owner) (simp add: bg_init_def)
  ultimately have "bg_reachable 60 ?b" unfolding bg_reachable_def by (meson converse_rtranclp_into_rtranclp rtranclp.rtrancl_refl)
  then show ?thesis using round_start [of ?b 60] by (fastforce simp: bg_init_def)
qed

text \<open>
  The destructor stores the flag and notifies without the mutex. Between the test of the flag and
  the wait both go unnoticed: the thread sleeps through its pause and \<^verbatim>\<open>join\<close> waits for it.
\<close>

definition bg_overslept :: background where
  "bg_overslept = \<lparr>bg_pc = Asleep 0, bg_isStopped = True, bg_owner = Notified, bg_now = 0, bg_starts = [0]\<rparr>"

lemma bg_overslept_reachable: "bg_reachable 60 bg_overslept"
proof -
  let ?b = "\<lambda>pc st ow. \<lparr>bg_pc = pc, bg_isStopped = st, bg_owner = ow, bg_now = 0, bg_starts = [0]\<rparr> :: background"
  have "bg_step 60 (bg_init 0) ((bg_init 0)\<lparr>bg_pc := Entering\<rparr>)"
    by (intro by_runner loop_test) (simp_all add: bg_init_def)
  moreover have "bg_step 60 ((bg_init 0)\<lparr>bg_pc := Entering\<rparr>) (?b (InPayload 0) False Alive)"
    using round_start [of "(bg_init 0)\<lparr>bg_pc := Entering\<rparr>" 60] by (intro by_runner) (simp add: bg_init_def)
  moreover have "bg_step 60 (?b (InPayload 0) False Alive) (?b (AtTest 0) False Alive)"
    using payload_done [of "?b (InPayload 0) False Alive" 0 60] by (intro by_runner) simp
  moreover have "bg_step 60 (?b (AtTest 0) False Alive) (?b (AtClock 0) False Alive)"
    using test_flag [of "?b (AtTest 0) False Alive" 0 60] by (intro by_runner) simp
  moreover have "bg_step 60 (?b (AtClock 0) False Alive) (?b (FallingAsleep 0) False Alive)"
    using clock_wait [of "?b (AtClock 0) False Alive" 0 60] by (intro by_runner) simp
  moreover have "bg_step 60 (?b (FallingAsleep 0) False Alive) (?b (FallingAsleep 0) True Stored)"
    using dtor_store [of "?b (FallingAsleep 0) False Alive"] by (intro by_owner) simp
  moreover have "bg_step 60 (?b (FallingAsleep 0) True Stored) (?b (FallingAsleep 0) True Notified)"
    using dtor_notify [of "?b (FallingAsleep 0) True Stored"] by (intro by_owner) (simp add: notify_one_def)
  moreover have "bg_step 60 (?b (FallingAsleep 0) True Notified) bg_overslept"
    using fall_asleep [of "?b (FallingAsleep 0) True Notified" 0 60] by (intro by_runner) (simp add: bg_overslept_def)
  ultimately show ?thesis unfolding bg_reachable_def by (meson converse_rtranclp_into_rtranclp rtranclp.rtrancl_refl)
qed

lemma lost_wakeup: "bg_reachable 60 bg_overslept \<and> bg_owner bg_overslept = Notified \<and> \<not> (\<exists>b'. runner_step 60 bg_overslept b')"
  using bg_overslept_reachable by (auto simp: bg_overslept_def elim: runner_step.cases)


section \<open>The main program\<close>

text \<open>
  Where the main thread is: at the test of \<^verbatim>\<open>isStopping\<close>, blocked on the condition variable, destroying the
  registry, or gone; \<open>Exited\<close> is \<^verbatim>\<open>std::exit\<close> in the signal handler.
\<close>

datatype main_pc = MainTest | MainBlocked | ShuttingDown | MainReturned | Exited int

record main_state =
  ms_pc :: main_pc
  ms_isStopping :: bool

definition main_init :: main_state where
  "main_init = \<lparr>ms_pc = MainTest, ms_isStopping = False\<rparr>"

definition main_running :: "main_pc \<Rightarrow> bool" where
  "main_running pc \<longleftrightarrow> (case pc of MainReturned \<Rightarrow> False | Exited n \<Rightarrow> False | _ \<Rightarrow> True)"

text \<open>The signal handler, which may run at any time.\<close>

definition sigterm :: "int \<Rightarrow> main_state \<Rightarrow> main_state" where
  "sigterm sigint m = (if ms_isStopping m then m\<lparr>ms_pc := Exited sigint\<rparr> else m\<lparr>ms_isStopping := True\<rparr>)"

inductive main_step :: "main_state \<Rightarrow> main_state \<Rightarrow> bool" where
  main_wait: "ms_pc m = MainTest \<Longrightarrow> \<not> ms_isStopping m \<Longrightarrow> main_step m (m\<lparr>ms_pc := MainBlocked\<rparr>)"
| main_leave: "ms_pc m = MainTest \<Longrightarrow> ms_isStopping m \<Longrightarrow> main_step m (m\<lparr>ms_pc := ShuttingDown\<rparr>)"
| main_return: "ms_pc m = ShuttingDown \<Longrightarrow> main_step m (m\<lparr>ms_pc := MainReturned\<rparr>)"
| main_signal: "main_running (ms_pc m) \<Longrightarrow> main_step m (sigterm sigint m)"

text \<open>
  Nothing notifies the condition variable of \<^verbatim>\<open>main\<close>: once the main thread waits, and unless it wakes up
  spuriously, no number of signals makes it shut down; it stays blocked, or the second signal ends the process
  without destroying the registry.
\<close>

lemma main_stays_blocked:
  assumes "main_step\<^sup>*\<^sup>* m m'" and "ms_pc m = MainBlocked"
  shows "ms_pc m' = MainBlocked \<or> (\<exists>n. ms_pc m' = Exited n \<and> ms_isStopping m')"
  using assms
proof induction
  case (step m1 m2)
  from step(2) show ?case
    using step(3) [OF step.prems] by cases (auto simp: sigterm_def main_running_def)
qed simp

end
