(* ===== verification/Formatting.thy ===== *)
theory Formatting
  imports SchedState Env
begin

text \<open>
  Text the program puts together: the lists the storage splices into its SQL
  (\<^verbatim>\<open>libs/common/include/stringify.h\<close>, \<^verbatim>\<open>libs/postgres/include/helpers.h\<close>) and the stream operators of the state
  (\<^verbatim>\<open>libs/state/impl\<close>). A hash map is printed in the order it is traversed in; the quoting of a string
  by the connection (\<^verbatim>\<open>pqxx::transaction_base::quote\<close>) is a parameter.
\<close>

section \<open>Lists in SQL\<close>

fun format_items :: "('a \<Rightarrow> string) \<Rightarrow> bool \<Rightarrow> 'a list \<Rightarrow> string" where
  "format_items formatValue first [] = []"
| "format_items formatValue first (x # xs) =
     (if first then '''' else '', '') @ formatValue x @ format_items formatValue False xs"

definition asFormattedList :: "('a \<Rightarrow> string) \<Rightarrow> string \<Rightarrow> string \<Rightarrow> 'a list \<Rightarrow> string" where
  "asFormattedList formatValue start fin items = start @ format_items formatValue True items @ fin"

definition joinSeq :: "('a \<Rightarrow> string) \<Rightarrow> 'a list \<Rightarrow> string" where
  "joinSeq print items = asFormattedList print '''' '''' items"

text \<open>\<^verbatim>\<open>formatValue\<close> of \<^verbatim>\<open>helpers.h\<close>: strings and names of enumerators are quoted, integers are not.\<close>

definition formatValue_string :: "(string \<Rightarrow> string) \<Rightarrow> string \<Rightarrow> string" where
  "formatValue_string quote value = quote value"

definition formatValue_integral :: "int \<Rightarrow> string" where
  "formatValue_integral value = show_int value"

definition formatValue_enum :: "(string \<Rightarrow> string) \<Rightarrow> ('e \<Rightarrow> string) \<Rightarrow> 'e \<Rightarrow> string" where
  "formatValue_enum quote toString value = quote (toString value)"

definition pg_asFormattedList :: "('a \<Rightarrow> string) \<Rightarrow> 'a list \<Rightarrow> string" where
  "pg_asFormattedList formatValue items = asFormattedList formatValue ''('' '')'' items"

text \<open>The overload without a connection puts the name of an enumerator between quotes as it is.\<close>

definition asFormattedList_enum :: "('e \<Rightarrow> string) \<Rightarrow> 'e list \<Rightarrow> string" where
  "asFormattedList_enum toString items =
     asFormattedList (\<lambda>e. [CHR 39] @ toString e @ [CHR 39]) ''('' '')'' items"

section \<open>Reading a list of integers\<close>

text \<open>What the server reads: a parenthesised, comma separated, non-empty list of integer literals.\<close>

fun split_commas :: "string \<Rightarrow> string list" where
  "split_commas [] = [[]]"
| "split_commas (c # cs) = (if c = CHR '','' then [] # split_commas cs else (c # hd (split_commas cs)) # tl (split_commas cs))"

definition read_nat :: "string \<Rightarrow> nat option" where
  "read_nat s = (if s \<noteq> [] \<and> list_all is_digit s then Some (digits_value s) else None)"

definition read_int :: "string \<Rightarrow> int option" where
  "read_int s = (if s \<noteq> [] \<and> hd s = CHR ''-'' then map_option (\<lambda>n. - int n) (read_nat (tl s)) else map_option int (read_nat s))"

definition read_item :: "string \<Rightarrow> int option" where
  "read_item s = read_int (dropWhile (\<lambda>c. c = CHR '' '') s)"

fun read_items :: "string list \<Rightarrow> int list option" where
  "read_items [] = Some []"
| "read_items (s # ss) = (case (read_item s, read_items ss) of (Some i, Some is) \<Rightarrow> Some (i # is) | _ \<Rightarrow> None)"

definition sql_int_list :: "string \<Rightarrow> int list option" where
  "sql_int_list s = (if length s \<ge> 2 \<and> hd s = CHR ''('' \<and> last s = CHR '')'' then read_items (split_commas (butlast (tl s))) else None)"

lemma show_nat_nonempty: "show_nat n \<noteq> []"
  by (subst show_nat.simps) simp

lemma read_show_nat: "read_nat (show_nat n) = Some n"
  using digits_show_nat [of n] show_nat_nonempty [of n] by (simp add: read_nat_def)

lemma digit_not_special: "is_digit c \<Longrightarrow> c \<noteq> CHR ''-'' \<and> c \<noteq> CHR '' '' \<and> c \<noteq> CHR '',''"
  by (auto simp: is_digit_def)

lemma show_nat_special: "c \<in> set (show_nat n) \<Longrightarrow> c \<noteq> CHR ''-'' \<and> c \<noteq> CHR '' '' \<and> c \<noteq> CHR '',''"
  using digits_show_nat [of n] digit_not_special by (auto simp: list_all_iff)

lemma read_show_int: "read_int (show_int i) = Some i"
proof (cases "i < 0")
  case True
  then show ?thesis by (simp add: read_int_def show_int_def read_show_nat)
next
  case False
  have "show_nat (nat i) \<noteq> []" by (rule show_nat_nonempty)
  then have "hd (show_nat (nat i)) \<noteq> CHR ''-''" using show_nat_special hd_in_set by blast
  with False show ?thesis by (simp add: read_int_def show_int_def read_show_nat)
qed

lemma show_int_no_comma: "CHR '','' \<notin> set (show_int i)"
  using show_nat_special by (auto simp: show_int_def)

lemma show_int_start: "show_int i = c # s \<Longrightarrow> c \<noteq> CHR '' ''"
  using show_nat_special [of c "nat i"] by (auto simp: show_int_def split: if_splits)

lemma read_item_show: "read_item (show_int i) = Some i" "read_item (CHR '' '' # show_int i) = Some i"
proof -
  have "dropWhile (\<lambda>c. c = CHR '' '') (show_int i) = show_int i"
    using show_int_start [of i] by (cases "show_int i") auto
  then show "read_item (show_int i) = Some i" "read_item (CHR '' '' # show_int i) = Some i"
    by (simp_all add: read_item_def read_show_int)
qed

lemma commas_append: "CHR '','' \<notin> set w \<Longrightarrow> split_commas (w @ CHR '','' # s) = w # split_commas s"
  by (induction w) auto

lemma commas_word: "CHR '','' \<notin> set w \<Longrightarrow> split_commas w = [w]"
  by (induction w) auto

lemma commas_format:
  "split_commas (show_int i @ format_items show_int False is) = show_int i # map (\<lambda>j. CHR '' '' # show_int j) is"
proof (induction "is" arbitrary: i)
  case Nil
  then show ?case by (simp add: commas_word show_int_no_comma)
next
  case (Cons j js)
  have "split_commas (CHR '' '' # s) = (CHR '' '' # hd (split_commas s)) # tl (split_commas s)" for s by simp
  with Cons [of j] show ?case by (simp add: commas_append show_int_no_comma)
qed

lemma read_items_show: "read_items (map (\<lambda>j. CHR '' '' # show_int j) is) = Some is"
  by (induction "is") (simp_all add: read_item_show)

text \<open>
  The list of identifiers the storage splices into a query is read back by the server as exactly
  these identifiers, in their order; for no identifier the text is not a list, so that the query fails.
\<close>

lemma sql_list_roundtrip:
  "sql_int_list (pg_asFormattedList formatValue_integral ids) = (if ids = [] then None else Some ids)"
proof (cases ids)
  case Nil
  then show ?thesis
    by (simp add: sql_int_list_def pg_asFormattedList_def asFormattedList_def read_item_def read_int_def read_nat_def)
next
  case (Cons i js)
  have f: "formatValue_integral = show_int" by (simp add: formatValue_integral_def fun_eq_iff)
  show ?thesis
    by (simp add: Cons f sql_int_list_def pg_asFormattedList_def asFormattedList_def butlast_append commas_format
        read_item_show read_items_show)
qed

section \<open>Printing the state\<close>

definition show_job_infos :: "QueuedJobInfo list \<Rightarrow> string" where
  "show_job_infos jobInfos = concat (map (\<lambda>jobInfo.
     ''[id: '' @ show_int (qj_id jobInfo) @ '', '' @ ''slot capacity: '' @ show_slot (requiredCapacity jobInfo) @ ''], '') jobInfos)"

definition show_active_vms :: "ActiveVm list \<Rightarrow> string" where
  "show_active_vms activeVms = ''['' @ concat (map (\<lambda>vm.
     ''{id: '' @ show_int (avm_id vm) @ '', '' @ ''total capacity: '' @ show_slot (totalCapacity vm) @ '', ''
       @ ''idle capacity: '' @ show_slot (idleCapacity vm) @ ''}, '') activeVms) @ '']''"

definition show_allocated :: "AllocatedVmInfo list \<Rightarrow> string" where
  "show_allocated infos = ''['' @ concat (map (\<lambda>vm.
     ''{id: '' @ ai_id vm @ '', '' @ ''type: '' @ ai_type vm @ ''}, '') infos) @ '']''"

definition show_desired_slot :: "DesiredSlot \<Rightarrow> string" where
  "show_desired_slot desiredSlot =
     ''total capacity: '' @ show_slot (total desiredSlot) @ '', '' @ ''idle capacity: '' @ show_slot (idle desiredSlot)"

definition show_state :: "State \<Rightarrow> string" where
  "show_state state = ''queued job infos: '' @ show_job_infos (queuedJobs state) @ ''active vms: '' @ show_active_vms (vms state)"

fun show_vm_info :: "VmInfo \<Rightarrow> string" where
  "show_vm_info (ExistingVm v) = ''existing VM with id '' @ show_int v @ '', ''"
| "show_vm_info (DesiredVm i) = ''desired VM id: '' @ show_nat i @ '', ''"

definition show_state_change :: "StateChange \<Rightarrow> string" where
  "show_state_change stateChange =
     ''job assignments: ['' @
     concat (map (\<lambda>(jobId, vmInfo). ''job id: '' @ show_int jobId @ '' -> '' @ show_vm_info vmInfo) (jobToVm stateChange)) @
     ''], desired VMs: ['' @
     concat (map (\<lambda>(desiredSlotId, desiredSlot). ''{ id: '' @ show_nat desiredSlotId @ '', '' @
        ''total capacity: '' @ show_slot (total desiredSlot) @ '', '' @
        ''idle capacity: '' @ show_slot (idle desiredSlot) @ '' }, '') (desiredSlotMap stateChange)) @
     ''], VM capacities updates: ['' @
     concat (map (\<lambda>(vmId, capacity). ''{ id: '' @ show_int vmId @ '', '' @
        ''new idle capacity: '' @ show_slot capacity @ '' }, '') (updatedIdleCapacities stateChange)) @
     ''], VMs to terminate: ['' @ joinSeq show_int (vmsToTerminate stateChange) @
     '']''"

end
