(* ===== verification/Spec2Isabelle.thy ===== *)
theory Spec2Isabelle
  imports StorageVmSpec SchedulingProgress Overcommit VmLifecycle FailureSpec ServerSpec PgPool AwsSpec TaskRegistry
    BackgroundThread Formatting
begin

text \<open>
  \<^bold>\<open>A verification of vm-scheduler.\<close> The program under \<^verbatim>\<open>src/\<close> schedules jobs of tasks onto virtual machines
  rented from a cloud provider. Several server processes share one PostgreSQL database. A process
  (\<^verbatim>\<open>libs/task_registry\<close>) runs background threads: the scheduler plans which queued job goes to which VM
  and which VMs are to be started or ended, the allocator carries that out at the provider, the
  failure detector restarts what got stuck; and it serves clients, who add and query tasks, and the
  agents on the VMs, who fetch jobs and report on them. All of them meet only in the task storage.

  \<^bold>\<open>Modelling conventions.\<close> \<^verbatim>\<open>size_t\<close> and message fields are words of their width; identifiers and
  counters of the database are integers, checked against the range of their column where the code
  writes them. A \<^verbatim>\<open>Result\<close> is a sum, \<open>Inl\<close> of the exception or \<open>Inr\<close> of the value. A call of the
  storage ends with \<open>Returned\<close> a result or with \<open>StdTerminate\<close>, an exception that leaves a
  \<^verbatim>\<open>noexcept\<close> function. The database \<open>pg\<close> is the committed tables, the clock of the server and a list of faults to come, each
  making one statement fail; a transaction works on a copy that replaces the tables at its commit. What
  other processes do while a process is between two calls is a function argument, and so are the rows and the order in which the server
  comes across them where a query takes some of them without an order (\<open>scan\<close> in \<open>StorageVms\<close>); other queries return rows in the
  order of the table. Both are restricted only by hypotheses. Code that is not under \<^verbatim>\<open>src/\<close> is a parameter: the cloud provider, the EC2 client, ZooKeeper, the JSON parser
  and the conversion of text to \<^verbatim>\<open>jsonb\<close>.

  \<^bold>\<open>Theories.\<close>
  \<^item> \<open>Prelude\<close>: machine integers, the contracts of the standard library functions the program uses
    (sorting as a locale with its interpretation, binary search, multisets, hash maps), decimal printing.
  \<^item> \<open>Slot\<close> (\<^verbatim>\<open>libs/common/slot\<close>), \<open>Result\<close> (\<^verbatim>\<open>result.h\<close>, \<^verbatim>\<open>errors\<close>), \<open>SchedState\<close> (\<^verbatim>\<open>libs/state\<close>), \<open>Env\<close> (\<^verbatim>\<open>env.cpp\<close>), \<open>Base64\<close>
    (\<^verbatim>\<open>base64.cpp\<close>, with a reference encoder and decoder and the round trip).
  \<^item> \<open>OrderedJobs\<close>, \<open>JobAllocator\<close>, \<open>SlotSelector\<close>, \<open>VmAssigner\<close>, \<open>Scheduler\<close> (\<^verbatim>\<open>libs/scheduler\<close>): the planning. The
    allocation strategies share a locale of their bookkeeping, which gives the balance of capacities and
    that every job is planned once; slot selection is shown to return, to place every job and to keep capacities exact.
  \<^item> \<open>Database\<close> (\<^verbatim>\<open>db_schema.sql\<close>, \<^verbatim>\<open>libs/postgres\<close>: rows, constraints, triggers, transactions), \<open>StorageTasks\<close>, \<open>StoragePlan\<close>,
    \<open>StorageVms\<close> (\<^verbatim>\<open>libs/db/impl/pg_task_storage.cpp\<close>): every operation of the storage.
  \<^item> \<open>StorageOps\<close>: the operations as one datatype, and locales for relations between the tables before and after an
    operation. \<open>db_relation\<close> has the statements every operation is built of, \<open>vm_relation\<close> and \<open>write_relation\<close> add those of the
    VM operations and of all writing operations, \<open>plan_relation\<close> those of a scheduling round, and \<open>storage_relation\<close> joins them: a
    relation is shown of all operations once. They are interpreted in \<open>CommitRule\<close>, \<open>History\<close> (rows are never removed, final
    jobs never change), \<open>Wellformed\<close> (the invariant \<open>db_wf\<close>), \<open>PlanRounds\<close>, \<open>FailureSpec\<close>, \<open>JobLifecycle\<close>, \<open>VmLifecycle\<close>,
    \<open>Ledger\<close> and \<open>Capacity\<close>.
  \<^item> \<open>Lifecycle\<close>, \<open>JobLifecycle\<close>, \<open>VmLifecycle\<close>: the abstract life of a row as a table of allowed changes of status, and that every
    operation refines it: jobs and VMs only move along the edges of their tables, and rows only appear in their initial status.
  \<^item> \<open>System\<close>: processes and database as a step relation; reachable states are well-formed.
  \<^item> \<open>Ledger\<close>, \<open>PlanClock\<close>, \<open>Capacity\<close>, \<open>Overcommit\<close>: no VM is overcommitted. The ledger says that the idle capacity of a VM and what its
    jobs hold stay within its size; the jobs whose capacity a report has given back are a history variable beside the
    tables. \<open>Ledger\<close> interprets the locales of \<open>StorageOps\<close> with it, so every call but the commit of a plan keeps it. \<open>PlanClock\<close>: with a
    clock that does not run backwards the newest plan is the last one, so that a round which was overtaken commits nothing. \<open>Capacity\<close>: between a snapshot and its commit idle
    capacities only grow, and committing the assignment computed from the snapshot keeps the ledger. \<open>Overcommit\<close>: runs of the
    system as lists of labels, the invariant along them, and two runs of the code that show what the theorem does not give: capacity
    that is lost when a report comes between a snapshot and its commit, and a VM overcommitted by a repeated report.
  \<^item> \<open>StorageSpec\<close>, \<open>StorageClientSpec\<close>, \<open>StorageAgentSpec\<close>, \<open>StorageVmSpec\<close>, \<open>VmRows\<close>, \<open>PlanRounds\<close>: the exact effect of the operations, that they are all or
    nothing (an operation whose commit is not answered may have been done in full), round trips, and the pacing of scheduling rounds. \<open>SchedulingProgress\<close>: a scheduling round on a well-formed database without faults
    completes and leaves no queued job behind.
  \<^item> \<open>Allocator\<close> (\<^verbatim>\<open>libs/allocator\<close>), \<open>FailureDetector\<close> (\<^verbatim>\<open>libs/failure_detector\<close>), \<open>ServerApi\<close> (\<^verbatim>\<open>libs/server\<close>): the clients of the storage.
    \<open>Services\<close> has the locale of clients that reach the database through storage operations only;
    \<open>AllocatorSpec\<close>, \<open>FailureSpec\<close>, \<open>ServerSpec\<close> say what their rounds and requests do.
  \<^item> \<open>Aws\<close>, \<open>AwsSpec\<close> (\<^verbatim>\<open>libs/aws\<close>): the provider's client; offered sizes and chosen instance types agree, an allocation
    accounts for what it created, on an EC2 client whose launches are idempotent per client token and whose answers may be lost.
  \<^item> \<open>DistLock\<close> (\<^verbatim>\<open>libs/zookeeper\<close>): leader election and its exclusion. \<open>PgPool\<close> (\<^verbatim>\<open>libs/postgres\<close>): the connection pool as a step
    relation over threads, in which returning a connection, notifying and ending the transaction object are separate steps.
  \<^item> \<open>TaskRegistry\<close> (\<^verbatim>\<open>libs/task_registry\<close> and the \<^verbatim>\<open>config.cpp\<close> files): a process from its environment, its
    threads and requests. The theorem on whole processes is below.
  \<^item> \<open>BackgroundThread\<close> (\<^verbatim>\<open>libs/concurrency\<close>, \<^verbatim>\<open>bin/main.cpp\<close>): a background thread and its destructor as two interleaved step
    machines over the stop flag and the condition variable, with every test a step; when the thread stops and how a notification is lost; the wait
    of the main thread and its signal handler.
  \<^item> \<open>Formatting\<close> (\<^verbatim>\<open>stringify.h\<close>, \<^verbatim>\<open>libs/postgres/include/helpers.h\<close>, the \<^verbatim>\<open>operator<<\<close> of the state): the lists spliced into SQL text,
    which read back as the values they were made of, and the printers.

  \<^bold>\<open>Fuel and termination.\<close> Recursion is structural or has a measure (merging slots: their number), with
  these exceptions. The loops of next fit and of the two paged AWS requests are
    partial functions to \<open>option\<close>; the listing of instances is shown to end when its pages do. \<^verbatim>\<open>lock\<close> and \<^verbatim>\<open>checkLockAcquired\<close>,
    which recurse as long as ZooKeeper fails, take a depth; a check on a listing that has the node of the
    process needs depth one.

  \<^bold>\<open>Not modelled.\<close> The gRPC server and message classes (generated code, registration only), the
  log sinks, the interleaving of statements
  of two transactions inside the database (statements of one call run together; the plan operations take a table
  lock, the others rely on the isolation of the server), values of an enumeration that the message definitions do not have, test code, and the agent, a Go program.
\<close>

section \<open>A server process\<close>

text \<open>
  C2. A whole server process: set up from its environment on the sizes its cloud client offers, and
  started on a database any such processes may have produced, it leaves the database in a state the
  system can reach, and well-formed, after any sequence of rounds of its background threads and requests to its services,
  whatever the provider answers and the other processes do meanwhile. (Next fit is not chosen and the
  sizes are in the range of the columns.)
\<close>

theorem process_wf:
  assumes init: "TaskRegistry_init env config possible = Inr pr"
    and usable: "getFromEnvOrDefault_str env ''VMS_ALLOCATION_STRATEGY'' ''bestfit'' \<noteq> ''nextfit''" "\<forall>s \<in> set possible. cap_ok s"
    and start: "reachable jsonb (pr_schedulerConfig pr) possible (p, pcs)"
    and events: "list_all (event_ok jsonb (pr_schedulerConfig pr) possible) es"
  shows "(\<exists>pcs. reachable jsonb (pr_schedulerConfig pr) possible (fst (fold (run_event jsonb parse pr cc) es (p, w)), pcs)) \<and>
     db_wf (committed (fst (fold (run_event jsonb parse pr cc) es (p, w))))"
proof -
  note cfg = TaskRegistry_init_config_ok [OF init usable]
  have "\<exists>pcs. reachable jsonb (pr_schedulerConfig pr) possible (fst (fold (run_event jsonb parse pr cc) es (p, w)), pcs)"
    using run_events_reachable [of jsonb pr "(p, w)" es parse cc] start events unfolding cfg(1) by auto
  moreover from this have "db_wf (committed (fst (fold (run_event jsonb parse pr cc) es (p, w))))"
    using reachable_inv cfg(2) unfolding cfg(1) by fastforce
  ultimately show ?thesis by blast
qed

definition ex_process_events :: "(AllocatedVmInfo list \<times> nat) event list" where
  "ex_process_events =
     [Background Schedule [1] (\<lambda>w p. p) (\<lambda>p. p) (\<lambda>p. p) None, Background Allocate [1] (\<lambda>w p. p) (\<lambda>p. p) (\<lambda>p. p) None,
      Cancel_request 1, Background Monitor [1] (\<lambda>w p. p) (\<lambda>p. p) (\<lambda>p. p) None]"

theorem process_wf_witness:
  "\<exists>config pr. createConfig Map.empty = Some config \<and> TaskRegistry_init Map.empty config ex_possible = Inr pr \<and>
     map fst (pr_threads pr) = [Allocate, Terminate, Monitor, Schedule] \<and>
     db_wf (committed (fst (fold (run_event Some (\<lambda>s. None) pr simple_cloud) ex_process_events (ex_pg, ([], 0)))))"
proof -
  have "\<exists>config pr. createConfig Map.empty = Some config \<and> TaskRegistry_init Map.empty config ex_possible = Inr pr \<and>
     map fst (pr_threads pr) = [Allocate, Terminate, Monitor, Schedule]"
    by (simp add: createConfig_def TaskRegistry_init_def createDistLock_def wants_dist_lock_def Scheduler_init_def ex_possible_def
        createSchedulerConfig_def createComplexVmAssignerConfig_def getFromEnvOrDefault_str_def getFromEnvOrDefault_def
        schedulerModeFromString_def vmAssignerTypeFromString_def jobOrderingFromString_def allocationStrategyFromString_def
        TaskRegistry_threads_def less_eq_SlotCapacity_def)
  then obtain config pr where init: "createConfig Map.empty = Some config" "TaskRegistry_init Map.empty config ex_possible = Inr pr"
    "map fst (pr_threads pr) = [Allocate, Terminate, Monitor, Schedule]" by (elim exE conjE) (rule that)
  have usable: "getFromEnvOrDefault_str Map.empty ''VMS_ALLOCATION_STRATEGY'' ''bestfit'' \<noteq> ''nextfit''" "\<forall>s \<in> set ex_possible. cap_ok s"
    by (simp_all add: getFromEnvOrDefault_str_def ex_possible_def cap_ok_def)
  have "reachable Some (pr_schedulerConfig pr) ex_possible (ex_pg, \<lambda>_. Idle)" unfolding ex_pg_def by (rule reach_init)
  moreover have "list_all (event_ok Some (pr_schedulerConfig pr) ex_possible) ex_process_events"
    by (simp add: ex_process_events_def others_ok_id)
  ultimately have "db_wf (committed (fst (fold (run_event Some (\<lambda>s. None) pr simple_cloud) ex_process_events (ex_pg, ([], 0)))))"
    using process_wf [OF init(2) usable, where es = ex_process_events and parse = "\<lambda>s. None" and cc = simple_cloud] by simp
  with init show ?thesis by (intro exI conjI)
qed

end
